(* ===== verification/Prelude.thy ===== *)
theory Prelude
  imports Complex_Main "HOL-Library.Word"
begin

text \<open>
  Shared vocabulary of the development: Go's fixed-width integers, the error
  values the packages exchange, the collections of simplification rules that the
  component theories fill, and the generic list lemmas they share.

  Go's \<open>int64\<close>, \<open>int\<close> (64 bits on every platform the service is built
  for) and \<open>time.Duration\<close> (an \<open>int64\<close> of nanoseconds) are the 64-bit words of
  \<^theory_text>\<open>HOL-Library.Word\<close> read through \<open>sint\<close>.
\<close>

section \<open>Integers\<close>

type_synonym int64 = "64 word"
type_synonym duration = int64

text \<open>The constants of package \<open>time\<close>, in nanoseconds.\<close>

abbreviation Millisecond :: duration where "Millisecond \<equiv> 1000000"
abbreviation Second :: duration where "Second \<equiv> 1000000000"
abbreviation Minute :: duration where "Minute \<equiv> 60000000000"

lemma sint64_range: "- (2 ^ 63) \<le> sint (x :: int64)" "sint (x :: int64) < 2 ^ 63"
  using sint_ge [of x] sint_lt [of x] by simp_all

lemma sint64_of_int:
  "- (2 ^ 63) \<le> i \<Longrightarrow> i < 2 ^ 63 \<Longrightarrow> sint (word_of_int i :: int64) = i"
  by (simp add: signed_of_int signed_take_bit_int_eq_self)

lemma sint_scale:
  assumes "0 < sint (x :: int64)" "0 \<le> k" "k * sint x < 2 ^ 63"
  shows "sint (word_of_int k * x) = k * sint x"
proof -
  have "word_of_int k * x = word_of_int (k * sint x)" by (simp add: of_int_mult)
  moreover have "sint (word_of_int (k * sint x) :: int64) = k * sint x"
    using assms by (intro sint64_of_int) (auto intro: order_trans [of _ 0])
  ultimately show ?thesis by simp
qed

lemma sint64_add:
  assumes "- (2 ^ 63) \<le> sint (x :: int64) + sint y" "sint x + sint y < 2 ^ 63"
  shows "sint (x + y) = sint x + sint y"
proof -
  have "x + y = word_of_int (sint x + sint y)" by (simp add: of_int_add)
  with sint64_of_int [OF assms] show ?thesis by (simp only:)
qed

lemma sint64_mult:
  assumes "- (2 ^ 63) \<le> sint (x :: int64) * sint y" "sint x * sint y < 2 ^ 63"
  shows "sint (x * y) = sint x * sint y"
proof -
  have "x * y = word_of_int (sint x * sint y)" by (simp add: of_int_mult)
  with sint64_of_int [OF assms] show ?thesis by (simp only:)
qed

section \<open>Collections of rules\<close>

named_theorems go_exec \<open>symbolic execution of Go programs\<close>
named_theorems str_simps \<open>equations of the string library\<close>
named_theorems repo_laws \<open>what the operations of the Redis repository do\<close>

section \<open>Results\<close>

text \<open>A Go function that returns \<open>(T, error)\<close> returns a sum here: \<open>Inl\<close> the error.\<close>

abbreviation is_ok :: "'e + 'a \<Rightarrow> bool" where
  "is_ok r \<equiv> \<not> isl r"

lemma isl_iff: "isl r \<longleftrightarrow> (\<exists>e. r = Inl e)"
  by (cases r) auto

section \<open>Lists\<close>

text \<open>\<open>splitOn P xs\<close> cuts \<open>xs\<close> at every element satisfying \<open>P\<close>, which it drops.\<close>

fun splitOn :: "('a \<Rightarrow> bool) \<Rightarrow> 'a list \<Rightarrow> 'a list list" where
  "splitOn P [] = [[]]"
| "splitOn P (x # xs) =
     (if P x then [] # splitOn P xs
      else (case splitOn P xs of [] \<Rightarrow> [[x]] | y # ys \<Rightarrow> (x # y) # ys))"

lemma splitOn_not_Nil [simp]: "splitOn P xs \<noteq> []"
  by (induction xs) (auto split: list.splits)

lemma splitOn_append_sep:
  "P s \<Longrightarrow> splitOn P (xs @ s # ys) = splitOn P xs @ splitOn P ys"
  by (induction xs) (auto split: list.splits)

lemma splitOn_none: "\<forall>x \<in> set xs. \<not> P x \<Longrightarrow> splitOn P xs = [xs]"
  by (induction xs) auto

lemma splitOn_elem_free: "w \<in> set (splitOn P xs) \<Longrightarrow> x \<in> set w \<Longrightarrow> \<not> P x"
proof (induction xs arbitrary: w)
  case Nil
  then show ?case by simp
next
  case (Cons a xs)
  obtain y ys where split: "splitOn P xs = y # ys"
    by (cases "splitOn P xs") auto
  show ?case
  proof (cases "P a")
    case True
    with Cons show ?thesis by auto
  next
    case False
    with Cons.prems split consider "w = a # y" | "w \<in> set ys" by auto
    then show ?thesis
      using Cons.IH [of y] Cons.IH [of w] Cons.prems(2) False split by cases auto
  qed
qed

lemma hd_splitOn: "hd (splitOn P xs) = takeWhile (\<lambda>x. \<not> P x) xs"
proof (induction xs)
  case Nil
  then show ?case by simp
next
  case (Cons a xs)
  then show ?case by (cases "splitOn P xs") auto
qed

end
