(* ===== verification/Go_Strings.thy ===== *)
theory Go_Strings
  imports Unicode_Tables
begin

text \<open>
  Go strings and the functions of packages \<open>strings\<close>, \<open>strconv\<close> and
  \<open>unicode/utf8\<close> the program calls. A Go string is a sequence of bytes, which is what
  HOL's \<open>string\<close> (a list of 8-bit \<open>char\<close>s) is; runes are what
  \<open>utf8.DecodeRune\<close> reads off it, an invalid byte giving the replacement character and
  width 1.
\<close>

section \<open>UTF-8\<close>

abbreviation runeError :: nat where "runeError \<equiv> 0xFFFD"

definition cont_byte :: "nat \<Rightarrow> bool" where
  "cont_byte b \<longleftrightarrow> 0x80 \<le> b \<and> b \<le> 0xBF"

definition lead2 :: "nat \<Rightarrow> nat \<Rightarrow> bool" where
  "lead2 b0 b1 \<longleftrightarrow> 0xC2 \<le> b0 \<and> b0 \<le> 0xDF \<and> cont_byte b1"

definition lead3 :: "nat \<Rightarrow> nat \<Rightarrow> nat \<Rightarrow> bool" where
  "lead3 b0 b1 b2 \<longleftrightarrow> 0xE0 \<le> b0 \<and> b0 \<le> 0xEF \<and> cont_byte b1 \<and> cont_byte b2
     \<and> (b0 = 0xE0 \<longrightarrow> 0xA0 \<le> b1) \<and> (b0 = 0xED \<longrightarrow> b1 \<le> 0x9F)"

definition lead4 :: "nat \<Rightarrow> nat \<Rightarrow> nat \<Rightarrow> nat \<Rightarrow> bool" where
  "lead4 b0 b1 b2 b3 \<longleftrightarrow> 0xF0 \<le> b0 \<and> b0 \<le> 0xF4 \<and> cont_byte b1 \<and> cont_byte b2 \<and> cont_byte b3
     \<and> (b0 = 0xF0 \<longrightarrow> 0x90 \<le> b1) \<and> (b0 = 0xF4 \<longrightarrow> b1 \<le> 0x8F)"

text \<open>\<open>utf8.DecodeRuneInString\<close>: the first rune and its width.\<close>

fun decode_bytes :: "nat list \<Rightarrow> nat \<times> nat" where
  "decode_bytes (b0 # b1 # b2 # b3 # _) =
     (if b0 < 0x80 then (b0, 1)
      else if lead2 b0 b1 then ((b0 - 0xC0) * 64 + (b1 - 0x80), 2)
      else if lead3 b0 b1 b2 then ((b0 - 0xE0) * 4096 + (b1 - 0x80) * 64 + (b2 - 0x80), 3)
      else if lead4 b0 b1 b2 b3
        then ((b0 - 0xF0) * 262144 + (b1 - 0x80) * 4096 + (b2 - 0x80) * 64 + (b3 - 0x80), 4)
      else (runeError, 1))"
| "decode_bytes [b0, b1, b2] =
     (if b0 < 0x80 then (b0, 1)
      else if lead2 b0 b1 then ((b0 - 0xC0) * 64 + (b1 - 0x80), 2)
      else if lead3 b0 b1 b2 then ((b0 - 0xE0) * 4096 + (b1 - 0x80) * 64 + (b2 - 0x80), 3)
      else (runeError, 1))"
| "decode_bytes [b0, b1] =
     (if b0 < 0x80 then (b0, 1)
      else if lead2 b0 b1 then ((b0 - 0xC0) * 64 + (b1 - 0x80), 2)
      else (runeError, 1))"
| "decode_bytes [b0] = (if b0 < 0x80 then (b0, 1) else (runeError, 1))"
| "decode_bytes [] = (runeError, 0)"

definition decode_rune :: "string \<Rightarrow> nat \<times> nat" where
  "decode_rune s = decode_bytes (map of_char (take 4 s))"

text \<open>
  \<open>for _, r := range s\<close>: the runes of a string, each with the bytes it was read from.
\<close>

type_synonym piece = "nat \<times> string"

fun runes :: "string \<Rightarrow> piece list" where
  "runes [] = []"
| "runes (c # cs) =
     (let (r, w) = decode_rune (c # cs)
      in (r, c # take (w - 1) cs) # runes (drop (w - 1) cs))"

abbreviation unrunes :: "piece list \<Rightarrow> string" where
  "unrunes ps \<equiv> concat (map snd ps)"

definition rune_count :: "string \<Rightarrow> nat" where
  "rune_count s = length (runes s)"

text \<open>\<open>utf8.EncodeRune\<close>: a value that is no Unicode scalar is written as U+FFFD.\<close>

definition encode_bytes :: "nat \<Rightarrow> nat list" where
  "encode_bytes r =
     (if r < 0x80 then [r]
      else if r < 0x800 then [0xC0 + r div 64, 0x80 + r mod 64]
      else if 0xD800 \<le> r \<and> r \<le> 0xDFFF \<or> 0x10FFFF < r then [0xEF, 0xBF, 0xBD]
      else if r < 0x10000 then [0xE0 + r div 4096, 0x80 + r div 64 mod 64, 0x80 + r mod 64]
      else [0xF0 + r div 262144, 0x80 + r div 4096 mod 64, 0x80 + r div 64 mod 64,
            0x80 + r mod 64])"

definition encode_rune :: "nat \<Rightarrow> string" where
  "encode_rune r = map char_of (encode_bytes r)"

lemma decode_bytes_width:
  "bs \<noteq> [] \<Longrightarrow> 1 \<le> snd (decode_bytes bs) \<and> snd (decode_bytes bs) \<le> length bs"
  by (cases bs rule: decode_bytes.cases) auto

lemma decode_rune_width:
  "decode_rune (c # cs) = (r, w) \<Longrightarrow> 1 \<le> w \<and> w - 1 \<le> length cs"
  using decode_bytes_width [of "map of_char (take 4 (c # cs))"]
  by (auto simp: decode_rune_def)

lemma unrunes_runes [simp]: "unrunes (runes s) = s"
  by (induction s rule: runes.induct) (auto split: prod.splits)

lemma runes_eq_Nil [simp]: "runes s = [] \<longleftrightarrow> s = []"
  by (cases s) (auto split: prod.splits)

lemma rune_count_Nil [simp]: "rune_count [] = 0"
  by (simp add: rune_count_def)

lemma rune_count_pos: "s \<noteq> [] \<Longrightarrow> 0 < rune_count s"
  by (simp add: rune_count_def)

lemma rune_count_0_iff [simp]: "rune_count s = 0 \<longleftrightarrow> s = []"
  by (simp add: rune_count_def)

text \<open>
  Decoding does not look past a byte that cannot continue a sequence: cutting a string
  before such a byte cuts its runes.
\<close>

definition boundary :: "string \<Rightarrow> bool" where
  "boundary s \<longleftrightarrow> (case s of [] \<Rightarrow> True | c # _ \<Rightarrow> \<not> cont_byte (of_char c))"

lemma decode_bytes_boundary:
  assumes "bs \<noteq> []" "cs = [] \<or> \<not> cont_byte (hd cs)"
  shows "decode_bytes (take 4 (bs @ cs)) = decode_bytes (take 4 bs)"
proof (cases cs)
  case Nil
  then show ?thesis by simp
next
  case (Cons c cs')
  with assms(2) have c: "\<not> cont_byte c" by simp
  consider b0 where "bs = [b0]" | b0 b1 where "bs = [b0, b1]"
    | b0 b1 b2 where "bs = [b0, b1, b2]" | b0 b1 b2 b3 bs' where "bs = b0 # b1 # b2 # b3 # bs'"
    using assms(1) by (cases bs rule: decode_bytes.cases) auto
  then show ?thesis
  proof cases
    case 1
    with Cons c show ?thesis
      by (cases cs' rule: decode_bytes.cases) (auto simp: lead2_def lead3_def lead4_def)
  next
    case 2
    with Cons c show ?thesis
      by (cases cs' rule: decode_bytes.cases) (auto simp: lead2_def lead3_def lead4_def)
  next
    case 3
    with Cons c show ?thesis
      by (auto simp: lead2_def lead3_def lead4_def)
  next
    case 4
    then show ?thesis by simp
  qed
qed

lemma decode_rune_boundary:
  assumes "s \<noteq> []" "boundary t"
  shows "decode_rune (s @ t) = decode_rune s"
proof -
  have "map of_char t = [] \<or> \<not> cont_byte (hd (map of_char t :: nat list))"
    using assms(2) by (auto simp: boundary_def split: list.splits)
  from decode_bytes_boundary [OF _ this, of "map of_char s"] assms(1)
  show ?thesis by (simp add: decode_rune_def take_map)
qed

lemma runes_append: "boundary t \<Longrightarrow> runes (s @ t) = runes s @ runes t"
proof (induction s rule: runes.induct)
  case 1
  then show ?case by simp
next
  case (2 c cs)
  obtain r w where rw: "decode_rune (c # cs) = (r, w)" by fastforce
  with 2 have rw': "decode_rune ((c # cs) @ t) = (r, w)"
    by (simp add: decode_rune_boundary del: append_Cons)
  from rw have w: "w - 1 \<le> length cs" using decode_rune_width by blast
  have "runes (drop (w - 1) cs @ t) = runes (drop (w - 1) cs) @ runes t"
    using "2.IH" [OF rw [symmetric] refl "2.prems"] .
  with rw rw' w show ?case by simp
qed

lemma boundary_ascii [simp]: "of_char c < (0x80 :: nat) \<Longrightarrow> boundary (c # s)"
  by (simp add: boundary_def cont_byte_def)

lemma boundary_Nil [simp]: "boundary []"
  by (simp add: boundary_def)

lemma decode_rune_ascii: "of_char c < (0x80 :: nat) \<Longrightarrow> decode_rune (c # cs) = (of_char c, 1)"
  by (cases "map of_char (take 4 (c # cs)) :: nat list" rule: decode_bytes.cases)
    (auto simp: decode_rune_def)

lemma runes_ascii: "of_char c < (0x80 :: nat) \<Longrightarrow> runes (c # cs) = (of_char c, [c]) # runes cs"
  by (simp add: decode_rune_ascii)

text \<open>A rune other than the replacement character was read from bytes that start at a boundary.\<close>

lemma decode_bytes_lead:
  "fst (decode_bytes (b # bs)) \<noteq> runeError \<Longrightarrow> \<not> cont_byte b"
  by (cases "b # bs" rule: decode_bytes.cases)
    (auto simp: lead2_def lead3_def lead4_def cont_byte_def split: if_splits)

lemma runes_boundary: "runes s = p # ps \<Longrightarrow> fst p \<noteq> runeError \<Longrightarrow> boundary s"
proof (cases s)
  case (Cons c cs)
  assume "runes s = p # ps" "fst p \<noteq> runeError"
  with Cons have "fst (decode_bytes (of_char c # map of_char (take 3 cs))) \<noteq> runeError"
    by (auto simp: decode_rune_def split: prod.splits)
  then show ?thesis
    using Cons by (auto simp: boundary_def dest: decode_bytes_lead)
qed simp

declare runes.simps(2) [simp del]

text \<open>
  A list of pieces is \<open>decoded\<close> when it is the decoding of its own bytes: decoding is stable
  on suffixes, and on prefixes that end before a boundary.
\<close>

definition decoded :: "piece list \<Rightarrow> bool" where
  "decoded ps \<longleftrightarrow> runes (unrunes ps) = ps"

lemma decoded_runes [simp]: "decoded (runes s)"
  by (simp add: decoded_def)

lemma decoded_Nil [simp]: "decoded []"
  by (simp add: decoded_def)

lemma runes_tail: "runes s = p # ps \<Longrightarrow> runes (unrunes ps) = ps"
  by (cases s) (auto simp: runes.simps split: prod.splits)

lemma decoded_tail: "decoded (p # ps) \<Longrightarrow> decoded ps"
  unfolding decoded_def by (rule runes_tail)

lemma decoded_suffix: "decoded (xs @ ys) \<Longrightarrow> decoded ys"
  by (induction xs) (auto dest: decoded_tail)

lemma decoded_prefix:
  assumes "decoded (xs @ ys)" "ys \<noteq> [] \<Longrightarrow> fst (hd ys) \<noteq> runeError"
  shows "decoded xs"
proof -
  have ys: "runes (unrunes ys) = ys"
    using decoded_suffix [OF assms(1)] by (simp add: decoded_def)
  have "boundary (unrunes ys)"
  proof (cases ys)
    case Nil
    then show ?thesis by simp
  next
    case (Cons p ps)
    with assms(2) ys show ?thesis by (intro runes_boundary [of _ p ps]) auto
  qed
  then have "runes (unrunes (xs @ ys)) = runes (unrunes xs) @ ys"
    by (simp add: runes_append ys)
  with assms(1) show ?thesis by (simp add: decoded_def)
qed

section \<open>Package strings\<close>

abbreviation spc :: char where "spc \<equiv> CHR 0x20"

abbreviation space_piece :: "piece \<Rightarrow> bool" where
  "space_piece p \<equiv> is_space (fst p)"

lemma is_space_32 [simp]: "is_space 32"
  by (simp add: is_space_def)

lemma is_space_runeError [simp]: "\<not> is_space runeError"
  by (simp add: is_space_def)

text \<open>\<open>strings.Fields\<close>: the maximal runs of non-space runes.\<close>

definition Fields :: "string \<Rightarrow> string list" where
  "Fields s = map unrunes (filter (\<lambda>ps. ps \<noteq> []) (splitOn space_piece (runes s)))"

lemma unrunes_Nil_iff: "decoded ps \<Longrightarrow> unrunes ps = [] \<longleftrightarrow> ps = []"
  by (metis concat.simps(1) decoded_def list.simps(8) runes_eq_Nil)

lemma splitOn_decoded: "decoded ps \<Longrightarrow> w \<in> set (splitOn space_piece ps) \<Longrightarrow> decoded w"
proof (induction ps arbitrary: w)
  case Nil
  then show ?case by simp
next
  case (Cons p ps)
  then have ps: "decoded ps" by (blast dest: decoded_tail)
  show ?case
  proof (cases "space_piece p")
    case True
    with Cons ps show ?thesis by auto
  next
    case False
    obtain y ys where y: "splitOn space_piece ps = y # ys"
      by (cases "splitOn space_piece ps") auto
    then have "y = takeWhile (\<lambda>p. \<not> space_piece p) ps"
      by (metis hd_splitOn list.sel(1))
    then have py: "p # y = takeWhile (\<lambda>p. \<not> space_piece p) (p # ps)"
      using False by simp
    have "decoded (takeWhile (\<lambda>p. \<not> space_piece p) (p # ps)
                   @ dropWhile (\<lambda>p. \<not> space_piece p) (p # ps))"
      using Cons.prems(1) by (simp only: takeWhile_dropWhile_id)
    then have "decoded (p # y)"
      unfolding py
      by (rule decoded_prefix) (metis (lifting) hd_dropWhile is_space_runeError)
    with Cons ps y False show ?thesis by auto
  qed
qed

lemma fields_nonempty: "w \<in> set (Fields s) \<Longrightarrow> w \<noteq> []"
  unfolding Fields_def using splitOn_decoded [OF decoded_runes] unrunes_Nil_iff by force

lemma runes_no_space_fields:
  "w \<noteq> [] \<Longrightarrow> \<forall>p \<in> set (runes w). \<not> space_piece p \<Longrightarrow> Fields w = [w]"
  by (simp add: Fields_def splitOn_none)

lemma field_no_space: "w \<in> set (Fields s) \<Longrightarrow> p \<in> set (runes w) \<Longrightarrow> \<not> space_piece p"
  using splitOn_decoded [OF decoded_runes [of s]] splitOn_elem_free [of _ space_piece "runes s" p]
  by (auto simp: Fields_def decoded_def)

lemma fields_of_field: "w \<in> set (Fields s) \<Longrightarrow> Fields w = [w]"
  by (intro runes_no_space_fields) (auto simp: field_no_space dest: fields_nonempty)

lemma fields_Nil [simp]: "Fields [] = []"
  by (simp add: Fields_def)

lemma fields_append_space: "Fields (s @ spc # t) = Fields s @ Fields t"
proof -
  have "runes (s @ spc # t) = runes s @ (32, [spc]) # runes t"
    by (subst runes_append) (simp_all add: runes_ascii)
  then show ?thesis
    by (simp add: Fields_def splitOn_append_sep)
qed

lemma rune_count_append_space: "rune_count (s @ spc # t) = rune_count s + 1 + rune_count t"
  by (subst rune_count_def, subst runes_append) (simp_all add: runes_ascii rune_count_def)

end
