(* ===== verification/Go_Text.thy ===== *)
theory Go_Text
  imports Go_Strings
begin

text \<open>
  The byte-level functions of package \<open>strings\<close> and the conversions of package
  \<open>strconv\<close> the program uses: trimming, case folding, searching, replacing, splitting and
  joining; \<open>%d\<close> of an integer and \<open>strconv.ParseInt\<close>, with the round trip between them.
\<close>

section \<open>Package strings, continued\<close>

definition trim_space :: "string \<Rightarrow> string" where
  "trim_space s =
     unrunes (rev (dropWhile space_piece (rev (dropWhile space_piece (runes s)))))"

definition to_lower :: "string \<Rightarrow> string" where
  "to_lower s = concat (map (\<lambda>p. encode_rune (lower_rune (fst p))) (runes s))"

text \<open>\<open>strings.TrimRight\<close> with an ASCII cutset works on bytes.\<close>

definition trim_right :: "string \<Rightarrow> string \<Rightarrow> string" where
  "trim_right s cutset = rev (dropWhile (\<lambda>c. c \<in> set cutset) (rev s))"

definition has_prefix :: "string \<Rightarrow> string \<Rightarrow> bool" where
  "has_prefix s p \<longleftrightarrow> take (length p) s = p"

fun index_of :: "string \<Rightarrow> string \<Rightarrow> nat option" where
  "index_of [] sub = (if sub = [] then Some 0 else None)"
| "index_of (c # cs) sub =
     (if has_prefix (c # cs) sub then Some 0 else map_option Suc (index_of cs sub))"

text \<open>\<open>strings.Replace(s, old, new, 1)\<close>, for a non-empty \<open>old\<close>.\<close>

definition replace_first :: "string \<Rightarrow> string \<Rightarrow> string \<Rightarrow> string" where
  "replace_first s old new =
     (case index_of s old of
        None \<Rightarrow> s
      | Some i \<Rightarrow> take i s @ new @ drop (i + length old) s)"

text \<open>\<open>strings.IndexAny\<close> with ASCII characters, and \<open>strings.LastIndex\<close> of one ASCII character.\<close>

fun index_any :: "string \<Rightarrow> string \<Rightarrow> nat option" where
  "index_any [] cs = None"
| "index_any (c # s) cs = (if c \<in> set cs then Some 0 else map_option Suc (index_any s cs))"

fun last_index :: "string \<Rightarrow> char \<Rightarrow> nat option" where
  "last_index [] c = None"
| "last_index (d # s) c =
     (case last_index s c of
        Some i \<Rightarrow> Some (Suc i)
      | None \<Rightarrow> (if d = c then Some 0 else None))"

definition split_char :: "string \<Rightarrow> char \<Rightarrow> string list" where
  "split_char s c = splitOn (\<lambda>d. d = c) s"

text \<open>\<open>strings.SplitN(s, c, 2)\<close>.\<close>

definition split2 :: "string \<Rightarrow> char \<Rightarrow> string list" where
  "split2 s c =
     (case index_any s [c] of None \<Rightarrow> [s] | Some i \<Rightarrow> [take i s, drop (Suc i) s])"

fun join :: "string list \<Rightarrow> string \<Rightarrow> string" where
  "join [] sep = []"
| "join [s] sep = s"
| "join (s # t # ts) sep = s @ sep @ join (t # ts) sep"

lemma index_any_take: "(case index_any s cs of None \<Rightarrow> s | Some i \<Rightarrow> take i s)
    = takeWhile (\<lambda>c. c \<notin> set cs) s"
  by (induction s) (auto split: option.splits)

lemma index_any_Some: "index_any (s @ c # t) [c] = Some (length s)" if "c \<notin> set s"
  using that by (induction s) auto

lemma split2_append: "c \<notin> set s \<Longrightarrow> split2 (s @ c # t) c = [s, t]"
  by (simp add: split2_def index_any_Some)

lemma index_of_Some: "index_of s sub = Some i \<Longrightarrow> s = take i s @ sub @ drop (i + length sub) s"
proof (induction s arbitrary: i)
  case Nil
  then show ?case by (auto split: if_splits)
next
  case (Cons c cs)
  show ?case
  proof (cases "has_prefix (c # cs) sub")
    case True
    with Cons.prems show ?thesis
      by (metis Cons.prems add_0 append_take_drop_id has_prefix_def index_of.simps(2)
          option.inject self_append_conv2 take0)
  next
    case False
    with Cons.prems obtain j where "index_of cs sub = Some j" "i = Suc j" by auto
    with Cons.IH [of j] show ?thesis by simp
  qed
qed

lemma join_append:
  "xs \<noteq> [] \<Longrightarrow> ys \<noteq> [] \<Longrightarrow> join (xs @ ys) sep = join xs sep @ sep @ join ys sep"
proof (induction xs sep rule: join.induct)
  case (2 s sep)
  then show ?case by (cases ys) auto
qed auto

lemma join_snoc: "join (xs @ [y]) sep = (if xs = [] then y else join xs sep @ sep @ y)"
  by (auto simp: join_append)

lemma fields_decoded:
  "decoded ps \<Longrightarrow> Fields (unrunes ps)
     = map unrunes (filter (\<lambda>w. w \<noteq> []) (splitOn space_piece ps))"
  by (simp add: Fields_def decoded_def)

lemma splitOn_dropWhile:
  "filter (\<lambda>w. w \<noteq> []) (splitOn P (dropWhile P xs)) = filter (\<lambda>w. w \<noteq> []) (splitOn P xs)"
  by (induction xs) auto

lemma splitOn_append_all:
  assumes "\<forall>y \<in> set ys. P y"
  shows "filter (\<lambda>w. w \<noteq> []) (splitOn P (xs @ ys)) = filter (\<lambda>w. w \<noteq> []) (splitOn P xs)"
proof (cases ys)
  case Nil
  then show ?thesis by simp
next
  case (Cons y zs)
  from assms have "\<forall>z \<in> set zs. P z" using Cons by simp
  then have "filter (\<lambda>w. w \<noteq> []) (splitOn P zs) = []" by (induction zs) auto
  with Cons assms show ?thesis by (simp add: splitOn_append_sep)
qed

text \<open>Trimming removes no word.\<close>

lemma fields_trim_space [simp]: "Fields (trim_space s) = Fields s"
proof -
  let ?a = "dropWhile space_piece (runes s)"
  let ?b = "rev (dropWhile space_piece (rev ?a))"
  let ?t = "rev (takeWhile space_piece (rev ?a))"
  have a: "?b @ ?t = ?a"
    by (metis rev_append rev_rev_ident takeWhile_dropWhile_id)
  have t: "\<forall>p \<in> set ?t. space_piece p"
    by (auto dest: set_takeWhileD)
  have "decoded ?a"
    using decoded_suffix [of "takeWhile space_piece (runes s)" ?a] by simp
  then have "decoded (?b @ ?t)" by (simp only: a)
  then have b: "decoded ?b"
    by (rule decoded_prefix) (metis is_space_runeError list.set_sel(1) t)
  have "filter (\<lambda>w. w \<noteq> []) (splitOn space_piece ?b)
      = filter (\<lambda>w. w \<noteq> []) (splitOn space_piece ?a)"
    using splitOn_append_all [OF t, of ?b] by (simp only: a)
  then have "Fields (unrunes ?b) = Fields s"
    unfolding fields_decoded [OF b] by (simp add: splitOn_dropWhile Fields_def)
  then show ?thesis by (simp add: trim_space_def)
qed

section \<open>Package strconv\<close>

fun nat_digits :: "nat \<Rightarrow> string" where
  "nat_digits n = (if n < 10 then [char_of (48 + n)]
                   else nat_digits (n div 10) @ [char_of (48 + n mod 10)])"

declare nat_digits.simps [simp del]

text \<open>The verb \<open>%d\<close>.\<close>

definition itoa :: "int \<Rightarrow> string" where
  "itoa i = (if i < 0 then CHR ''-'' # nat_digits (nat (- i)) else nat_digits (nat i))"

datatype num_error = ErrSyntax | ErrRange

definition digit_val :: "char \<Rightarrow> nat option" where
  "digit_val c = (if 48 \<le> (of_char c :: nat) \<and> (of_char c :: nat) \<le> 57
                  then Some (of_char c - 48) else None)"

text \<open>The digit loop of \<open>strconv.ParseUint\<close>: it stops at the first bad byte or overflow.\<close>

fun uint_loop :: "string \<Rightarrow> nat \<Rightarrow> num_error + nat" where
  "uint_loop [] n = Inr n"
| "uint_loop (c # cs) n =
     (case digit_val c of
        None \<Rightarrow> Inl ErrSyntax
      | Some d \<Rightarrow> if n * 10 + d > 2 ^ 64 - 1 then Inl ErrRange else uint_loop cs (n * 10 + d))"

definition ParseUint :: "string \<Rightarrow> num_error + nat" where
  "ParseUint s = (if s = [] then Inl ErrSyntax else uint_loop s 0)"

text \<open>
  \<open>strconv.ParseInt(s, 10, 64)\<close>: the value and the error. A syntax error comes with 0, a
  range error with the nearest bound.
\<close>

definition ParseInt :: "string \<Rightarrow> int64 \<times> num_error option" where
  "ParseInt s =
     (let neg = (s \<noteq> [] \<and> hd s = CHR ''-'');
          t = (if s \<noteq> [] \<and> (hd s = CHR ''-'' \<or> hd s = CHR ''+'') then tl s else s)
      in case (if s = [] then Inl ErrSyntax else ParseUint t) of
           Inl ErrSyntax \<Rightarrow> (0, Some ErrSyntax)
         | Inl ErrRange \<Rightarrow>
             (word_of_int (if neg then - (2 ^ 63) else 2 ^ 63 - 1), Some ErrRange)
         | Inr n \<Rightarrow>
             if \<not> neg \<and> n \<ge> 2 ^ 63 then (word_of_int (2 ^ 63 - 1), Some ErrRange)
             else if neg \<and> n > 2 ^ 63 then (word_of_int (- (2 ^ 63)), Some ErrRange)
             else (word_of_int (if neg then - int n else int n), None))"

lemma digit_val_char [simp]: "d < 10 \<Longrightarrow> digit_val (char_of (48 + d :: nat)) = Some d"
  by (simp add: digit_val_def)

lemma nat_digits_chars: "c \<in> set (nat_digits n) \<Longrightarrow> 48 \<le> (of_char c :: nat) \<and> (of_char c :: nat) \<le> 57"
proof (induction n rule: nat_digits.induct)
  case (1 n)
  then show ?case
    by (cases "n < 10") (auto simp: nat_digits.simps [of n])
qed

lemma nat_digits_not_Nil [simp]: "nat_digits n \<noteq> []"
  by (subst nat_digits.simps) simp

lemma uint_loop_append_digit:
  assumes "uint_loop s n = Inr m" "d < 10" "m * 10 + d < 2 ^ 64"
  shows "uint_loop (s @ [char_of (48 + d)]) n = Inr (m * 10 + d)"
  using assms
  by (induction s n rule: uint_loop.induct) (auto split: option.splits if_splits)

lemma uint_loop_digits: "n < 2 ^ 64 \<Longrightarrow> uint_loop (nat_digits n) 0 = Inr n"
proof (induction n rule: nat_digits.induct)
  case (1 n)
  show ?case
  proof (cases "n < 10")
    case True
    then show ?thesis by (simp add: nat_digits.simps [of n])
  next
    case False
    then have "uint_loop (nat_digits (n div 10)) 0 = Inr (n div 10)"
      using "1.IH" "1.prems" by simp
    then have "uint_loop (nat_digits (n div 10) @ [char_of (48 + n mod 10)]) 0
        = Inr (n div 10 * 10 + n mod 10)"
      by (rule uint_loop_append_digit) (use "1.prems" in simp_all)
    with False show ?thesis by (simp add: nat_digits.simps [of n])
  qed
qed

lemma hd_nat_digits: "hd (nat_digits n) \<noteq> CHR ''-''" "hd (nat_digits n) \<noteq> CHR ''+''"
  using nat_digits_chars [of "hd (nat_digits n)" n] by auto

text \<open>\<open>ParseInt\<close> reads back what \<open>%d\<close> printed.\<close>

lemma ParseInt_itoa: "ParseInt (itoa (sint x)) = (x, None)"
proof (cases "sint x < 0")
  case True
  have "nat (- sint x) < 2 ^ 64" using sint64_range [of x] True by simp
  then have "uint_loop (nat_digits (nat (- sint x))) 0 = Inr (nat (- sint x))"
    by (rule uint_loop_digits)
  with True sint64_range [of x] show ?thesis
    by (simp add: ParseInt_def itoa_def ParseUint_def)
next
  case False
  have "nat (sint x) < 2 ^ 63" using sint64_range [of x] False by simp
  moreover from this have "uint_loop (nat_digits (nat (sint x))) 0 = Inr (nat (sint x))"
    by (intro uint_loop_digits) simp
  ultimately show ?thesis using False
    by (simp add: ParseInt_def itoa_def ParseUint_def hd_nat_digits)
qed

lemma itoa_chars:
  "c \<in> set (itoa i) \<Longrightarrow> c = CHR ''-'' \<or> 48 \<le> (of_char c :: nat) \<and> (of_char c :: nat) \<le> 57"
  by (auto simp: itoa_def split: if_splits dest: nat_digits_chars)

lemma itoa_no_colon [simp]: "CHR '':'' \<notin> set (itoa i)"
  by (auto dest: itoa_chars)

end
