(* ===== verification/Utf8.thy ===== *)
theory Utf8
  imports Go_Text
begin

text \<open>
  Encoding and decoding UTF-8 are inverse to each other on Unicode scalar values, and what
  \<open>[]rune\<close>-style conversions do to invalid bytes: \<open>coerce\<close> replaces each by U+FFFD, as
  \<open>encoding/json\<close> does with the strings it reads and writes.
\<close>

section \<open>One rune\<close>

definition scalar :: "nat \<Rightarrow> bool" where
  "scalar r \<longleftrightarrow> r \<le> 0x10FFFF \<and> \<not> (0xD800 \<le> r \<and> r \<le> 0xDFFF)"

lemma mod64: "(x::nat) mod 64 < 64" by simp

lemma base64_2: "(r :: nat) = r div 64 * 64 + r mod 64"
  by simp

lemma base64_3: "(r :: nat) = r div 4096 * 4096 + r div 64 mod 64 * 64 + r mod 64"
proof -
  have "r div 64 div 64 = r div 4096" by (simp add: div_mult2_eq [symmetric])
  with base64_2 [of r] base64_2 [of "r div 64"] show ?thesis by linarith
qed

lemma base64_4:
  "(r :: nat) = r div 262144 * 262144 + r div 4096 mod 64 * 4096 + r div 64 mod 64 * 64 + r mod 64"
proof -
  have "r div 4096 div 64 = r div 262144" by (simp add: div_mult2_eq [symmetric])
  with base64_3 [of r] base64_2 [of "r div 4096"] show ?thesis by linarith
qed

lemma decode_encode_bytes:
  assumes "scalar r"
  shows "decode_bytes (take 4 (encode_bytes r @ bs)) = (r, length (encode_bytes r))"
proof -
  consider "r < 0x80" | "0x80 \<le> r" "r < 0x800" | "0x800 \<le> r" "r < 0x10000" | "0x10000 \<le> r"
    by linarith
  then show ?thesis
  proof cases
    case 1
    then show ?thesis
      by (cases "take 4 (r # bs)" rule: decode_bytes.cases) (auto simp: encode_bytes_def)
  next
    case 2
    then have "r div 64 < 32" "2 \<le> r div 64" by (auto simp: less_mult_imp_div_less)
    with 2 show ?thesis
      using mod64 [of r] base64_2 [of r]
      by (cases "take 4 ((192 + r div 64) # (128 + r mod 64) # bs)" rule: decode_bytes.cases)
        (auto simp: encode_bytes_def lead2_def cont_byte_def)
  next
    case 3
    define a b c where "a = r div 4096" and "b = r div 64 mod 64" and "c = r mod 64"
    have r: "r = a * 4096 + b * 64 + c" 
      unfolding a_def b_def c_def by (rule base64_3)
    have bnd: "b < 64" "c < 64" "a < 16" using 3 by (auto simp: a_def b_def c_def less_mult_imp_div_less)
    have "encode_bytes r = [0xE0 + a, 0x80 + b, 0x80 + c]"
      using 3 assms by (auto simp: encode_bytes_def scalar_def a_def b_def c_def)
    moreover have "lead3 (0xE0 + a) (0x80 + b) (0x80 + c)"
      using bnd 3 assms unfolding r by (auto simp: lead3_def cont_byte_def scalar_def)
    moreover have "\<not> lead2 (0xE0 + a) (0x80 + b)" by (simp add: lead2_def)
    ultimately show ?thesis using r
      by (cases "take 4 ((0xE0 + a) # (0x80 + b) # (0x80 + c) # bs)" rule: decode_bytes.cases) auto
  next
    case 4
    define a b c d where "a = r div 262144" and "b = r div 4096 mod 64" and "c = r div 64 mod 64"
      and "d = r mod 64"
    have r: "r = a * 262144 + b * 4096 + c * 64 + d" 
      unfolding a_def b_def c_def d_def by (rule base64_4)
    have bnd: "b < 64" "c < 64" "d < 64" by (auto simp: b_def c_def d_def)
    have a: "a \<le> 4" using assms by (auto simp: a_def scalar_def)
    have "encode_bytes r = [0xF0 + a, 0x80 + b, 0x80 + c, 0x80 + d]"
      using 4 assms by (auto simp: encode_bytes_def scalar_def a_def b_def c_def d_def)
    moreover have "lead4 (0xF0 + a) (0x80 + b) (0x80 + c) (0x80 + d)"
      using bnd 4 a assms unfolding r by (auto simp: lead4_def cont_byte_def scalar_def)
    ultimately show ?thesis using r
      by (auto simp: lead2_def lead3_def)
  qed
qed

lemma horner64: "(z :: nat) < 64 \<Longrightarrow> (q * 64 + z) div 64 = q" "z < 64 \<Longrightarrow> (q * 64 + z) mod 64 = z"
  by simp_all

lemma div_4096: "(r :: nat) div 4096 = r div 64 div 64"
  by (simp add: div_mult2_eq [symmetric])

lemma div_262144: "(r :: nat) div 262144 = r div 64 div 64 div 64"
  by (simp add: div_mult2_eq [symmetric])

lemma encode_lead2:
  assumes l: "lead2 b0 b1" and r: "r = (b0 - 192) * 64 + (b1 - 128)"
  shows "scalar r \<and> encode_bytes r = [b0, b1] \<and> r \<noteq> runeError"
proof -
  have b: "b1 - 128 < 64" "2 \<le> b0 - 192" "b0 - 192 \<le> 31" and
    e: "192 + (b0 - 192) = b0" "128 + (b1 - 128) = b1"
    using l by (auto simp: lead2_def cont_byte_def)
  have "r div 64 = b0 - 192" "r mod 64 = b1 - 128" unfolding r using b by (simp_all only: horner64)
  moreover have "0x80 \<le> r" "r < 0x800" using r b by linarith+
  ultimately show ?thesis using e by (simp add: encode_bytes_def scalar_def)
qed

lemma encode_lead3:
  assumes l: "lead3 b0 b1 b2" and r: "r = (b0 - 224) * 4096 + (b1 - 128) * 64 + (b2 - 128)"
  shows "scalar r \<and> encode_bytes r = [b0, b1, b2]"
proof -
  define x y z where "x = b0 - 224" and "y = b1 - 128" and "z = b2 - 128"
  have b: "x \<le> 15" "y < 64" "z < 64" "x = 0 \<longrightarrow> 32 \<le> y" "x = 13 \<longrightarrow> y \<le> 31" and
    e: "b0 = 224 + x" "b1 = 128 + y" "b2 = 128 + z"
    using l by (auto simp: lead3_def cont_byte_def x_def y_def z_def)
  have r': "r = (x * 64 + y) * 64 + z" using r by (simp add: x_def y_def z_def)
  have "r div 64 = x * 64 + y" "r mod 64 = z" unfolding r' using b by (simp_all only: horner64)
  moreover from this have "r div 4096 = x" "r div 64 mod 64 = y"
    using b by (simp_all only: div_4096 horner64)
  moreover have "r < 0x10000" using b by (simp add: r')
  moreover have "0x800 \<le> r" using b unfolding r' by (cases "x = 0") auto
  moreover have "\<not> (0xD800 \<le> r \<and> r \<le> 0xDFFF)"
    using b unfolding r' by (cases "x < 13"; cases "x = 13") auto
  ultimately show ?thesis using e by (auto simp: encode_bytes_def scalar_def)
qed

lemma encode_lead4:
  assumes l: "lead4 b0 b1 b2 b3"
    and r: "r = (b0 - 240) * 262144 + (b1 - 128) * 4096 + (b2 - 128) * 64 + (b3 - 128)"
  shows "scalar r \<and> encode_bytes r = [b0, b1, b2, b3] \<and> r \<noteq> runeError"
proof -
  define x y z u where "x = b0 - 240" and "y = b1 - 128" and "z = b2 - 128" and "u = b3 - 128"
  have b: "x \<le> 4" "y < 64" "z < 64" "u < 64" "x = 0 \<longrightarrow> 16 \<le> y" "x = 4 \<longrightarrow> y \<le> 15" and
    e: "b0 = 240 + x" "b1 = 128 + y" "b2 = 128 + z" "b3 = 128 + u"
    using l by (auto simp: lead4_def cont_byte_def x_def y_def z_def u_def)
  have r': "r = ((x * 64 + y) * 64 + z) * 64 + u" using r by (simp add: x_def y_def z_def u_def)
  have r64: "r div 64 = (x * 64 + y) * 64 + z" "r mod 64 = u"
    unfolding r' using b by (simp_all only: horner64)
  moreover from this have r4096: "r div 4096 = x * 64 + y" "r div 64 mod 64 = z"
    using b by (simp_all only: div_4096 horner64)
  moreover from r64 r4096 have "r div 262144 = x" "r div 4096 mod 64 = y"
    using b by (simp_all only: div_262144 horner64)
  moreover have "0x10000 \<le> r" using b unfolding r' by (cases "x = 0") auto
  moreover have "r \<le> 0x10FFFF" using b unfolding r' by (cases "x = 4") auto
  ultimately show ?thesis using e by (simp add: encode_bytes_def scalar_def)
qed

lemma decode_bytes_split:
  assumes "bs \<noteq> []" "decode_bytes bs = (r, w)"
  obtains b0 bs' where "bs = b0 # bs'" "b0 < 0x80" "r = b0" "w = 1"
  | b0 b1 bs' where "bs = b0 # b1 # bs'" "lead2 b0 b1" "w = 2"
      "r = (b0 - 192) * 64 + (b1 - 128)"
  | b0 b1 b2 bs' where "bs = b0 # b1 # b2 # bs'" "lead3 b0 b1 b2" "w = 3"
      "r = (b0 - 224) * 4096 + (b1 - 128) * 64 + (b2 - 128)"
  | b0 b1 b2 b3 bs' where "bs = b0 # b1 # b2 # b3 # bs'" "lead4 b0 b1 b2 b3" "w = 4"
      "r = (b0 - 240) * 262144 + (b1 - 128) * 4096 + (b2 - 128) * 64 + (b3 - 128)"
  | "r = runeError" "w = 1"
  using assms by (cases bs rule: decode_bytes.cases) (simp_all split: if_splits)

lemma encode_decode_bytes:
  assumes "bs \<noteq> []" "decode_bytes bs = (r, w)"
  shows "r = runeError \<and> w = 1
     \<or> scalar r \<and> encode_bytes r = take w bs \<and> (r = runeError \<longrightarrow> w = 3)"
  using assms
proof (cases rule: decode_bytes_split)
  case 1
  then show ?thesis by (simp add: scalar_def encode_bytes_def)
next
  case 2
  with encode_lead2 show ?thesis by simp
next
  case 3
  with encode_lead3 show ?thesis by simp
next
  case 4
  with encode_lead4 show ?thesis by simp
qed simp

section \<open>Strings\<close>

lemma encode_bytes_lt: "b \<in> set (encode_bytes r) \<Longrightarrow> b < 256"
  by (auto simp: encode_bytes_def div_less_iff_less_mult split: if_splits)

lemma encode_bytes_len: "encode_bytes r \<noteq> []" "length (encode_bytes r) \<le> 4"
  by (auto simp: encode_bytes_def)

lemma map_of_char_encode: "map of_char (encode_rune r) = encode_bytes r"
  by (auto simp: encode_rune_def intro!: map_idI dest: encode_bytes_lt)

lemma decode_encode_rune:
  assumes "scalar r"
  shows "decode_rune (encode_rune r @ t) = (r, length (encode_rune r))"
  using decode_encode_bytes [OF assms, of "map of_char t"]
  by (simp add: decode_rune_def take_map [symmetric] map_of_char_encode)
    (simp add: encode_rune_def)

lemma runes_encode:
  assumes "scalar r"
  shows "runes (encode_rune r @ t) = (r, encode_rune r) # runes t"
proof -
  obtain c cs where c: "encode_rune r = c # cs"
    using encode_bytes_len(1) [of r] by (cases "encode_rune r") (auto simp: encode_rune_def)
  have "decode_rune (c # cs @ t) = (r, Suc (length cs))"
    using decode_encode_rune [OF assms, of t] c by simp
  then show ?thesis by (simp add: c runes.simps)
qed

text \<open>A piece is an invalid byte or the encoding of its rune.\<close>

definition bad_piece :: "piece \<Rightarrow> bool" where
  "bad_piece p \<longleftrightarrow> fst p = runeError \<and> length (snd p) = 1"

lemma decode_rune_piece:
  assumes "decode_rune (c # cs) = (r, w)"
  shows "r = runeError \<and> w = 1
     \<or> scalar r \<and> encode_rune r = take w (c # cs) \<and> (r = runeError \<longrightarrow> w = 3)"
proof -
  let ?bs = "map of_char (take 4 (c # cs)) :: nat list"
  have "w \<le> length ?bs"
    using decode_bytes_width [of ?bs] assms by (auto simp: decode_rune_def)
  then have "w \<le> 4" by simp
  then have "take w (take 4 (c # cs)) = take w (c # cs)" by (simp only: take_take min_absorb1)
  then have "map char_of (take w ?bs) = take w (c # cs)"
    by (simp only: take_map map_map comp_def char_of_char map_ident)
  moreover have "r = runeError \<and> w = 1
      \<or> scalar r \<and> encode_bytes r = take w ?bs \<and> (r = runeError \<longrightarrow> w = 3)"
    by (rule encode_decode_bytes) (use assms in \<open>simp_all add: decode_rune_def\<close>)
  ultimately show ?thesis by (auto simp: encode_rune_def)
qed

lemma runes_pieces:
  "p \<in> set (runes s) \<Longrightarrow>
     bad_piece p \<or> scalar (fst p) \<and> snd p = encode_rune (fst p) \<and> \<not> bad_piece p"
proof (induction s rule: runes.induct)
  case 1
  then show ?case by simp
next
  case (2 c cs)
  obtain r w where rw: "decode_rune (c # cs) = (r, w)" by fastforce
  then have w: "1 \<le> w" "w - 1 \<le> length cs" using decode_rune_width by blast+
  from "2.prems" rw consider "p = (r, c # take (w - 1) cs)" | "p \<in> set (runes (drop (w - 1) cs))"
    by (auto simp: runes.simps)
  then show ?case
  proof cases
    case 1
    moreover have "take w (c # cs) = c # take (w - 1) cs" using w by (cases w) auto
    moreover have "length (take (w - 1) cs) = w - 1" using w by simp
    ultimately show ?thesis
      using decode_rune_piece [OF rw] w by (auto simp: bad_piece_def)
  next
    case 2
    with "2.IH" [OF rw [symmetric] refl] show ?thesis by blast
  qed
qed

lemma scalar_runeError [simp]: "scalar runeError"
  by (simp add: scalar_def)

lemma scalar_piece: "p \<in> set (runes s) \<Longrightarrow> scalar (fst p)"
  using runes_pieces [of p s] by (auto simp: bad_piece_def)

definition coerce :: "string \<Rightarrow> string" where
  "coerce s = concat (map (\<lambda>p. encode_rune (fst p)) (runes s))"

lemma runes_encode_list:
  "\<forall>r \<in> set rs. scalar r \<Longrightarrow>
     runes (concat (map encode_rune rs)) = map (\<lambda>r. (r, encode_rune r)) rs"
  by (induction rs) (simp_all add: runes_encode)

lemma runes_coerce: "runes (coerce s) = map (\<lambda>p. (fst p, encode_rune (fst p))) (runes s)"
proof -
  have "coerce s = concat (map encode_rune (map fst (runes s)))"
    by (simp add: coerce_def comp_def)
  moreover have "\<forall>r \<in> set (map fst (runes s)). scalar r" by (auto dest: scalar_piece)
  ultimately have "runes (coerce s) = map (\<lambda>r. (r, encode_rune r)) (map fst (runes s))"
    by (simp only: runes_encode_list)
  then show ?thesis by simp
qed

lemma coerce_coerce [simp]: "coerce (coerce s) = coerce s"
proof -
  have "coerce (coerce s) = concat (map (\<lambda>p. encode_rune (fst p)) (runes (coerce s)))"
    by (rule coerce_def)
  also have "\<dots> = coerce s" unfolding runes_coerce by (simp add: coerce_def comp_def)
  finally show ?thesis .
qed

definition valid_utf8 :: "string \<Rightarrow> bool" where
  "valid_utf8 s \<longleftrightarrow> coerce s = s"

lemma valid_coerce [simp]: "valid_utf8 (coerce s)"
  by (simp add: valid_utf8_def)

lemma rune_count_coerce [simp]: "rune_count (coerce s) = rune_count s"
  by (simp add: rune_count_def runes_coerce)

lemma valid_utf8_Nil [simp]: "valid_utf8 []"
  by (simp add: valid_utf8_def coerce_def)

lemma coerce_eq_Nil [simp]: "coerce s = [] \<longleftrightarrow> s = []"
proof
  assume "coerce s = []"
  then have "runes (coerce s) = []" by simp
  then show "s = []" by (simp add: runes_coerce del: runes_eq_Nil) simp
qed (simp add: coerce_def)

end
