(* ===== verification/Go_Json.thy ===== *)
theory Go_Json
  imports Utf8
begin

text \<open>
  Package \<open>encoding/json\<close> as far as the program uses it: the values, the compact text
  \<open>json.Marshal\<close> writes (with its HTML-safe string escapes and its number format) and a
  parser for the JSON grammar with the string and surrogate handling of \<open>json.Unmarshal\<close>.
  The nesting limit of the library (10000) is not modelled.
\<close>

section \<open>Values\<close>

text \<open>
  A number is a decimal: \<open>JNum m e\<close> is \<open>m * 10 ^ e\<close>, the number its literal denotes.
  A \<open>float64\<close> of the program is such a decimal too; the rounding of binary floating point
  is not modelled.
\<close>

type_synonym float64 = "int \<times> int"

definition float_val :: "float64 \<Rightarrow> rat" where
  "float_val x = of_int (fst x) * (if 0 \<le> snd x then 10 ^ nat (snd x) else 1 / 10 ^ nat (- snd x))"

datatype json =
    JNull
  | JBool bool
  | JNum int int
  | JStr string
  | JArr "json list"
  | JObj "(string \<times> json) list"

section \<open>Printing\<close>

abbreviation qt :: char where "qt \<equiv> CHR 0x22"
abbreviation bsl :: char where "bsl \<equiv> CHR 0x5C"

definition hex_digit :: "nat \<Rightarrow> char" where
  "hex_digit n = (if n < 10 then char_of (48 + n) else char_of (87 + n))"

definition u_escape :: "nat \<Rightarrow> string" where
  "u_escape r = [bsl, CHR ''u'', hex_digit (r div 4096 mod 16), hex_digit (r div 256 mod 16),
                 hex_digit (r div 16 mod 16), hex_digit (r mod 16)]"

text \<open>One rune of a string: \<open>appendString\<close> with \<open>escapeHTML\<close> on.\<close>

definition escape_piece :: "piece \<Rightarrow> string" where
  "escape_piece p =
     (let r = fst p in
      if r = 0x22 then [bsl, qt]
      else if r = 0x5C then [bsl, bsl]
      else if r = 8 then [bsl, CHR ''b'']
      else if r = 12 then [bsl, CHR ''f'']
      else if r = 10 then [bsl, CHR ''n'']
      else if r = 13 then [bsl, CHR ''r'']
      else if r = 9 then [bsl, CHR ''t'']
      else if r < 0x20 \<or> r = 0x3C \<or> r = 0x3E \<or> r = 0x26 \<or> r = 0x2028 \<or> r = 0x2029
              \<or> (r = runeError \<and> length (snd p) = 1)
        then u_escape r
      else snd p)"

definition json_string :: "string \<Rightarrow> string" where
  "json_string s = qt # concat (map escape_piece (runes s)) @ [qt]"

text \<open>Numbers, in the shortest form: plain, or with an exponent below 1e-6 and from 1e21 on.\<close>

function strip_zeros :: "int \<Rightarrow> int \<Rightarrow> int \<times> int" where
  "strip_zeros m e = (if m = 0 then (0, 0)
     else if m mod 10 = 0 then strip_zeros (m div 10) (e + 1) else (m, e))"
  by pat_completeness auto
termination
proof (relation "measure (\<lambda>(m, e). nat \<bar>m\<bar>)")
  fix m e :: int
  assume "m \<noteq> 0" "m mod 10 = 0"
  moreover from this have "m = 10 * (m div 10)" using mult_div_mod_eq [of 10 m] by simp
  ultimately have "\<bar>m div 10\<bar> < \<bar>m\<bar>" by linarith
  then show "((m div 10, e + 1), (m, e)) \<in> measure (\<lambda>(m, e). nat \<bar>m\<bar>)" by simp
qed simp

declare strip_zeros.simps [simp del]

abbreviation zeros :: "nat \<Rightarrow> string" where
  "zeros n \<equiv> replicate n (CHR ''0'')"

definition json_number :: "int \<Rightarrow> int \<Rightarrow> string" where
  "json_number m0 e0 =
     (let (m, e) = strip_zeros m0 e0;
          ds = nat_digits (nat \<bar>m\<bar>);
          k = int (length ds) + e;
          sign = (if m < 0 then [CHR ''-''] else [])
      in if m = 0 then ''0''
         else if k \<le> - 6 \<or> 22 \<le> k
           then sign @ [hd ds] @ (if tl ds = [] then [] else CHR ''.'' # tl ds)
                @ [CHR ''e'', if k - 1 < 0 then CHR ''-'' else CHR ''+'']
                @ nat_digits (nat \<bar>k - 1\<bar>)
         else if 0 \<le> e then sign @ ds @ zeros (nat e)
         else if 0 < k then sign @ take (nat k) ds @ CHR ''.'' # drop (nat k) ds
         else sign @ ''0.'' @ zeros (nat (- k)) @ ds)"

fun json_text :: "json \<Rightarrow> string" where
  "json_text JNull = ''null''"
| "json_text (JBool b) = (if b then ''true'' else ''false'')"
| "json_text (JNum m e) = json_number m e"
| "json_text (JStr s) = json_string s"
| "json_text (JArr js) = CHR ''['' # join (map json_text js) '','' @ '']''"
| "json_text (JObj kvs) =
     CHR ''{'' # join (map (\<lambda>kv. json_string (fst kv) @ CHR '':'' # json_text (snd kv)) kvs) '',''
       @ ''}''"

section \<open>Parsing\<close>

definition json_ws :: "char \<Rightarrow> bool" where
  "json_ws c \<longleftrightarrow> c \<in> {CHR 0x20, CHR 0x09, CHR 0x0A, CHR 0x0D}"

definition skip_ws :: "string \<Rightarrow> string" where
  "skip_ws s = dropWhile json_ws s"

definition is_digit :: "char \<Rightarrow> bool" where
  "is_digit c \<longleftrightarrow> digit_val c \<noteq> None"

definition digits_val :: "string \<Rightarrow> nat" where
  "digits_val s = foldl (\<lambda>n c. n * 10 + (of_char c - 48)) 0 s"

text \<open>The three parts of a number literal, each with the rest of the input.\<close>

definition parse_int_part :: "string \<Rightarrow> (string \<times> string) option" where
  "parse_int_part s =
     (let ds = takeWhile is_digit s
      in if ds = [] \<or> (hd ds = CHR ''0'' \<and> tl ds \<noteq> []) then None
         else Some (ds, dropWhile is_digit s))"

definition parse_frac_part :: "string \<Rightarrow> (string \<times> string) option" where
  "parse_frac_part s =
     (case s of
        [] \<Rightarrow> Some ([], s)
      | c # t \<Rightarrow>
          if c = CHR ''.''
          then (if takeWhile is_digit t = [] then None
                else Some (takeWhile is_digit t, dropWhile is_digit t))
          else Some ([], s))"

definition parse_exp_part :: "string \<Rightarrow> (int \<times> string) option" where
  "parse_exp_part s =
     (case s of
        [] \<Rightarrow> Some (0, s)
      | c # t \<Rightarrow>
          if c = CHR ''e'' \<or> c = CHR ''E''
          then (let neg = (t \<noteq> [] \<and> hd t = CHR ''-'');
                    u = (if t \<noteq> [] \<and> (hd t = CHR ''-'' \<or> hd t = CHR ''+'') then tl t else t);
                    ds = takeWhile is_digit u
                in if ds = [] then None
                   else Some (if neg then - int (digits_val ds) else int (digits_val ds),
                              dropWhile is_digit u))
          else Some (0, s))"

definition parse_number :: "string \<Rightarrow> (json \<times> string) option" where
  "parse_number s =
     (let neg = (s \<noteq> [] \<and> hd s = CHR ''-'');
          t = (if neg then tl s else s)
      in case parse_int_part t of
           None \<Rightarrow> None
         | Some (ds, t1) \<Rightarrow>
             (case parse_frac_part t1 of
                None \<Rightarrow> None
              | Some (fs, t2) \<Rightarrow>
                  (case parse_exp_part t2 of
                     None \<Rightarrow> None
                   | Some (x, t3) \<Rightarrow>
                       (let m = int (digits_val (ds @ fs))
                        in Some (JNum (if neg then - m else m) (x - int (length fs)), t3)))))"

definition hex_val :: "char \<Rightarrow> nat option" where
  "hex_val c =
     (let n = of_char c in
      if 48 \<le> n \<and> n \<le> 57 then Some (n - 48)
      else if 97 \<le> n \<and> n \<le> 102 then Some (n - 87)
      else if 65 \<le> n \<and> n \<le> 70 then Some (n - 55)
      else None)"

text \<open>\<open>getu4\<close>: the code unit of \<open>\uXXXX\<close> at the start of the input.\<close>

fun getu4 :: "string \<Rightarrow> nat option" where
  "getu4 (a # u # h1 # h2 # h3 # h4 # _) =
     (if a = bsl \<and> u = CHR ''u'' then
        (case (hex_val h1, hex_val h2, hex_val h3, hex_val h4) of
           (Some d1, Some d2, Some d3, Some d4) \<Rightarrow>
             Some (d1 * 4096 + d2 * 256 + d3 * 16 + d4)
         | _ \<Rightarrow> None)
      else None)"
| "getu4 _ = None"

definition simple_escape :: "char \<Rightarrow> string option" where
  "simple_escape c =
     (if c \<in> {qt, bsl, CHR ''/''} then Some [c]
      else if c = CHR ''b'' then Some [CHR 0x08]
      else if c = CHR ''f'' then Some [CHR 0x0C]
      else if c = CHR ''n'' then Some [CHR 0x0A]
      else if c = CHR ''r'' then Some [CHR 0x0D]
      else if c = CHR ''t'' then Some [CHR 0x09]
      else None)"

text \<open>
  The body of a string literal after the opening quote: the bytes it denotes and the input
  after the closing quote. An unpaired surrogate gives the replacement character.
\<close>

function parse_chars :: "string \<Rightarrow> (string \<times> string) option" where
  "parse_chars [] = None"
| "parse_chars (c # s) =
     (if c = qt then Some ([], s)
      else if c = bsl then
        (case getu4 (c # s) of
           Some r \<Rightarrow>
             (if 0xD800 \<le> r \<and> r < 0xE000 then
                (case getu4 (drop 5 s) of
                   Some r1 \<Rightarrow>
                     if r < 0xDC00 \<and> 0xDC00 \<le> r1 \<and> r1 < 0xE000
                     then map_option
                            (apfst ((@) (encode_rune ((r - 0xD800) * 1024 + (r1 - 0xDC00) + 0x10000))))
                            (parse_chars (drop 11 s))
                     else map_option (apfst ((@) (encode_rune runeError))) (parse_chars (drop 5 s))
                 | None \<Rightarrow> map_option (apfst ((@) (encode_rune runeError))) (parse_chars (drop 5 s)))
              else map_option (apfst ((@) (encode_rune r))) (parse_chars (drop 5 s)))
         | None \<Rightarrow>
             (case s of
                [] \<Rightarrow> None
              | d # t \<Rightarrow>
                  (case simple_escape d of
                     None \<Rightarrow> None
                   | Some u \<Rightarrow> map_option (apfst ((@) u)) (parse_chars t))))
      else if of_char c < (0x20 :: nat) then None
      else map_option (apfst ((#) c)) (parse_chars s))"
  by pat_completeness auto
termination
  by (relation "measure length") auto

text \<open>Invalid UTF-8 in a literal is replaced, byte by byte, by U+FFFD (\<open>coerce\<close>).\<close>

definition parse_string :: "string \<Rightarrow> (string \<times> string) option" where
  "parse_string s =
     (case s of
        [] \<Rightarrow> None
      | c # t \<Rightarrow> if c = qt then map_option (apfst coerce) (parse_chars t) else None)"

text \<open>Values, with fuel: every call consumes a byte, so the length of the input is enough.\<close>

fun parse_value :: "nat \<Rightarrow> string \<Rightarrow> (json \<times> string) option"
  and parse_elems :: "nat \<Rightarrow> string \<Rightarrow> (json list \<times> string) option"
  and parse_members :: "nat \<Rightarrow> string \<Rightarrow> ((string \<times> json) list \<times> string) option" where
  "parse_value 0 s = None"
| "parse_value (Suc n) s =
     (let t = skip_ws s in
      if has_prefix t ''null'' then Some (JNull, drop 4 t)
      else if has_prefix t ''true'' then Some (JBool True, drop 4 t)
      else if has_prefix t ''false'' then Some (JBool False, drop 5 t)
      else if has_prefix t [qt] then map_option (apfst JStr) (parse_string t)
      else if has_prefix t ''['' then
        (let u = skip_ws (tl t) in
         if has_prefix u '']'' then Some (JArr [], tl u)
         else map_option (apfst JArr) (parse_elems n (tl t)))
      else if has_prefix t ''{'' then
        (let u = skip_ws (tl t) in
         if has_prefix u ''}'' then Some (JObj [], tl u)
         else map_option (apfst JObj) (parse_members n (tl t)))
      else parse_number t)"
| "parse_elems 0 s = None"
| "parse_elems (Suc n) s =
     (case parse_value n s of
        None \<Rightarrow> None
      | Some (j, t) \<Rightarrow>
          (let u = skip_ws t in
           if has_prefix u '','' then map_option (apfst ((#) j)) (parse_elems n (tl u))
           else if has_prefix u '']'' then Some ([j], tl u)
           else None))"
| "parse_members 0 s = None"
| "parse_members (Suc n) s =
     (case parse_string (skip_ws s) of
        None \<Rightarrow> None
      | Some (k, t) \<Rightarrow>
          (let u = skip_ws t in
           if \<not> has_prefix u '':'' then None
           else (case parse_value n (tl u) of
                   None \<Rightarrow> None
                 | Some (j, v) \<Rightarrow>
                     (let w = skip_ws v in
                      if has_prefix w '','' then map_option (apfst ((#) (k, j))) (parse_members n (tl w))
                      else if has_prefix w ''}'' then Some ([(k, j)], tl w)
                      else None))))"

text \<open>\<open>json.Unmarshal\<close> takes the whole input, a \<open>json.Decoder\<close> its first value.\<close>

definition json_parse :: "string \<Rightarrow> json option" where
  "json_parse s =
     (case parse_value (2 * length s + 2) s of
        Some (j, t) \<Rightarrow> if skip_ws t = [] then Some j else None
      | None \<Rightarrow> None)"

definition json_decode_first :: "string \<Rightarrow> json option" where
  "json_decode_first s = map_option fst (parse_value (2 * length s + 2) s)"

end
