(* ===== verification/Bot_Model.thy ===== *)
theory Bot_Model
  imports Go_Json
begin

text \<open>
  The data of the program: the structs of \<open>pkg/pipeline/model/pipeline.go\<close> and
  \<open>pkg/ai/model/a2a.go\<close>, the sentinel errors of \<open>internal/errors/errors.go\<close>, and the
  values \<open>encoding/json\<close> reads and writes. Field names carry a prefix per struct, because
  the structs share names.
\<close>

section \<open>Untyped Go values\<close>

text \<open>
  \<open>map[string]any\<close> as an association list, with \<open>None\<close> for the nil map. Of two entries
  with one key the later one counts, as when the map is filled from an object.
\<close>

type_synonym metadata = "(string \<times> json) list option"

definition meta_get :: "metadata \<Rightarrow> string \<Rightarrow> json option" where
  "meta_get m k = (case m of None \<Rightarrow> None | Some kvs \<Rightarrow> map_of (rev kvs) k)"

section \<open>Errors\<close>

text \<open>
  The sentinels of \<open>internal/errors/errors.go\<close>, errors made by \<open>errors.New\<close> or a
  \<open>fmt.Errorf\<close> without \<open>%w\<close>, the wrapping \<open>fmt.Errorf("...: %w", err)\<close>, and the typed
  \<open>httpStatusError\<close> of the AI adapter.
\<close>

datatype go_error =
    ErrPipelineCancelled
  | ErrAITimeout
  | ErrDispatchInterrupted
  | ErrLockFailed
  | Errorf string
  | HttpStatusError int
  | Wrap string go_error

text \<open>\<open>errors.Is\<close> for the sentinels.\<close>

fun error_Is :: "go_error \<Rightarrow> go_error \<Rightarrow> bool" where
  "error_Is (Wrap m e) t = (Wrap m e = t \<or> error_Is e t)"
| "error_Is e t = (e = t)"

fun error_text :: "go_error \<Rightarrow> string" where
  "error_text ErrPipelineCancelled = ''bot_runtime: pipeline cancelled''"
| "error_text ErrAITimeout = ''bot_runtime: ai call timeout''"
| "error_text ErrDispatchInterrupted = ''bot_runtime: dispatch interrupted''"
| "error_text ErrLockFailed = ''bot_runtime: distributed lock failed''"
| "error_text (Errorf s) = s"
| "error_text (HttpStatusError n) = ''unexpected status '' @ itoa n"
| "error_text (Wrap s e) = s @ '': '' @ error_text e"

section \<open>pkg/pipeline/model/pipeline.go\<close>

text \<open>\<open>Stage\<close> is a string type in Go: a stored state can hold any string.\<close>

type_synonym Stage = string

abbreviation StageIncoming :: Stage where "StageIncoming \<equiv> ''incoming''"
abbreviation StageDebounce :: Stage where "StageDebounce \<equiv> ''debounce''"
abbreviation StageAI :: Stage where "StageAI \<equiv> ''ai''"
abbreviation StageDispatch :: Stage where "StageDispatch \<equiv> ''dispatch''"
abbreviation StageDone :: Stage where "StageDone \<equiv> ''done''"

record PairID =
  p_ContactID :: int64
  p_ConversationID :: int64

record BotConfig =
  DebounceTime :: int64
  MessageSignature :: string
  TextSegmentationEnabled :: bool
  TextSegmentationLimit :: int64
  TextSegmentationMinSize :: int64
  DelayPerCharacter :: float64

text \<open>The zero value of the struct.\<close>

definition zeroConfig :: BotConfig where
  "zeroConfig = \<lparr> DebounceTime = 0, MessageSignature = [], TextSegmentationEnabled = False,
     TextSegmentationLimit = 0, TextSegmentationMinSize = 0, DelayPerCharacter = (0, 0) \<rparr>"

record Attachment =
  at_URL :: string
  at_ContentType :: string
  at_FileType :: string

record PipelineState =
  st_Stage :: Stage
  st_CreatedAt :: string
  st_BotConfig :: BotConfig
  st_PostbackURL :: string
  st_AgentBotID :: string
  st_ApiKey :: string
  st_OutgoingURL :: string
  st_Metadata :: metadata

record MessageEvent =
  ev_AgentBotID :: string
  ev_ConversationID :: int64
  ev_ContactID :: int64
  ev_MessageID :: string
  ev_MessageContent :: string
  ev_Attachments :: "Attachment list"
  ev_ApiKey :: string
  ev_OutgoingURL :: string
  ev_BotConfig :: BotConfig
  ev_PostbackURL :: string
  ev_Metadata :: metadata

text \<open>A \<open>PipelineState\<close> literal that names only the stage and the time.\<close>

definition stageState :: "Stage \<Rightarrow> string \<Rightarrow> PipelineState" where
  "stageState stage now = \<lparr> st_Stage = stage, st_CreatedAt = now, st_BotConfig = zeroConfig,
     st_PostbackURL = [], st_AgentBotID = [], st_ApiKey = [], st_OutgoingURL = [],
     st_Metadata = None \<rparr>"

text \<open>\<open>Validate\<close> returns the first violated constraint.\<close>

definition Validate :: "MessageEvent \<Rightarrow> go_error option" where
  "Validate e =
     (if sint (ev_ContactID e) \<le> 0 then Some (Errorf ''contact_id must be > 0'')
      else if sint (ev_ConversationID e) \<le> 0 then Some (Errorf ''conversation_id must be > 0'')
      else if ev_PostbackURL e = [] then Some (Errorf ''postback_url is required'')
      else if sint (DebounceTime (ev_BotConfig e)) < 0
        then Some (Errorf ''debounce_time must be >= 0'')
      else if TextSegmentationEnabled (ev_BotConfig e)
              \<and> sint (TextSegmentationLimit (ev_BotConfig e)) \<le> 0
        then Some (Errorf ''text_segmentation_limit must be > 0 when segmentation is enabled'')
      else if float_val (DelayPerCharacter (ev_BotConfig e)) < 0
        then Some (Errorf ''delay_per_character must be >= 0'')
      else None)"

section \<open>pkg/ai/model/a2a.go\<close>

record AiAttachment =
  ai_URL :: string
  ai_ContentType :: string
  ai_FileType :: string

record A2ARequest =
  rq_OutgoingURL :: string
  rq_ContactID :: int64
  rq_ConversationID :: int64
  rq_ApiKey :: string
  rq_Message :: string
  rq_Metadata :: metadata
  rq_Attachments :: "AiAttachment list"

record JSONRPCFile =
  file_Name :: string
  file_MimeType :: string
  file_Bytes :: string

record JSONRPCPart =
  part_Type :: string
  part_Text :: string
  part_File :: "JSONRPCFile option"

record JSONRPCMessage =
  msg_Role :: string
  msg_Parts :: "JSONRPCPart list"

record JSONRPCParams =
  par_ContextID :: string
  par_UserID :: string
  par_Message :: JSONRPCMessage
  par_Metadata :: metadata

record JSONRPCRequest =
  rpc_JSONRPC :: string
  rpc_ID :: string
  rpc_Method :: string
  rpc_Params :: JSONRPCParams

record A2APart =
  apart_Type :: string
  apart_Text :: string

record A2AArtifact =
  art_Parts :: "A2APart list"

record A2AMessage =
  amsg_Parts :: "A2APart list"

record A2AResult =
  res_Artifacts :: "A2AArtifact list"
  res_Message :: "A2AMessage option"

record A2AResponse =
  resp_Result :: "A2AResult option"

record NormalizedResponse =
  nr_Content :: string

end
