(* ===== verification/Segmentation.thy ===== *)
theory Segmentation
  imports Bot_Model
begin

text \<open>
  \<open>segmentContent\<close> of \<open>pkg/dispatch/service/dispatch_engine.go\<close>: the greedy split of a
  reply into parts of at most \<open>TextSegmentationLimit\<close> runes at word boundaries, and the
  pass that merges a short part into its predecessor when the result still fits. Rune
  counts are lengths of strings, far below \<open>2 ^ 63\<close>, so Go's \<open>int\<close> additions are those
  of \<open>int\<close> here.
\<close>

section \<open>The code\<close>

text \<open>The first loop: \<open>rawParts\<close>, the builder \<open>current\<close> and \<open>currentRunes\<close> are its state.\<close>

fun raw_loop :: "int \<Rightarrow> string list \<Rightarrow> string list \<Rightarrow> string \<Rightarrow> int \<Rightarrow> string list" where
  "raw_loop limit [] rawParts current currentRunes =
     (if currentRunes > 0 then rawParts @ [current] else rawParts)"
| "raw_loop limit (word # words) rawParts current currentRunes =
     (let wordRunes = int (rune_count word)
      in if currentRunes = 0 then raw_loop limit words rawParts (current @ word) wordRunes
         else if currentRunes + 1 + wordRunes \<le> limit
           then raw_loop limit words rawParts (current @ [spc] @ word)
                  (currentRunes + 1 + wordRunes)
         else raw_loop limit words (rawParts @ [current]) word wordRunes)"

text \<open>The second loop: \<open>merged\<close> and \<open>lastPartRunes\<close> are its state.\<close>

fun merge_loop :: "int \<Rightarrow> int \<Rightarrow> string list \<Rightarrow> string list \<Rightarrow> int \<Rightarrow> string list" where
  "merge_loop limit minSize [] merged lastPartRunes = merged"
| "merge_loop limit minSize (p # ps) merged lastPartRunes =
     (let pRunes = int (rune_count p)
      in if merged \<noteq> [] \<and> pRunes < minSize \<and> lastPartRunes + 1 + pRunes \<le> limit
         then merge_loop limit minSize ps (butlast merged @ [last merged @ [spc] @ p])
                (lastPartRunes + 1 + pRunes)
         else merge_loop limit minSize ps (merged @ [p]) pRunes)"

definition segmentContent :: "string \<Rightarrow> BotConfig \<Rightarrow> string list" where
  "segmentContent content cfg =
     (if \<not> TextSegmentationEnabled cfg \<or> sint (TextSegmentationLimit cfg) \<le> 0 then [content]
      else
        let limit = sint (TextSegmentationLimit cfg);
            words = Fields content
        in if words = [] then [content]
           else
             let rawParts = raw_loop limit words [] [] 0
             in if sint (TextSegmentationMinSize cfg) \<le> 0 \<or> length rawParts \<le> 1 then rawParts
                else merge_loop limit (sint (TextSegmentationMinSize cfg)) rawParts [] 0)"

section \<open>Specification\<close>

text \<open>A part fits when it is within the limit or is a single word that is too long by itself.\<close>

definition part_fits :: "int \<Rightarrow> string \<Rightarrow> bool" where
  "part_fits limit p \<longleftrightarrow> int (rune_count p) \<le> limit \<or> Fields p = [p]"

text \<open>
  A partition of the words into non-empty groups, each printed with single spaces: the
  abstract result of a segmentation. \<open>greedy\<close> says that no group could have taken the
  first word of the next one.
\<close>

definition layout :: "string list list \<Rightarrow> string list" where
  "layout gs = map (\<lambda>g. join g [spc]) gs"

fun greedy :: "int \<Rightarrow> string list list \<Rightarrow> bool" where
  "greedy limit (g # h # gs) \<longleftrightarrow>
     limit < int (rune_count (join g [spc])) + 1 + int (rune_count (hd h))
     \<and> greedy limit (h # gs)"
| "greedy limit gs \<longleftrightarrow> True"

section \<open>Words, runes and joins\<close>

lemma fields_join: "\<forall>w \<in> set ws. Fields w = [w] \<Longrightarrow> Fields (join ws [spc]) = ws"
  by (induction ws "[spc]" rule: join.induct) (auto simp: fields_append_space)

lemma greedy_snoc:
  assumes "greedy limit (gs @ [g])" "g \<noteq> []"
  shows "greedy limit (gs @ [g @ ws])"
  using assms
proof (induction gs)
  case Nil
  then show ?case by simp
next
  case (Cons h gs)
  then show ?case by (cases gs) auto
qed

lemma greedy_extend:
  assumes "greedy limit (gs @ [g])"
    and "limit < int (rune_count (join g [spc])) + 1 + int (rune_count (hd h))"
  shows "greedy limit (gs @ [g, h])"
  using assms
proof (induction gs)
  case Nil
  then show ?case by simp
next
  case (Cons k gs)
  then show ?case by (cases gs) auto
qed

section \<open>The first loop\<close>

text \<open>
  The invariant: the parts and the builder are the layout of groups whose words are the
  words read so far, every group fits and the layout is greedy.
\<close>

definition fits_group :: "int \<Rightarrow> string list \<Rightarrow> bool" where
  "fits_group limit g \<longleftrightarrow> g \<noteq> [] \<and> (int (rune_count (join g [spc])) \<le> limit \<or> length g = 1)"

lemma raw_loop_layout:
  assumes "\<forall>w \<in> set words. w \<noteq> []"
    and "g \<noteq> []" "current = join g [spc]" "currentRunes = int (rune_count current)"
    and "current \<noteq> []" "rawParts = layout gs"
    and "\<forall>h \<in> set (gs @ [g]). fits_group limit h" "greedy limit (gs @ [g])"
  shows "\<exists>hs. raw_loop limit words rawParts current currentRunes = layout hs
           \<and> concat hs = concat gs @ g @ words \<and> hs \<noteq> []
           \<and> (\<forall>h \<in> set hs. fits_group limit h) \<and> greedy limit hs"
  using assms
proof (induction limit words rawParts current currentRunes arbitrary: g gs rule: raw_loop.induct)
  case (1 limit rawParts current currentRunes)
  then have "currentRunes > 0" by (simp add: rune_count_pos)
  with 1 show ?case by (intro exI [of _ "gs @ [g]"]) (auto simp: layout_def)
next
  case (2 limit word words rawParts current currentRunes)
  let ?k = "int (rune_count word)"
  have nz: "currentRunes \<noteq> 0" using "2.prems" by simp
  have word: "word \<noteq> []" and words: "\<forall>w \<in> set words. w \<noteq> []" using "2.prems"(1) by auto
  show ?case
  proof (cases "currentRunes + 1 + ?k \<le> limit")
    case True
    have len: "rune_count (current @ [spc] @ word) = rune_count current + 1 + rune_count word"
      by (simp add: rune_count_append_space)
    have cur: "current @ [spc] @ word = join (g @ [word]) [spc]"
      using "2.prems" by (simp add: join_snoc)
    have "\<exists>hs. raw_loop limit words rawParts (current @ [spc] @ word) (currentRunes + 1 + ?k)
                 = layout hs
           \<and> concat hs = concat gs @ (g @ [word]) @ words \<and> hs \<noteq> []
           \<and> (\<forall>h \<in> set hs. fits_group limit h) \<and> greedy limit hs"
    proof (rule "2.IH"(2) [OF refl nz True words])
      show "\<forall>h \<in> set (gs @ [g @ [word]]). fits_group limit h"
        using "2.prems" True len cur by (auto simp: fits_group_def)
      show "greedy limit (gs @ [g @ [word]])"
        using "2.prems" by (intro greedy_snoc)
      show "current @ [spc] @ word \<noteq> []" by simp
    qed (use "2.prems" cur len in simp_all)
    with nz True show ?thesis by simp
  next
    case False
    have "\<exists>hs. raw_loop limit words (rawParts @ [current]) word ?k = layout hs
           \<and> concat hs = concat (gs @ [g]) @ [word] @ words \<and> hs \<noteq> []
           \<and> (\<forall>h \<in> set hs. fits_group limit h) \<and> greedy limit hs"
    proof (rule "2.IH"(3) [OF refl nz False words])
      show "\<forall>h \<in> set ((gs @ [g]) @ [[word]]). fits_group limit h"
        using "2.prems" by (auto simp: fits_group_def)
      show "greedy limit ((gs @ [g]) @ [[word]])"
        using greedy_extend [of limit gs g "[word]"] "2.prems" False by simp
    qed (use "2.prems" word in \<open>simp_all add: layout_def\<close>)
    with nz False show ?thesis by simp
  qed
qed

lemma raw_loop_spec:
  assumes "words \<noteq> []" "\<forall>w \<in> set words. w \<noteq> []"
  shows "\<exists>hs. raw_loop limit words [] [] 0 = layout hs \<and> concat hs = words \<and> hs \<noteq> []
           \<and> (\<forall>h \<in> set hs. fits_group limit h) \<and> greedy limit hs"
proof -
  obtain w ws where ws: "words = w # ws" using assms(1) by (cases words) auto
  have "\<exists>hs. raw_loop limit ws [] w (int (rune_count w)) = layout hs
          \<and> concat hs = concat [] @ [w] @ ws \<and> hs \<noteq> []
          \<and> (\<forall>h \<in> set hs. fits_group limit h) \<and> greedy limit hs"
    by (rule raw_loop_layout)
      (use assms ws in \<open>auto simp: layout_def fits_group_def\<close>)
  with ws show ?thesis by simp
qed

section \<open>The second loop\<close>

text \<open>
  Merging keeps the words and their order; afterwards every part but the first is long
  enough or does not fit into its predecessor.
\<close>

fun settled :: "int \<Rightarrow> int \<Rightarrow> string list \<Rightarrow> bool" where
  "settled limit minSize (p # q # ps) \<longleftrightarrow>
     (minSize \<le> int (rune_count q)
      \<or> limit < int (rune_count p) + 1 + int (rune_count q))
     \<and> settled limit minSize (q # ps)"
| "settled limit minSize ps \<longleftrightarrow> True"

lemma settled_snoc:
  assumes "settled limit minSize ps"
    and "ps \<noteq> [] \<Longrightarrow> minSize \<le> int (rune_count q)
           \<or> limit < int (rune_count (last ps)) + 1 + int (rune_count q)"
  shows "settled limit minSize (ps @ [q])"
  using assms by (induction limit minSize ps rule: settled.induct) auto

lemma settled_grow:
  "settled limit minSize (ps @ [q]) \<Longrightarrow> rune_count q \<le> rune_count q'
   \<Longrightarrow> settled limit minSize (ps @ [q'])"
proof (induction ps)
  case (Cons p ps)
  then show ?case by (cases ps) auto
qed simp

lemma layout_snoc [simp]: "layout (gs @ [g]) = layout gs @ [join g [spc]]"
  by (simp add: layout_def)

lemma layout_Nil_iff [simp]: "layout gs = [] \<longleftrightarrow> gs = []"
  by (simp add: layout_def)

lemma merge_loop_layout:
  assumes "ps = layout gs" "merged = layout ms"
    and "\<forall>h \<in> set (ms @ gs). fits_group limit h"
    and "settled limit minSize merged"
    and "merged \<noteq> [] \<Longrightarrow> lastPartRunes = int (rune_count (last merged))"
  shows "\<exists>hs. merge_loop limit minSize ps merged lastPartRunes = layout hs
           \<and> concat hs = concat ms @ concat gs
           \<and> (\<forall>h \<in> set hs. fits_group limit h) \<and> settled limit minSize (layout hs)"
  using assms
proof (induction limit minSize ps merged lastPartRunes arbitrary: gs ms rule: merge_loop.induct)
  case (1 limit minSize merged lastPartRunes)
  from "1.prems"(1) have "gs = []" by (simp add: layout_def)
  with "1.prems"(2-4) show ?case by (intro exI [of _ ms]) simp
next
  case (2 limit minSize p ps merged lastPartRunes)
  let ?k = "int (rune_count p)"
  from "2.prems"(1) obtain g gs' where gs: "gs = g # gs'" "p = join g [spc]" "ps = layout gs'"
    by (cases gs) (auto simp: layout_def)
  from "2.prems"(3) gs have g: "g \<noteq> []" "fits_group limit g" by (auto simp: fits_group_def)
  show ?case
  proof (cases "merged \<noteq> [] \<and> ?k < minSize \<and> lastPartRunes + 1 + ?k \<le> limit")
    case True
    obtain ms' m where ms: "ms = ms' @ [m]"
      using True "2.prems"(2) by (cases ms rule: rev_cases) (auto simp: layout_def)
    have m: "m \<noteq> []" "last merged = join m [spc]" "butlast merged = layout ms'"
      using "2.prems" ms by (auto simp: fits_group_def)
    have mg: "join (m @ g) [spc] = last merged @ [spc] @ p"
      using m g gs by (simp add: join_append)
    have len: "rune_count (join (m @ g) [spc]) = rune_count (last merged) + 1 + rune_count p"
      by (simp add: mg rune_count_append_space)
    have IH: "\<exists>hs. merge_loop limit minSize ps (butlast merged @ [last merged @ [spc] @ p])
                (lastPartRunes + 1 + ?k) = layout hs
           \<and> concat hs = concat (ms' @ [m @ g]) @ concat gs'
           \<and> (\<forall>h \<in> set hs. fits_group limit h) \<and> settled limit minSize (layout hs)"
    proof (rule "2.IH"(1) [OF refl True gs(3)])
      show "butlast merged @ [last merged @ [spc] @ p] = layout (ms' @ [m @ g])"
        using m mg by simp
      show "\<forall>h \<in> set ((ms' @ [m @ g]) @ gs'). fits_group limit h"
        using "2.prems"(3,5) True gs ms m len by (auto simp: fits_group_def)
      show "settled limit minSize (butlast merged @ [last merged @ [spc] @ p])"
        by (rule settled_grow [of _ _ _ "last merged"])
          (use "2.prems"(4) True in \<open>auto simp: rune_count_append_space\<close>)
      show "lastPartRunes + 1 + ?k
          = int (rune_count (last (butlast merged @ [last merged @ [spc] @ p])))"
        using "2.prems"(5) True by (simp add: rune_count_append_space)
    qed
    with True ms gs show ?thesis by simp
  next
    case False
    have IH: "\<exists>hs. merge_loop limit minSize ps (merged @ [p]) ?k = layout hs
           \<and> concat hs = concat (ms @ [g]) @ concat gs'
           \<and> (\<forall>h \<in> set hs. fits_group limit h) \<and> settled limit minSize (layout hs)"
    proof (rule "2.IH"(2) [OF refl False gs(3)])
      show "settled limit minSize (merged @ [p])"
        using "2.prems"(4,5) False by (intro settled_snoc) auto
    qed (use "2.prems" gs in auto)
    have "merge_loop limit minSize (p # ps) merged lastPartRunes
        = merge_loop limit minSize ps (merged @ [p]) ?k"
      by (subst merge_loop.simps) (simp only: Let_def False if_False)
    with IH gs show ?thesis by simp
  qed
qed

section \<open>The whole function\<close>

text \<open>What every segmentation with the feature on and at least one word returns.\<close>

lemma segmentContent_layout:
  assumes "TextSegmentationEnabled cfg" "0 < sint (TextSegmentationLimit cfg)"
    and "Fields content \<noteq> []"
  obtains hs where "segmentContent content cfg = layout hs" "concat hs = Fields content"
    "\<forall>h \<in> set hs. fits_group (sint (TextSegmentationLimit cfg)) h"
    "settled (sint (TextSegmentationLimit cfg)) (sint (TextSegmentationMinSize cfg)) (layout hs)"
proof -
  let ?l = "sint (TextSegmentationLimit cfg)" and ?m = "sint (TextSegmentationMinSize cfg)"
  have "\<forall>w \<in> set (Fields content). w \<noteq> []" by (auto dest: fields_nonempty)
  from raw_loop_spec [OF assms(3) this, of ?l] obtain hs where
    hs: "raw_loop ?l (Fields content) [] [] 0 = layout hs" "concat hs = Fields content"
      "\<forall>h \<in> set hs. fits_group ?l h" by auto
  show thesis
  proof (cases "?m \<le> 0 \<or> length (layout hs) \<le> 1")
    case True
    then have "settled ?l ?m (layout hs)"
    proof
      assume "?m \<le> 0"
      then have "settled ?l ?m ps" for ps
        by (induction ?l ?m ps rule: settled.induct) auto
      then show ?thesis .
    next
      assume "length (layout hs) \<le> 1"
      then obtain p where "layout hs = [] \<or> layout hs = [p]"
        by (cases "layout hs") auto
      then show ?thesis by (elim disjE) (simp_all only: settled.simps)
    qed
    with True hs assms show thesis
      by (intro that [of hs]) (auto simp: segmentContent_def Let_def layout_def)
  next
    case False
    have "\<exists>ks. merge_loop ?l ?m (layout hs) [] 0 = layout ks \<and> concat ks = concat [] @ concat hs
        \<and> (\<forall>h \<in> set ks. fits_group ?l h) \<and> settled ?l ?m (layout ks)"
      by (rule merge_loop_layout) (use hs in \<open>auto simp: layout_def\<close>)
    then obtain ks where "merge_loop ?l ?m (layout hs) [] 0 = layout ks"
      "concat ks = Fields content" "\<forall>h \<in> set ks. fits_group ?l h"
      "settled ?l ?m (layout ks)" using hs by auto
    with False hs assms show thesis
      by (intro that [of ks]) (auto simp: segmentContent_def Let_def)
  qed
qed

lemma segmentContent_off:
  "\<not> TextSegmentationEnabled cfg \<or> sint (TextSegmentationLimit cfg) \<le> 0
   \<Longrightarrow> segmentContent content cfg = [content]"
  by (simp add: segmentContent_def)

lemma segmentContent_blank: "Fields content = [] \<Longrightarrow> segmentContent content cfg = [content]"
  by (simp add: segmentContent_def)

lemma segmentContent_not_Nil: "segmentContent content cfg \<noteq> []"
proof (cases "\<not> TextSegmentationEnabled cfg \<or> sint (TextSegmentationLimit cfg) \<le> 0
    \<or> Fields content = []")
  case True
  then show ?thesis by (auto simp: segmentContent_off segmentContent_blank)
next
  case False
  then obtain hs where "segmentContent content cfg = layout hs" "concat hs = Fields content"
    by (auto elim: segmentContent_layout [of cfg content])
  with False show ?thesis by auto
qed

lemma layout_words:
  assumes "concat hs = Fields content" "h \<in> set hs"
  shows "Fields (join h [spc]) = h"
proof (rule fields_join, rule ballI)
  fix w
  assume "w \<in> set h"
  then have "w \<in> set (Fields content)" using assms by (metis UN_I set_concat)
  then show "Fields w = [w]" by (rule fields_of_field)
qed

lemma concat_map_layout:
  assumes "concat hs = Fields content"
  shows "concat (map Fields (layout hs)) = Fields content"
proof -
  have "map Fields (layout hs) = hs"
    using layout_words [OF assms] by (auto simp: layout_def intro!: map_idI)
  with assms show ?thesis by simp
qed

lemma segmentContent_words: "concat (map Fields (segmentContent content cfg)) = Fields content"
proof (cases "\<not> TextSegmentationEnabled cfg \<or> sint (TextSegmentationLimit cfg) \<le> 0
    \<or> Fields content = []")
  case True
  then show ?thesis by (auto simp: segmentContent_off segmentContent_blank)
next
  case False
  then show ?thesis
    by (auto elim: segmentContent_layout [of cfg content] simp: concat_map_layout)
qed

section \<open>Properties\<close>

text \<open>
  C24 (seg_preserves_words). Segmentation loses, adds and reorders no word: whatever the
  configuration, the words of the parts, read in order, are the words of the content.
\<close>

theorem seg_preserves_words:
  "concat (map Fields (segmentContent content cfg)) = Fields content"
  by (rule segmentContent_words)

text \<open>
  C25 (seg_parts_bounded). With segmentation on, every part is within the limit, counted in
  runes, except a part that is one single word of the content longer than the limit; no part
  is empty.
\<close>

theorem seg_parts_bounded:
  assumes "TextSegmentationEnabled cfg" "0 < sint (TextSegmentationLimit cfg)"
    and "Fields content \<noteq> []" "p \<in> set (segmentContent content cfg)"
  shows "p \<noteq> [] \<and> (int (rune_count p) \<le> sint (TextSegmentationLimit cfg)
           \<or> p \<in> set (Fields content))"
proof -
  obtain hs where hs: "segmentContent content cfg = layout hs" "concat hs = Fields content"
    "\<forall>h \<in> set hs. fits_group (sint (TextSegmentationLimit cfg)) h"
    using segmentContent_layout [OF assms(1-3)] .
  then obtain h where h: "h \<in> set hs" "p = join h [spc]"
    using assms(4) by (auto simp: layout_def)
  have "Fields p = h" using layout_words [OF hs(2) h(1)] h(2) by simp
  moreover have "fits_group (sint (TextSegmentationLimit cfg)) h" using hs h by blast
  moreover from this have "length h = 1 \<Longrightarrow> p \<in> set (concat hs)"
    using h by (cases h) force+
  ultimately show ?thesis using h hs(2) by (auto simp: fits_group_def)
qed

definition seg_demo_cfg :: BotConfig where
  "seg_demo_cfg = \<lparr> DebounceTime = 0, MessageSignature = [], TextSegmentationEnabled = True,
     TextSegmentationLimit = 5, TextSegmentationMinSize = 2, DelayPerCharacter = (0, 0) \<rparr>"

lemmas seg_eval = segmentContent_def Fields_def runes.simps decode_rune_def is_space_def
  rune_count_def seg_demo_cfg_def

lemma seg_demo_eval:
  "segmentContent ''ab cd efghijk l m'' seg_demo_cfg = [''ab cd'', ''efghijk'', ''l m'']"
  by (simp add: seg_eval)

theorem seg_parts_bounded_witness:
  "''efghijk'' \<in> set (segmentContent ''ab cd efghijk l m'' seg_demo_cfg)
   \<and> (int (rune_count ''efghijk'') \<le> sint (TextSegmentationLimit seg_demo_cfg)
        \<or> ''efghijk'' \<in> set (Fields ''ab cd efghijk l m''))"
proof -
  have "TextSegmentationEnabled seg_demo_cfg" "0 < sint (TextSegmentationLimit seg_demo_cfg)"
    "Fields ''ab cd efghijk l m'' \<noteq> []"
    by (simp_all add: seg_eval)
  moreover have "''efghijk'' \<in> set (segmentContent ''ab cd efghijk l m'' seg_demo_cfg)"
    by (simp add: seg_demo_eval)
  ultimately show ?thesis using seg_parts_bounded by blast
qed

text \<open>
  After the merge pass no short part is left that would have fitted
  into its predecessor: of two neighbouring parts, the second has at least
  \<open>TextSegmentationMinSize\<close> runes, or joining it to the first overflows the limit.
\<close>

theorem seg_merge_settled:
  assumes "TextSegmentationEnabled cfg" "0 < sint (TextSegmentationLimit cfg)"
  shows "settled (sint (TextSegmentationLimit cfg)) (sint (TextSegmentationMinSize cfg))
           (segmentContent content cfg)"
proof (cases "Fields content = []")
  case True
  then show ?thesis by (simp add: segmentContent_blank)
next
  case False
  then obtain hs where "segmentContent content cfg = layout hs"
    "settled (sint (TextSegmentationLimit cfg)) (sint (TextSegmentationMinSize cfg)) (layout hs)"
    using segmentContent_layout [OF assms False] by blast
  then show ?thesis by simp
qed

theorem seg_merge_settled_witness:
  "settled 5 2 (segmentContent ''ab cd efghijk l m'' seg_demo_cfg)"
  using seg_merge_settled [of seg_demo_cfg "''ab cd efghijk l m''"]
  by (simp add: seg_demo_cfg_def)

text \<open>
  Without a minimum size the parts are the greedy layout of the words: they
  are consecutive groups of the words joined by single spaces, and no part could have taken
  the first word of the next one.
\<close>

theorem seg_greedy:
  assumes "TextSegmentationEnabled cfg" "0 < sint (TextSegmentationLimit cfg)"
    and "sint (TextSegmentationMinSize cfg) \<le> 0" "Fields content \<noteq> []"
  shows "\<exists>gs. segmentContent content cfg = layout gs \<and> concat gs = Fields content
           \<and> greedy (sint (TextSegmentationLimit cfg)) gs"
proof -
  have "\<forall>w \<in> set (Fields content). w \<noteq> []" by (auto dest: fields_nonempty)
  from raw_loop_spec [OF assms(4) this, of "sint (TextSegmentationLimit cfg)"] assms
  show ?thesis by (auto simp: segmentContent_def Let_def)
qed

theorem seg_greedy_witness:
  "\<exists>gs. segmentContent ''ab cd e'' (seg_demo_cfg\<lparr>TextSegmentationMinSize := 0\<rparr>) = layout gs
      \<and> concat gs = Fields ''ab cd e'' \<and> greedy 5 gs"
  using seg_greedy [of "seg_demo_cfg\<lparr>TextSegmentationMinSize := 0\<rparr>" "''ab cd e''"]
  by (simp add: seg_eval)

end
