(* ===== verification/Go_Json_Roundtrip.thy ===== *)
theory Go_Json_Roundtrip
  imports Go_Json
begin

text \<open>
  Parsing the text the printer wrote gives the value back: strings with each invalid byte
  replaced by U+FFFD, numbers as the literal was written (\<open>norm_num\<close>, which denotes the
  same number).
\<close>

section \<open>Strings\<close>

definition piece_val :: "piece \<Rightarrow> string" where
  "piece_val p = encode_rune (fst p)"

lemma hex_val_digit: "n < 16 \<Longrightarrow> hex_val (hex_digit n) = Some n"
  by (auto simp: hex_val_def hex_digit_def Let_def)

lemma hex4: "(r :: nat) < 65536 \<Longrightarrow>
    r div 4096 mod 16 * 4096 + r div 256 mod 16 * 256 + r div 16 mod 16 * 16 + r mod 16 = r"
proof -
  assume r: "r < 65536"
  have h: "(x :: nat) = x div 16 * 16 + x mod 16" for x by simp
  have d: "r div 256 = r div 16 div 16" "r div 4096 = r div 16 div 16 div 16"
    by (simp_all add: div_mult2_eq [symmetric])
  have "r div 4096 < 16" using r by (simp add: less_mult_imp_div_less)
  then have "r div 4096 mod 16 = r div 4096" by simp
  with h [of r] h [of "r div 16"] h [of "r div 16 div 16"] show ?thesis
    unfolding d by linarith
qed

lemma getu4_u_escape: "r < 65536 \<Longrightarrow> getu4 (u_escape r @ t) = Some r"
  using hex4 [of r] by (simp add: u_escape_def hex_val_digit)

lemma parse_chars_u_escape:
  assumes "r < 65536" "\<not> (0xD800 \<le> r \<and> r < 0xE000)"
  shows "parse_chars (u_escape r @ t) = map_option (apfst ((@) (encode_rune r))) (parse_chars t)"
proof -
  obtain rest where rest: "u_escape r @ t = bsl # rest" "drop 5 rest = t"
    by (simp add: u_escape_def)
  have "getu4 (bsl # rest) = Some r" using assms getu4_u_escape [of r t] rest(1) by simp
  then have "parse_chars (bsl # rest) = map_option (apfst ((@) (encode_rune r))) (parse_chars t)"
    using assms(2) unfolding parse_chars.simps rest(2) by (auto simp del: getu4.simps)
  then show ?thesis by (simp only: rest(1))
qed

definition plain_char :: "char \<Rightarrow> bool" where
  "plain_char c \<longleftrightarrow> c \<noteq> qt \<and> c \<noteq> bsl \<and> \<not> of_char c < (0x20 :: nat)"

lemma map_option_apfst_id: "map_option (apfst (\<lambda>a. a)) x = x"
  by (cases x) auto

lemma map_option_apfst_comp:
  "map_option (apfst f) (map_option (apfst g) x) = map_option (apfst (f \<circ> g)) x"
  by (cases x) auto

lemma parse_chars_plain:
  "\<forall>c \<in> set u. plain_char c \<Longrightarrow>
     parse_chars (u @ t) = map_option (apfst ((@) u)) (parse_chars t)"
proof (induction u)
  case Nil
  then show ?case by (simp add: map_option_apfst_id)
next
  case (Cons c u)
  then show ?case by (simp add: plain_char_def map_option_apfst_comp comp_def)
qed

lemma getu4_not_u: "u \<noteq> CHR ''u'' \<Longrightarrow> getu4 (a # u # t) = None"
  by (cases "a # u # t" rule: getu4.cases) auto

lemma parse_chars_simple:
  "simple_escape d = Some u \<Longrightarrow> d \<noteq> CHR ''u'' \<Longrightarrow>
     parse_chars (bsl # d # t) = map_option (apfst ((@) u)) (parse_chars t)"
  by (simp add: getu4_not_u)

lemma encode_rune_plain:
  assumes "0x20 \<le> r" "r \<noteq> 0x22" "r \<noteq> 0x5C" "c \<in> set (encode_rune r)"
  shows "plain_char c"
proof -
  have "of_char c \<in> set (encode_bytes r)"
    using assms(4) map_of_char_encode [of r] by (metis image_eqI list.set_map)
  then have "0x20 \<le> (of_char c :: nat)" "of_char c \<noteq> (0x22 :: nat)" "of_char c \<noteq> (0x5C :: nat)"
    using assms(1-3) by (auto simp: encode_bytes_def split: if_splits)
  then show ?thesis by (auto simp: plain_char_def)
qed

lemma parse_chars_escape_piece:
  assumes "p \<in> set (runes s)"
  shows "parse_chars (escape_piece p @ t)
       = map_option (apfst ((@) (piece_val p))) (parse_chars t)"
proof -
  have p: "bad_piece p \<or> snd p = encode_rune (fst p) \<and> \<not> bad_piece p" "scalar (fst p)"
    using runes_pieces [OF assms] scalar_piece [OF assms] by blast+
  show ?thesis
  proof (cases "fst p \<in> {0x22, 0x5C, 8, 12, 10, 13, 9}")
    case True
    then show ?thesis
      by (elim insertE emptyE)
        (simp_all add: escape_piece_def piece_val_def encode_rune_def encode_bytes_def
          simple_escape_def parse_chars_simple char_of_def bit_Suc_0_iff del: parse_chars.simps)
  next
    case simple: False
    show ?thesis
    proof (cases "fst p < 0x20 \<or> fst p \<in> {0x3C, 0x3E, 0x26, 0x2028, 0x2029} \<or> bad_piece p")
      case True
      with simple have e: "escape_piece p = u_escape (fst p)"
        by (auto simp: escape_piece_def bad_piece_def Let_def)
      have "fst p < 65536" "\<not> (0xD800 \<le> fst p \<and> fst p < 0xE000)"
        using True by (auto simp: bad_piece_def)
      then show ?thesis unfolding e piece_val_def by (rule parse_chars_u_escape)
    next
      case False
      with simple have "escape_piece p = snd p"
        by (auto simp: escape_piece_def bad_piece_def Let_def)
      then show ?thesis
        using p encode_rune_plain [of "fst p"] False simple
        by (auto simp: piece_val_def intro!: parse_chars_plain)
    qed
  qed
qed

lemma parse_chars_string:
  "set ps \<subseteq> set (runes s) \<Longrightarrow>
     parse_chars (concat (map escape_piece ps) @ qt # t) = Some (concat (map piece_val ps), t)"
proof (induction ps)
  case Nil
  then show ?case by simp
next
  case (Cons p ps)
  then have "p \<in> set (runes s)" by simp
  from parse_chars_escape_piece [OF this] Cons show ?case by simp
qed

lemma parse_json_string: "parse_string (json_string s @ t) = Some (coerce s, t)"
proof -
  have "parse_chars (concat (map escape_piece (runes s)) @ qt # t) = Some (coerce s, t)"
    using parse_chars_string [of "runes s" s t]
    by (simp add: coerce_def piece_val_def [abs_def])
  then show ?thesis by (simp add: parse_string_def json_string_def)
qed

section \<open>Numbers\<close>

lemma digits_val_snoc: "digits_val (s @ [c]) = digits_val s * 10 + (of_char c - 48)"
  by (simp add: digits_val_def)

lemma digits_val_nat_digits [simp]: "digits_val (nat_digits n) = n"
proof (induction n rule: nat_digits.induct)
  case (1 n)
  show ?case
  proof (cases "n < 10")
    case True
    then show ?thesis by (simp add: nat_digits.simps [of n] digits_val_def)
  next
    case False
    with 1 have "digits_val (nat_digits (n div 10)) = n div 10" by simp
    with False show ?thesis by (simp add: nat_digits.simps [of n] digits_val_snoc)
  qed
qed

lemma digits_val_zeros_right: "digits_val (s @ zeros k) = digits_val s * 10 ^ k"
proof (induction k)
  case (Suc k)
  have "s @ zeros (Suc k) = (s @ zeros k) @ [CHR ''0'']" by (simp add: replicate_append_same)
  with Suc show ?case by (simp only: digits_val_snoc) simp
qed simp

lemma digits_val_zeros_left: "digits_val (zeros k @ s) = digits_val s"
  by (induction k) (simp_all add: digits_val_def)

lemma is_digit_nat_digits: "c \<in> set (nat_digits n) \<Longrightarrow> is_digit c"
  using nat_digits_chars [of c n] by (simp add: is_digit_def digit_val_def)

lemma is_digit_0 [simp]: "is_digit (CHR ''0'')"
  by (simp add: is_digit_def digit_val_def)

lemma hd_nat_digits_0: "hd (nat_digits n) = CHR ''0'' \<longleftrightarrow> n = 0"
proof (induction n rule: nat_digits.induct)
  case (1 n)
  show ?case
  proof (cases "n < 10")
    case True
    have "char_of (48 + n) = CHR ''0'' \<Longrightarrow> n = 0"
      using digit_val_char [OF True] by (auto simp: digit_val_def)
    moreover have "n = 0 \<Longrightarrow> char_of (48 + n) = CHR ''0''" by (simp add: char_of_def bit_Suc_0_iff)
    ultimately show ?thesis using True by (auto simp: nat_digits.simps [of n])
  next
    case False
    with 1 have "hd (nat_digits (n div 10)) \<noteq> CHR ''0''" by simp
    with False show ?thesis by (simp add: nat_digits.simps [of n])
  qed
qed


text \<open>A number literal, taken apart: sign, digits, fraction digits and exponent.\<close>

definition delim :: "string \<Rightarrow> bool" where
  "delim t \<longleftrightarrow> (case t of [] \<Rightarrow> True
     | c # _ \<Rightarrow> \<not> is_digit c \<and> c \<noteq> CHR ''.'' \<and> c \<noteq> CHR ''e'' \<and> c \<noteq> CHR ''E'')"

definition frac_text :: "string \<Rightarrow> string" where
  "frac_text fs = (if fs = [] then [] else CHR ''.'' # fs)"

definition exp_text :: "int option \<Rightarrow> string" where
  "exp_text x = (case x of None \<Rightarrow> []
     | Some i \<Rightarrow> [CHR ''e'', if i < 0 then CHR ''-'' else CHR ''+''] @ nat_digits (nat \<bar>i\<bar>))"

definition sign_text :: "bool \<Rightarrow> string" where
  "sign_text neg = (if neg then [CHR ''-''] else [])"

definition all_digits :: "string \<Rightarrow> bool" where
  "all_digits s \<longleftrightarrow> (\<forall>c \<in> set s. is_digit c)"

lemma is_digit_not: "is_digit c \<Longrightarrow>
    c \<noteq> CHR ''-'' \<and> c \<noteq> CHR ''+'' \<and> c \<noteq> CHR ''.'' \<and> c \<noteq> CHR ''e'' \<and> c \<noteq> CHR ''E''"
  by (auto simp: is_digit_def digit_val_def)

lemma takeWhile_digits:
  assumes "all_digits s" "t = [] \<or> \<not> is_digit (hd t)"
  shows "takeWhile is_digit (s @ t) = s" "dropWhile is_digit (s @ t) = t"
  using assms by (cases t; auto simp: all_digits_def takeWhile_append dropWhile_append)+

lemma parse_exp_text:
  assumes "delim t"
  shows "parse_exp_part (exp_text x @ t) = Some ((case x of None \<Rightarrow> 0 | Some i \<Rightarrow> i), t)"
proof (cases x)
  case None
  then show ?thesis
    using assms by (cases t) (auto simp: exp_text_def parse_exp_part_def delim_def)
next
  case (Some i)
  have t: "t = [] \<or> \<not> is_digit (hd t)" using assms by (cases t) (auto simp: delim_def)
  have "all_digits (nat_digits n)" for n by (auto simp: all_digits_def is_digit_nat_digits)
  note takeWhile_digits [OF this t]
  with Some show ?thesis by (simp add: exp_text_def parse_exp_part_def)
qed

lemma parse_number_text:
  assumes "all_digits ds" "ds \<noteq> []" "hd ds = CHR ''0'' \<longrightarrow> tl ds = []" "all_digits fs" "delim t"
  shows "parse_number (sign_text neg @ ds @ frac_text fs @ exp_text x @ t)
    = Some (JNum (if neg then - int (digits_val (ds @ fs)) else int (digits_val (ds @ fs)))
              ((case x of None \<Rightarrow> 0 | Some i \<Rightarrow> i) - int (length fs)), t)"
proof -
  let ?x = "exp_text x @ t"
  have x: "?x = [] \<or> \<not> is_digit (hd ?x) \<and> hd ?x \<noteq> CHR ''.''"
    using assms(5) by (cases x; cases t)
      (auto simp: exp_text_def delim_def is_digit_def digit_val_def)
  have f: "frac_text fs @ ?x = [] \<or> \<not> is_digit (hd (frac_text fs @ ?x))"
    using x by (auto simp: frac_text_def is_digit_def digit_val_def)
  have "parse_int_part (ds @ frac_text fs @ ?x) = Some (ds, frac_text fs @ ?x)"
    using takeWhile_digits [OF assms(1) f] assms(2,3) by (auto simp: parse_int_part_def)
  moreover have "parse_frac_part (frac_text fs @ ?x) = Some (fs, ?x)"
  proof (cases "fs = []")
    case True
    then show ?thesis
      using x by (cases ?x) (auto simp: parse_frac_part_def frac_text_def)
  next
    case False
    have "?x = [] \<or> \<not> is_digit (hd ?x)" using x by blast
    from takeWhile_digits [OF assms(4) this] False
    show ?thesis by (simp add: parse_frac_part_def frac_text_def)
  qed
  moreover have "hd (ds @ frac_text fs @ ?x) \<noteq> CHR ''-''"
    using assms(1,2) is_digit_not by (cases ds) (auto simp: all_digits_def)
  ultimately show ?thesis
    using assms(2) parse_exp_text [OF assms(5), of x]
    by (cases neg) (simp_all add: parse_number_def sign_text_def Let_def)
qed

text \<open>The literal the printer writes denotes the same number.\<close>

definition norm_num :: "int \<Rightarrow> int \<Rightarrow> int \<times> int" where
  "norm_num m0 e0 =
     (let (m, e) = strip_zeros m0 e0;
          k = int (length (nat_digits (nat \<bar>m\<bar>))) + e
      in if m = 0 then (0, 0)
         else if k \<le> - 6 \<or> 22 \<le> k then (m, e)
         else if 0 \<le> e then (m * 10 ^ nat e, 0) else (m, e))"

lemma all_digits_nat_digits [simp]: "all_digits (nat_digits n)"
  by (auto simp: all_digits_def is_digit_nat_digits)

lemma all_digits_append [simp]: "all_digits (s @ t) \<longleftrightarrow> all_digits s \<and> all_digits t"
  by (auto simp: all_digits_def)

lemma all_digits_zeros [simp]: "all_digits (zeros k)"
  by (auto simp: all_digits_def)

lemma all_digits_sub:
  "all_digits s \<Longrightarrow> all_digits (take k s)" "all_digits s \<Longrightarrow> all_digits (drop k s)"
  "all_digits s \<Longrightarrow> all_digits (tl s)"
  by (auto simp: all_digits_def dest: in_set_takeD in_set_dropD intro: list.set_sel(2))
    (cases s; simp)

lemma parse_json_number:
  assumes "delim t"
  shows "parse_number (json_number m0 e0 @ t) = Some (case_prod JNum (norm_num m0 e0), t)"
proof -
  obtain m e where me: "strip_zeros m0 e0 = (m, e)" by fastforce
  define ds where "ds = nat_digits (nat \<bar>m\<bar>)"
  define k where "k = int (length ds) + e"
  let ?neg = "m < 0"
  have ds: "all_digits ds" "ds \<noteq> []" by (simp_all add: ds_def)
  have val: "int (digits_val ds) = \<bar>m\<bar>" by (simp add: ds_def)
  have shape: "parse_number (sign_text ?neg @ xs @ frac_text fs @ exp_text x @ t)
      = Some (JNum (if ?neg then - int (digits_val (xs @ fs)) else int (digits_val (xs @ fs)))
               ((case x of None \<Rightarrow> 0 | Some i \<Rightarrow> i) - int (length fs)), t)"
    if "all_digits xs" "xs \<noteq> []" "hd xs = CHR ''0'' \<longrightarrow> tl xs = []" "all_digits fs" for xs fs x
    using parse_number_text [OF that assms] .
  consider (zero) "m = 0" | (exp) "m \<noteq> 0" "k \<le> - 6 \<or> 22 \<le> k"
    | (int) "m \<noteq> 0" "\<not> (k \<le> - 6 \<or> 22 \<le> k)" "0 \<le> e"
    | (point) "m \<noteq> 0" "\<not> (k \<le> - 6 \<or> 22 \<le> k)" "e < 0" "0 < k"
    | (small) "m \<noteq> 0" "\<not> (k \<le> - 6 \<or> 22 \<le> k)" "e < 0" "k \<le> 0"
    by linarith
  then show ?thesis
  proof cases
    case zero
    then have "json_number m0 e0 @ t = sign_text False @ ''0'' @ frac_text [] @ exp_text None @ t"
      by (simp add: json_number_def me sign_text_def frac_text_def exp_text_def)
    moreover have "parse_number (sign_text False @ ''0'' @ frac_text [] @ exp_text None @ t)
        = Some (JNum 0 0, t)"
      by (subst parse_number_text) (use assms in \<open>simp_all add: all_digits_def digits_val_def\<close>)
    ultimately show ?thesis using zero by (simp add: norm_num_def me)
  next
    case exp
    have hd: "hd ds \<noteq> CHR ''0''" using exp(1) by (simp add: ds_def hd_nat_digits_0)
    have "json_number m0 e0 = sign_text ?neg @ [hd ds] @ frac_text (tl ds) @ exp_text (Some (k - 1))"
      using exp by (auto simp: json_number_def me Let_def ds_def [symmetric] k_def [symmetric]
          sign_text_def frac_text_def exp_text_def)
    moreover have "all_digits [hd ds]" "all_digits (tl ds)"
      using ds by (auto simp: all_digits_def dest: list.set_sel(2))
    moreover have "[hd ds] @ tl ds = ds" using ds(2) by simp
    moreover have "k - 1 - int (length (tl ds)) = e" using ds(2) by (cases ds) (auto simp: k_def)
    ultimately show ?thesis
      using exp hd val shape [of "[hd ds]" "tl ds" "Some (k - 1)"]
      by (auto simp: norm_num_def me ds_def [symmetric] k_def [symmetric] Let_def)
  next
    case int
    have hd: "hd ds \<noteq> CHR ''0''" using int(1) by (simp add: ds_def hd_nat_digits_0)
    have "json_number m0 e0
        = sign_text ?neg @ (ds @ zeros (nat e)) @ frac_text [] @ exp_text None"
      using int by (auto simp: json_number_def me Let_def ds_def [symmetric] k_def [symmetric]
          sign_text_def frac_text_def exp_text_def)
    then show ?thesis
      using int hd val ds shape [of "ds @ zeros (nat e)" "[]" None]
      by (auto simp: norm_num_def me ds_def [symmetric] k_def [symmetric] Let_def
          digits_val_zeros_right all_digits_def [of "[]"])
  next
    case point
    have hd: "hd ds \<noteq> CHR ''0''" using point(1) by (simp add: ds_def hd_nat_digits_0)
    have lt: "nat k < length ds" using point by (simp add: k_def)
    then have "drop (nat k) ds \<noteq> []" by simp
    then have "json_number m0 e0
        = sign_text ?neg @ take (nat k) ds @ frac_text (drop (nat k) ds) @ exp_text None"
      using point by (auto simp: json_number_def me Let_def ds_def [symmetric] k_def [symmetric]
          sign_text_def frac_text_def exp_text_def)
    moreover have "hd (take (nat k) ds) = hd ds" "take (nat k) ds \<noteq> []"
      using point(4) ds(2) by (auto simp: hd_take)
    moreover have "- int (length (drop (nat k) ds)) = e" using lt point(4) by (simp add: k_def)
    ultimately show ?thesis
      using point hd val ds shape [of "take (nat k) ds" "drop (nat k) ds" None]
      by (auto simp: norm_num_def me ds_def [symmetric] k_def [symmetric] Let_def all_digits_sub)
  next
    case small
    let ?fs = "zeros (nat (- k)) @ ds"
    have "json_number m0 e0 = sign_text ?neg @ ''0'' @ frac_text ?fs @ exp_text None"
      using small ds by (auto simp: json_number_def me Let_def ds_def [symmetric]
          k_def [symmetric] sign_text_def frac_text_def exp_text_def)
    moreover have "- int (length ?fs) = e" using small by (simp add: k_def)
    moreover have "digits_val (''0'' @ ?fs) = digits_val ds"
      using digits_val_zeros_left [of "Suc (nat (- k))" ds] by simp
    ultimately show ?thesis
      using small val ds shape [of "''0''" ?fs None]
      by (auto simp: norm_num_def me ds_def [symmetric] k_def [symmetric] Let_def
          all_digits_def [of "''0''"])
  qed
qed

section \<open>Values\<close>

fun jnorm :: "json \<Rightarrow> json" where
  "jnorm JNull = JNull"
| "jnorm (JBool b) = JBool b"
| "jnorm (JNum m e) = case_prod JNum (norm_num m e)"
| "jnorm (JStr s) = JStr (coerce s)"
| "jnorm (JArr js) = JArr (map jnorm js)"
| "jnorm (JObj kvs) = JObj (map (\<lambda>kv. (coerce (fst kv), jnorm (snd kv))) kvs)"

text \<open>The fuel a value needs, which the length of its text bounds.\<close>

fun jfuel :: "json \<Rightarrow> nat" where
  "jfuel (JArr js) = Suc (sum_list (map (\<lambda>j. Suc (jfuel j)) js))"
| "jfuel (JObj kvs) = Suc (sum_list (map (\<lambda>kv. Suc (jfuel (snd kv))) kvs))"
| "jfuel _ = 1"

definition json_start :: "char \<Rightarrow> bool" where
  "json_start c \<longleftrightarrow> c \<in> {CHR ''n'', CHR ''t'', CHR ''f'', qt, CHR ''['', CHR ''{'', CHR ''-''} \<or> is_digit c"

lemma json_number_start:
  obtains c r where "json_number m e = c # r" "c = CHR ''-'' \<or> is_digit c"
proof -
  obtain m1 e1 where me: "strip_zeros m e = (m1, e1)" by fastforce
  obtain d ds where d: "nat_digits (nat \<bar>m1\<bar>) = d # ds" by (cases "nat_digits (nat \<bar>m1\<bar>)") auto
  then have dig: "is_digit d" by (metis is_digit_nat_digits list.set_intros(1))
  have "\<exists>c r. json_number m e = c # r \<and> (c = CHR ''-'' \<or> is_digit c)"
    using dig by (auto simp: json_number_def me d Let_def take_Cons')
  then show thesis using that by blast
qed

lemma json_text_start:
  obtains c r where "json_text j = c # r" "json_start c"
proof (cases j)
  case (JNum m e)
  then show thesis
    using json_number_start [of m e] that by (auto simp: json_start_def)
next
  case (JBool b)
  then show thesis using that by (cases b) (auto simp: json_start_def)
qed (use that in \<open>auto simp: json_start_def json_string_def split: if_splits\<close>)

lemma json_start_no_ws: "json_start c \<Longrightarrow> \<not> json_ws c \<and> c \<noteq> CHR '']'' \<and> c \<noteq> CHR ''}''"
  by (auto simp: json_start_def json_ws_def is_digit_def digit_val_def)

lemma skip_ws_string: "skip_ws (json_string s @ t) = json_string s @ t"
  by (simp add: json_string_def skip_ws_def json_ws_def)

lemma skip_ws_punct [simp]:
  "skip_ws (CHR '','' # t) = CHR '','' # t" "skip_ws (CHR '']'' # t) = CHR '']'' # t"
  "skip_ws (CHR ''}'' # t) = CHR ''}'' # t" "skip_ws (CHR '':'' # t) = CHR '':'' # t"
  by (simp_all add: skip_ws_def json_ws_def)

lemma delim_punct [simp]:
  "delim (CHR '','' # t)" "delim (CHR '']'' # t)" "delim (CHR ''}'' # t)" "delim []"
  by (simp_all add: delim_def is_digit_def digit_val_def)

lemma has_prefix_Cons [simp]:
  "has_prefix (c # s) (d # p) \<longleftrightarrow> c = d \<and> has_prefix s p" "has_prefix s []"
  by (auto simp: has_prefix_def)

text \<open>One value, given its text: what every constructor of the induction uses.\<close>

definition parses :: "json \<Rightarrow> bool" where
  "parses j \<longleftrightarrow> (\<forall>n t. jfuel j \<le> n \<longrightarrow> delim t \<longrightarrow>
     parse_value n (json_text j @ t) = Some (jnorm j, t))"

lemma parses_elems:
  assumes "\<forall>j \<in> set js. parses j" "js \<noteq> []"
    and "sum_list (map (\<lambda>j. Suc (jfuel j)) js) \<le> n"
  shows "parse_elems n (join (map json_text js) '','' @ CHR '']'' # t) = Some (map jnorm js, t)"
  using assms(2,1,3)
proof (induction js arbitrary: n rule: list_nonempty_induct)
  case (single j)
  then obtain k where "n = Suc k" "jfuel j \<le> k" by (cases n) auto
  with single show ?case by (simp add: parses_def)
next
  case (cons j js)
  then obtain k where k: "n = Suc k" "jfuel j \<le> k"
    "sum_list (map (\<lambda>j. Suc (jfuel j)) js) \<le> k" by (cases n) auto
  obtain x xs where xs: "map json_text js = x # xs" using cons.hyps by (cases js) auto
  have "join (map json_text (j # js)) '','' @ CHR '']'' # t
      = json_text j @ CHR '','' # (join (map json_text js) '','' @ CHR '']'' # t)"
    by (simp add: xs)
  with cons k show ?case by (simp add: parses_def)
qed

lemma parses_members:
  assumes "\<forall>kv \<in> set kvs. parses (snd kv)" "kvs \<noteq> []"
    and "sum_list (map (\<lambda>kv. Suc (jfuel (snd kv))) kvs) \<le> n"
  shows "parse_members n
           (join (map (\<lambda>kv. json_string (fst kv) @ CHR '':'' # json_text (snd kv)) kvs) '',''
              @ CHR ''}'' # t)
       = Some (map (\<lambda>kv. (coerce (fst kv), jnorm (snd kv))) kvs, t)"
  using assms(2,1,3)
proof (induction kvs arbitrary: n rule: list_nonempty_induct)
  case (single kv)
  then obtain k where "n = Suc k" "jfuel (snd kv) \<le> k" by (cases n) auto
  with single show ?case by (simp add: parses_def skip_ws_string parse_json_string)
next
  case (cons kv kvs)
  let ?f = "\<lambda>kv. json_string (fst kv) @ CHR '':'' # json_text (snd kv)"
  obtain k where k: "n = Suc k" "jfuel (snd kv) \<le> k"
    "sum_list (map (\<lambda>kv. Suc (jfuel (snd kv))) kvs) \<le> k"
    using cons.prems by (cases n) auto
  obtain x xs where xs: "map ?f kvs = x # xs" using cons.hyps by (cases kvs) auto
  have "join (map ?f (kv # kvs)) '','' @ CHR ''}'' # t
      = json_string (fst kv) @ CHR '':'' # (json_text (snd kv)
          @ CHR '','' # (join (map ?f kvs) '','' @ CHR ''}'' # t))"
    by (simp add: xs)
  with cons k show ?case
    by (simp add: parses_def skip_ws_string parse_json_string)
qed

lemma parses_arr:
  assumes "\<forall>j \<in> set js. parses j"
  shows "parses (JArr js)"
  unfolding parses_def
proof (intro allI impI)
  fix n t
  assume n: "jfuel (JArr js) \<le> n"
  then obtain k where k: "n = Suc k" by (cases n) auto
  show "parse_value n (json_text (JArr js) @ t) = Some (jnorm (JArr js), t)"
  proof (cases js)
    case Nil
    with k show ?thesis by (simp add: skip_ws_def json_ws_def)
  next
    case (Cons j js')
    obtain c r where c: "json_text j = c # r" "json_start c" by (rule json_text_start)
    have "parse_elems k (join (map json_text js) '','' @ CHR '']'' # t) = Some (map jnorm js, t)"
      by (rule parses_elems) (use assms Cons n k in auto)
    moreover obtain r' where r': "join (map json_text js) '','' @ CHR '']'' # t = c # r'"
      using Cons c by (cases "map json_text js'") auto
    ultimately show ?thesis
      using k json_start_no_ws [OF c(2)] by (simp add: skip_ws_def json_ws_def)
  qed
qed

lemma parses_obj:
  assumes "\<forall>kv \<in> set kvs. parses (snd kv)"
  shows "parses (JObj kvs)"
  unfolding parses_def
proof (intro allI impI)
  fix n t
  assume n: "jfuel (JObj kvs) \<le> n"
  then obtain k where k: "n = Suc k" by (cases n) auto
  let ?f = "\<lambda>kv. json_string (fst kv) @ CHR '':'' # json_text (snd kv)"
  show "parse_value n (json_text (JObj kvs) @ t) = Some (jnorm (JObj kvs), t)"
  proof (cases kvs)
    case Nil
    with k show ?thesis by (simp add: skip_ws_def json_ws_def)
  next
    case (Cons kv kvs')
    have "parse_members k (join (map ?f kvs) '','' @ CHR ''}'' # t)
        = Some (map (\<lambda>kv. (coerce (fst kv), jnorm (snd kv))) kvs, t)"
      by (rule parses_members) (use assms Cons n k in auto)
    moreover obtain r' where r': "join (map ?f kvs) '','' @ CHR ''}'' # t = qt # r'"
      using Cons by (cases "map ?f kvs'") (auto simp: json_string_def)
    ultimately show ?thesis using k by (simp add: skip_ws_def json_ws_def)
  qed
qed

lemma json_number_dispatch:
  assumes "c = CHR ''-'' \<or> is_digit c"
  shows "c \<notin> {CHR ''n'', CHR ''t'', CHR ''f'', qt, CHR ''['', CHR ''{''}" "\<not> json_ws c"
  using assms by (auto simp: is_digit_def digit_val_def json_ws_def)

lemma parses_num: "parses (JNum m e)"
  unfolding parses_def
proof (intro allI impI)
  fix n t
  assume "jfuel (JNum m e) \<le> n" and t: "delim t"
  then obtain k where k: "n = Suc k" by (cases n) auto
  obtain c r where c: "json_number m e = c # r" "c = CHR ''-'' \<or> is_digit c"
    by (rule json_number_start)
  have "parse_number (c # r @ t) = Some (jnorm (JNum m e), t)"
    using parse_json_number [OF t, of m e] c by simp
  with json_number_dispatch [OF c(2)] c k
  show "parse_value n (json_text (JNum m e) @ t) = Some (jnorm (JNum m e), t)"
    by (simp add: skip_ws_def)
qed

lemma parses_all: "parses j"
proof (induction j)
  case (JArr js)
  then show ?case by (simp add: parses_arr)
next
  case (JObj kvs)
  then show ?case by (intro parses_obj) (metis snds.intros)
next
  case (JStr s)
  have "json_string s @ t = qt # tl (json_string s @ t)" for t by (simp add: json_string_def)
  then have "has_prefix (json_string s @ t) [qt]" for t by (metis has_prefix_Cons)
  moreover have "\<not> has_prefix (json_string s @ t) (c # p)" if "c \<noteq> qt" for c p t
    using that by (simp add: json_string_def)
  ultimately show ?case
    by (auto simp: parses_def skip_ws_string parse_json_string Suc_le_eq gr0_conv_Suc)
next
  case (JNum m e)
  show ?case by (rule parses_num)
qed (auto simp: parses_def skip_ws_def json_ws_def Suc_le_eq gr0_conv_Suc)

section \<open>Enough fuel, and the round trip\<close>

lemma length_join: "length (join xs [c]) = sum_list (map length xs) + (length xs - 1)"
  by (induction xs "[c]" rule: join.induct) auto

lemma sum_fuel:
  assumes "\<And>x. x \<in> set xs \<Longrightarrow> f x \<le> 2 * g x"
  shows "sum_list (map (\<lambda>x. Suc (f x)) xs) \<le> length xs + 2 * sum_list (map g xs)"
proof -
  have "Suc (sum_list (map (\<lambda>x. Suc (f x)) xs)) \<le> Suc (length xs + 2 * sum_list (map g xs))"
    using assms
  proof (induction xs)
    case (Cons x xs)
    then have "f x \<le> 2 * g x"
      "Suc (sum_list (map (\<lambda>x. Suc (f x)) xs)) \<le> Suc (length xs + 2 * sum_list (map g xs))"
      by simp_all
    then show ?case by simp
  qed simp
  then show ?thesis by simp
qed

lemma jfuel_le: "jfuel j \<le> 2 * length (json_text j)"
proof (induction j)
  case (JArr js)
  have "sum_list (map (\<lambda>j. Suc (jfuel j)) js)
      \<le> length js + 2 * sum_list (map (\<lambda>j. length (json_text j)) js)"
    by (rule sum_fuel) (use JArr in blast)
  then show ?case by (simp add: length_join comp_def)
next
  case (JObj kvs)
  let ?g = "\<lambda>kv. length (json_string (fst kv) @ CHR '':'' # json_text (snd kv))"
  have "jfuel (snd kv) \<le> 2 * ?g kv" if "kv \<in> set kvs" for kv
  proof -
    have "jfuel (snd kv) \<le> 2 * length (json_text (snd kv))"
      using JObj that by (metis snds.intros)
    then show ?thesis by simp
  qed
  then have "sum_list (map (\<lambda>kv. Suc (jfuel (snd kv))) kvs)
      \<le> length kvs + 2 * sum_list (map ?g kvs)" by (rule sum_fuel)
  then show ?case by (simp add: length_join comp_def)
next
  case (JNum m e)
  then show ?case by (cases rule: json_number_start [of m e]) auto
qed (auto simp: json_string_def)

theorem json_parse_text: "json_parse (json_text j) = Some (jnorm j)"
proof -
  have "jfuel j \<le> 2 * length (json_text j) + 2" using jfuel_le [of j] by simp
  then have "parse_value (2 * length (json_text j) + 2) (json_text j @ []) = Some (jnorm j, [])"
    using parses_all [of j] unfolding parses_def by (blast intro: delim_punct)
  then show ?thesis by (simp add: json_parse_def skip_ws_def)
qed

lemma json_decode_first_text:
  assumes "delim t"
  shows "json_decode_first (json_text j @ t) = Some (jnorm j)"
proof -
  have "jfuel j \<le> 2 * length (json_text j @ t) + 2" using jfuel_le [of j] by simp
  with assms have "parse_value (2 * length (json_text j @ t) + 2) (json_text j @ t)
      = Some (jnorm j, t)"
    using parses_all [of j] unfolding parses_def by blast
  then show ?thesis by (simp add: json_decode_first_def)
qed

section \<open>Numbers keep their value\<close>

lemma float_val_scale: "float_val (10 * m, e) = float_val (m, e + 1)"
proof -
  consider "0 \<le> e" | "e = - 1" | "e < - 1" by linarith
  then show ?thesis
  proof cases
    case 1
    then show ?thesis by (simp add: float_val_def nat_add_distrib)
  next
    case 2
    then show ?thesis by (simp add: float_val_def)
  next
    case 3
    define k where "k = nat (- e - 1)"
    with 3 have "nat (- e) = Suc k" "nat (- (e + 1)) = k" by auto
    with 3 show ?thesis by (simp add: float_val_def)
  qed
qed

lemma float_val_strip: "float_val (strip_zeros m e) = float_val (m, e)"
proof (induction m e rule: strip_zeros.induct)
  case (1 m e)
  consider "m = 0" | "m \<noteq> 0" "m mod 10 = 0" | "m \<noteq> 0" "m mod 10 \<noteq> 0" by blast
  then show ?case
  proof cases
    case 1
    then show ?thesis by (simp add: strip_zeros.simps float_val_def)
  next
    case 2
    then have "10 * (m div 10) = m" by presburger
    with float_val_scale [of "m div 10" e] "1.IH" 2 show ?thesis
      by (simp add: strip_zeros.simps [of m e])
  next
    case 3
    then show ?thesis by (simp add: strip_zeros.simps [of m e])
  qed
qed

lemma float_val_norm_num: "float_val (norm_num m e) = float_val (m, e)"
proof -
  obtain m1 e1 where me: "strip_zeros m e = (m1, e1)" by fastforce
  then have "float_val (m, e) = float_val (m1, e1)" by (metis float_val_strip)
  then show ?thesis by (auto simp: norm_num_def me Let_def float_val_def)
qed

end
