(* ===== verification/Bot_Codec.thy ===== *)
theory Bot_Codec
  imports Bot_Model Go_Json_Roundtrip
begin

text \<open>
  The struct tags of \<open>pkg/pipeline/model/pipeline.go\<close>, \<open>pkg/ai/model/a2a.go\<close> and of the
  postback body: what \<open>json.Marshal\<close> writes for each struct and what \<open>json.Unmarshal\<close>
  reads into it. A time is carried as its RFC 3339 text, which the program never inspects.
  Field names are matched the way the library does, ignoring case; of repeated names the
  last one counts.
\<close>

section \<open>Reading fields\<close>

definition fold_rune :: "nat \<Rightarrow> nat" where
  "fold_rune r =
     (if r = 0x212A then 107 else if r = 0x17F then 115
      else if 65 \<le> r \<and> r \<le> 90 then r + 32 else r)"

definition fold_name :: "string \<Rightarrow> string" where
  "fold_name s = concat (map (\<lambda>p. encode_rune (fold_rune (fst p))) (runes s))"

definition jfield :: "(string \<times> json) list \<Rightarrow> string \<Rightarrow> json option" where
  "jfield kvs name = map_of (rev (map (\<lambda>kv. (fold_name (fst kv), snd kv)) kvs)) name"

text \<open>
  Decoders of one field: \<open>None\<close> is an error of \<open>Unmarshal\<close>; an absent field and \<open>null\<close>
  leave the zero value.
\<close>

fun dec_string :: "json option \<Rightarrow> string option" where
  "dec_string None = Some []"
| "dec_string (Some JNull) = Some []"
| "dec_string (Some (JStr s)) = Some s"
| "dec_string _ = None"

fun dec_bool :: "json option \<Rightarrow> bool option" where
  "dec_bool None = Some False"
| "dec_bool (Some JNull) = Some False"
| "dec_bool (Some (JBool b)) = Some b"
| "dec_bool _ = None"

fun dec_int64 :: "json option \<Rightarrow> int64 option" where
  "dec_int64 None = Some 0"
| "dec_int64 (Some JNull) = Some 0"
| "dec_int64 (Some (JNum m e)) =
     (if e = 0 \<and> - (2 ^ 63) \<le> m \<and> m < 2 ^ 63 then Some (word_of_int m) else None)"
| "dec_int64 _ = None"

fun dec_float64 :: "json option \<Rightarrow> float64 option" where
  "dec_float64 None = Some (0, 0)"
| "dec_float64 (Some JNull) = Some (0, 0)"
| "dec_float64 (Some (JNum m e)) = Some (m, e)"
| "dec_float64 _ = None"

fun dec_metadata :: "json option \<Rightarrow> metadata option" where
  "dec_metadata None = Some None"
| "dec_metadata (Some JNull) = Some None"
| "dec_metadata (Some (JObj kvs)) = Some (Some kvs)"
| "dec_metadata _ = None"

fun dec_list :: "(json \<Rightarrow> 'a option) \<Rightarrow> json list \<Rightarrow> 'a list option" where
  "dec_list d [] = Some []"
| "dec_list d (j # js) =
     Option.bind (d j) (\<lambda>x. map_option ((#) x) (dec_list d js))"

text \<open>A slice field, and a pointer to a struct.\<close>

fun dec_slice :: "(json \<Rightarrow> 'a option) \<Rightarrow> json option \<Rightarrow> 'a list option" where
  "dec_slice d None = Some []"
| "dec_slice d (Some JNull) = Some []"
| "dec_slice d (Some (JArr js)) = dec_list d js"
| "dec_slice d _ = None"

fun dec_pointer :: "(json \<Rightarrow> 'a option) \<Rightarrow> json option \<Rightarrow> 'a option option" where
  "dec_pointer d None = Some None"
| "dec_pointer d (Some JNull) = Some None"
| "dec_pointer d (Some j) = map_option Some (d j)"

section \<open>Writing fields\<close>

definition int_json :: "int64 \<Rightarrow> json" where
  "int_json i = JNum (sint i) 0"

text \<open>\<open>omitempty\<close> on a string, and on a map.\<close>

definition omit_str :: "string \<Rightarrow> string \<Rightarrow> (string \<times> json) list" where
  "omit_str k s = (if s = [] then [] else [(k, JStr s)])"

definition omit_map :: "string \<Rightarrow> metadata \<Rightarrow> (string \<times> json) list" where
  "omit_map k m = (case m of None \<Rightarrow> [] | Some kvs \<Rightarrow> if kvs = [] then [] else [(k, JObj kvs)])"

section \<open>BotConfig, PipelineState, Attachment, MessageEvent\<close>

definition config_json :: "BotConfig \<Rightarrow> json" where
  "config_json c = JObj
     [(''debounce_time'', int_json (DebounceTime c)),
      (''message_signature'', JStr (MessageSignature c)),
      (''text_segmentation_enabled'', JBool (TextSegmentationEnabled c)),
      (''text_segmentation_limit'', int_json (TextSegmentationLimit c)),
      (''text_segmentation_min_size'', int_json (TextSegmentationMinSize c)),
      (''delay_per_character'', case_prod JNum (DelayPerCharacter c))]"

fun config_of :: "json option \<Rightarrow> BotConfig option" where
  "config_of None = Some zeroConfig"
| "config_of (Some JNull) = Some zeroConfig"
| "config_of (Some (JObj kvs)) =
     Option.bind (dec_int64 (jfield kvs ''debounce_time'')) (\<lambda>dt.
     Option.bind (dec_string (jfield kvs ''message_signature'')) (\<lambda>sig.
     Option.bind (dec_bool (jfield kvs ''text_segmentation_enabled'')) (\<lambda>en.
     Option.bind (dec_int64 (jfield kvs ''text_segmentation_limit'')) (\<lambda>lim.
     Option.bind (dec_int64 (jfield kvs ''text_segmentation_min_size'')) (\<lambda>mn.
     Option.bind (dec_float64 (jfield kvs ''delay_per_character'')) (\<lambda>d.
       Some \<lparr> DebounceTime = dt, MessageSignature = sig, TextSegmentationEnabled = en,
              TextSegmentationLimit = lim, TextSegmentationMinSize = mn,
              DelayPerCharacter = d \<rparr>))))))"
| "config_of _ = None"

definition state_json :: "PipelineState \<Rightarrow> json" where
  "state_json s = JObj
     ([(''stage'', JStr (st_Stage s)), (''created_at'', JStr (st_CreatedAt s)),
       (''bot_config'', config_json (st_BotConfig s))]
      @ omit_str ''postback_url'' (st_PostbackURL s)
      @ omit_str ''agent_bot_id'' (st_AgentBotID s)
      @ omit_str ''api_key'' (st_ApiKey s)
      @ omit_str ''outgoing_url'' (st_OutgoingURL s)
      @ omit_map ''metadata'' (st_Metadata s))"

fun state_of :: "json \<Rightarrow> PipelineState option" where
  "state_of JNull = Some (stageState [] [])"
| "state_of (JObj kvs) =
     Option.bind (dec_string (jfield kvs ''stage'')) (\<lambda>stage.
     Option.bind (dec_string (jfield kvs ''created_at'')) (\<lambda>ctm.
     Option.bind (config_of (jfield kvs ''bot_config'')) (\<lambda>cfg.
     Option.bind (dec_string (jfield kvs ''postback_url'')) (\<lambda>pb.
     Option.bind (dec_string (jfield kvs ''agent_bot_id'')) (\<lambda>bot.
     Option.bind (dec_string (jfield kvs ''api_key'')) (\<lambda>key.
     Option.bind (dec_string (jfield kvs ''outgoing_url'')) (\<lambda>out.
     Option.bind (dec_metadata (jfield kvs ''metadata'')) (\<lambda>md.
       Some \<lparr> st_Stage = stage, st_CreatedAt = ctm, st_BotConfig = cfg, st_PostbackURL = pb,
              st_AgentBotID = bot, st_ApiKey = key, st_OutgoingURL = out,
              st_Metadata = md \<rparr>))))))))"
| "state_of _ = None"

definition attachment_json :: "Attachment \<Rightarrow> json" where
  "attachment_json a = JObj
     [(''url'', JStr (at_URL a)), (''content_type'', JStr (at_ContentType a)),
      (''file_type'', JStr (at_FileType a))]"

fun attachment_of :: "json \<Rightarrow> Attachment option" where
  "attachment_of JNull = Some \<lparr> at_URL = [], at_ContentType = [], at_FileType = [] \<rparr>"
| "attachment_of (JObj kvs) =
     Option.bind (dec_string (jfield kvs ''url'')) (\<lambda>u.
     Option.bind (dec_string (jfield kvs ''content_type'')) (\<lambda>c.
     Option.bind (dec_string (jfield kvs ''file_type'')) (\<lambda>f.
       Some \<lparr> at_URL = u, at_ContentType = c, at_FileType = f \<rparr>)))"
| "attachment_of _ = None"

fun event_of :: "json \<Rightarrow> MessageEvent option" where
  "event_of (JObj kvs) =
     Option.bind (dec_string (jfield kvs ''agent_bot_id'')) (\<lambda>bot.
     Option.bind (dec_int64 (jfield kvs ''conversation_id'')) (\<lambda>conv.
     Option.bind (dec_int64 (jfield kvs ''contact_id'')) (\<lambda>contact.
     Option.bind (dec_string (jfield kvs ''message_id'')) (\<lambda>mid.
     Option.bind (dec_string (jfield kvs ''message_content'')) (\<lambda>content.
     Option.bind (dec_slice attachment_of (jfield kvs ''attachments'')) (\<lambda>atts.
     Option.bind (dec_string (jfield kvs ''api_key'')) (\<lambda>key.
     Option.bind (dec_string (jfield kvs ''outgoing_url'')) (\<lambda>out.
     Option.bind (config_of (jfield kvs ''bot_config'')) (\<lambda>cfg.
     Option.bind (dec_string (jfield kvs ''postback_url'')) (\<lambda>pb.
     Option.bind (dec_metadata (jfield kvs ''metadata'')) (\<lambda>md.
       Some \<lparr> ev_AgentBotID = bot, ev_ConversationID = conv, ev_ContactID = contact,
              ev_MessageID = mid, ev_MessageContent = content, ev_Attachments = atts,
              ev_ApiKey = key, ev_OutgoingURL = out, ev_BotConfig = cfg, ev_PostbackURL = pb,
              ev_Metadata = md \<rparr>)))))))))))"
| "event_of JNull =
     Some \<lparr> ev_AgentBotID = [], ev_ConversationID = 0, ev_ContactID = 0, ev_MessageID = [],
            ev_MessageContent = [], ev_Attachments = [], ev_ApiKey = [], ev_OutgoingURL = [],
            ev_BotConfig = zeroConfig, ev_PostbackURL = [], ev_Metadata = None \<rparr>"
| "event_of _ = None"

section \<open>The A2A wire format\<close>

definition file_json :: "JSONRPCFile \<Rightarrow> json" where
  "file_json f = JObj
     (omit_str ''name'' (file_Name f)
      @ [(''mimeType'', JStr (file_MimeType f)), (''bytes'', JStr (file_Bytes f))])"

definition part_json :: "JSONRPCPart \<Rightarrow> json" where
  "part_json p = JObj
     ([(''type'', JStr (part_Type p))] @ omit_str ''text'' (part_Text p)
      @ (case part_File p of None \<Rightarrow> [] | Some f \<Rightarrow> [(''file'', file_json f)]))"

definition request_json :: "JSONRPCRequest \<Rightarrow> json" where
  "request_json r = JObj
     [(''jsonrpc'', JStr (rpc_JSONRPC r)), (''id'', JStr (rpc_ID r)),
      (''method'', JStr (rpc_Method r)),
      (''params'', JObj
         [(''contextId'', JStr (par_ContextID (rpc_Params r))),
          (''userId'', JStr (par_UserID (rpc_Params r))),
          (''message'', JObj
             [(''role'', JStr (msg_Role (par_Message (rpc_Params r)))),
              (''parts'', JArr (map part_json (msg_Parts (par_Message (rpc_Params r)))))]),
          (''metadata'', case par_Metadata (rpc_Params r) of
                           None \<Rightarrow> JNull | Some kvs \<Rightarrow> JObj kvs)])]"

fun apart_of :: "json \<Rightarrow> A2APart option" where
  "apart_of (JObj kvs) =
     Option.bind (dec_string (jfield kvs ''type'')) (\<lambda>ty.
     Option.bind (dec_string (jfield kvs ''text'')) (\<lambda>tx.
       Some \<lparr> apart_Type = ty, apart_Text = tx \<rparr>))"
| "apart_of JNull = Some \<lparr> apart_Type = [], apart_Text = [] \<rparr>"
| "apart_of _ = None"

fun artifact_of :: "json \<Rightarrow> A2AArtifact option" where
  "artifact_of (JObj kvs) =
     map_option (\<lambda>ps. \<lparr> art_Parts = ps \<rparr>) (dec_slice apart_of (jfield kvs ''parts''))"
| "artifact_of JNull = Some \<lparr> art_Parts = [] \<rparr>"
| "artifact_of _ = None"

fun amessage_of :: "json \<Rightarrow> A2AMessage option" where
  "amessage_of (JObj kvs) =
     map_option (\<lambda>ps. \<lparr> amsg_Parts = ps \<rparr>) (dec_slice apart_of (jfield kvs ''parts''))"
| "amessage_of _ = None"

fun result_of :: "json \<Rightarrow> A2AResult option" where
  "result_of (JObj kvs) =
     Option.bind (dec_slice artifact_of (jfield kvs ''artifacts'')) (\<lambda>arts.
     Option.bind (dec_pointer amessage_of (jfield kvs ''message'')) (\<lambda>m.
       Some \<lparr> res_Artifacts = arts, res_Message = m \<rparr>))"
| "result_of _ = None"

fun response_of :: "json \<Rightarrow> A2AResponse option" where
  "response_of (JObj kvs) =
     map_option (\<lambda>r. \<lparr> resp_Result = r \<rparr>) (dec_pointer result_of (jfield kvs ''result''))"
| "response_of JNull = Some \<lparr> resp_Result = None \<rparr>"
| "response_of _ = None"

section \<open>Reading back what was written\<close>

text \<open>
  A state that went through the store is the same state up to the two repairs of
  \<open>encoding/json\<close>: invalid UTF-8 is replaced, and an empty map is not written.
\<close>

lemma encode_rune_ascii: "of_char c < (0x80 :: nat) \<Longrightarrow> encode_rune (of_char c) = [c]"
  by (simp add: encode_rune_def encode_bytes_def)

lemma coerce_Nil [simp]: "coerce [] = []"
  by simp

lemma coerce_ascii: "\<forall>c \<in> set s. of_char c < (0x80 :: nat) \<Longrightarrow> coerce s = s"
  by (induction s) (simp_all add: coerce_def runes_ascii encode_rune_ascii)

definition lower_name :: "string \<Rightarrow> bool" where
  "lower_name s \<longleftrightarrow>
     (\<forall>c \<in> set s. of_char c < (0x80 :: nat) \<and> \<not> (65 \<le> (of_char c :: nat) \<and> of_char c \<le> (90 :: nat)))"

lemma fold_name_lower: "lower_name s \<Longrightarrow> fold_name s = s"
proof (induction s)
  case (Cons c s)
  then have c: "of_char c < (0x80 :: nat)" "fold_rune (of_char c) = of_char c" "lower_name s"
    by (auto simp: lower_name_def fold_rune_def)
  with Cons.IH show ?case by (simp add: fold_name_def runes_ascii encode_rune_ascii)
qed (simp add: fold_name_def)

lemma lower_name_coerce: "lower_name s \<Longrightarrow> coerce s = s"
  by (simp add: coerce_ascii lower_name_def)

text \<open>The fields of an object whose names are written in lower case.\<close>

lemma map_of_rev: "distinct (map fst kvs) \<Longrightarrow> map_of (rev kvs) = map_of kvs"
  by (rule map_of_inject_set [THEN iffD2]) (simp_all add: rev_map [symmetric])

definition names_ok :: "(string \<times> json) list \<Rightarrow> bool" where
  "names_ok kvs \<longleftrightarrow> (\<forall>kv \<in> set kvs. lower_name (fst kv)) \<and> distinct (map fst kvs)"

definition norm_fields :: "(string \<times> json) list \<Rightarrow> (string \<times> json) list" where
  "norm_fields kvs = map (\<lambda>kv. (coerce (fst kv), jnorm (snd kv))) kvs"

lemma jnorm_obj: "jnorm (JObj kvs) = JObj (norm_fields kvs)"
  by (simp add: norm_fields_def)

lemma jfield_norm:
  assumes "names_ok kvs"
  shows "jfield (norm_fields kvs) name = map_option jnorm (map_of kvs name)"
proof -
  let ?n = "map (\<lambda>kv. (fst kv, jnorm (snd kv))) kvs"
  have "map (\<lambda>kv. (fold_name (fst kv), snd kv)) (norm_fields kvs) = ?n"
    using assms by (simp add: norm_fields_def names_ok_def lower_name_coerce fold_name_lower)
  moreover have "map_of (rev ?n) = map_of ?n"
    using assms by (intro map_of_rev) (simp add: comp_def names_ok_def)
  moreover have "map_of ?n name = map_option jnorm (map_of kvs name)"
    by (induction kvs) auto
  ultimately show ?thesis by (simp only: jfield_def)
qed

text \<open>The rules that run a decoder on a printed struct.\<close>

declare jnorm.simps(6) [simp del]

lemmas codec_simps = jnorm_obj jfield_norm names_ok_def lower_name_def omit_str_def omit_map_def

lemma strip_zeros_cases:
  obtains k where "strip_zeros m e = (if m = 0 then (0, 0) else (m div 10 ^ k, e + int k))"
    "10 ^ k dvd m"
proof -
  have "\<exists>k. strip_zeros m e = (if m = 0 then (0, 0) else (m div 10 ^ k, e + int k)) \<and> 10 ^ k dvd m"
  proof (induction m e rule: strip_zeros.induct)
    case (1 m e)
    show ?case
    proof (cases "m \<noteq> 0 \<and> m mod 10 = 0")
      case True
      with 1 have "\<exists>k. strip_zeros (m div 10) (e + 1)
          = (if m div 10 = 0 then (0, 0) else (m div 10 div 10 ^ k, e + 1 + int k))
        \<and> 10 ^ k dvd m div 10" by simp
      then obtain k where k: "strip_zeros (m div 10) (e + 1)
          = (if m div 10 = 0 then (0, 0) else (m div 10 div 10 ^ k, e + 1 + int k))"
        "10 ^ k dvd m div 10" by (elim exE conjE)
      have m: "m = 10 * (m div 10)" "m div 10 \<noteq> 0" using True by presburger+
      have "10 ^ Suc k dvd m"
        using k(2) by (subst m(1)) (simp only: power_Suc, rule mult_dvd_mono, simp_all)
      with True k m(2) show ?thesis
        by (intro exI [of _ "Suc k"]) (simp add: strip_zeros.simps [of m e] zdiv_zmult2_eq)
    next
      case False
      then show ?thesis
        by (intro exI [of _ 0]) (auto simp: strip_zeros.simps [of m e])
    qed
  qed
  then show ?thesis using that by blast
qed

lemma length_nat_digits_le: "0 < n \<Longrightarrow> n < 10 ^ k \<Longrightarrow> length (nat_digits n) \<le> k"
proof (induction n arbitrary: k rule: nat_digits.induct)
  case (1 n)
  show ?case
  proof (cases "n < 10")
    case True
    with 1 show ?thesis by (cases k) (simp_all add: nat_digits.simps [of n])
  next
    case False
    with 1 obtain l where l: "k = Suc l" by (cases k) auto
    from False 1 l have "n div 10 < 10 ^ l" "0 < n div 10"
      by (auto simp: less_mult_imp_div_less mult.commute)
    with 1 False l show ?thesis by (simp add: nat_digits.simps [of n])
  qed
qed

lemma norm_num_int: "\<bar>m\<bar> < 10 ^ 21 \<Longrightarrow> norm_num m 0 = (m, 0)"
proof -
  assume small: "\<bar>m\<bar> < 10 ^ 21"
  show ?thesis
  proof (cases "m = 0")
    case True
    then show ?thesis by (simp add: norm_num_def strip_zeros.simps)
  next
    case False
    obtain k where k: "strip_zeros m 0 = (m div 10 ^ k, int k)" "10 ^ k dvd m"
      using strip_zeros_cases [of m 0] False by auto
    define q where "q = m div 10 ^ k"
    have m: "m = q * 10 ^ k" "q \<noteq> 0" using k(2) False by (auto simp: q_def)
    have "\<bar>q\<bar> * 10 ^ k < 10 ^ 21" using small m(1) by (simp add: abs_mult)
    moreover have "1 \<le> \<bar>q\<bar>" using m(2) by linarith
    ultimately have "(10 :: int) ^ k < 10 ^ 21"
      by (smt (verit) mult_le_cancel_right1 zero_less_power)
    then have "k < 21" by (rule power_less_imp_less_exp [rotated]) simp
    then have "(10 :: int) ^ 21 = 10 ^ (21 - k) * 10 ^ k" by (simp only: power_add [symmetric]) simp
    with \<open>\<bar>q\<bar> * 10 ^ k < 10 ^ 21\<close> have "\<bar>q\<bar> * 10 ^ k < 10 ^ (21 - k) * 10 ^ k" by (simp only:)
    then have "\<bar>q\<bar> < 10 ^ (21 - k)" by (simp only: mult_less_cancel_right) simp
    then have "nat \<bar>q\<bar> < 10 ^ (21 - k)" by (metis nat_less_iff abs_ge_zero of_nat_numeral of_nat_power)
    moreover have "0 < nat \<bar>q\<bar>" using m(2) by simp
    ultimately have "length (nat_digits (nat \<bar>q\<bar>)) \<le> 21 - k" by (intro length_nat_digits_le)
    then have "\<not> 22 \<le> int (length (nat_digits (nat \<bar>q\<bar>))) + int k" using \<open>k < 21\<close> by simp
    with k m show ?thesis
      by (simp add: norm_num_def q_def [symmetric] Let_def)
  qed
qed

definition norm_config :: "BotConfig \<Rightarrow> BotConfig" where
  "norm_config c = c \<lparr> MessageSignature := coerce (MessageSignature c),
     DelayPerCharacter := case_prod norm_num (DelayPerCharacter c) \<rparr>"

fun norm_metadata :: "metadata \<Rightarrow> metadata" where
  "norm_metadata None = None"
| "norm_metadata (Some kvs) =
     (if kvs = [] then None else Some (norm_fields kvs))"

definition norm_state :: "PipelineState \<Rightarrow> PipelineState" where
  "norm_state s = \<lparr> st_Stage = coerce (st_Stage s), st_CreatedAt = coerce (st_CreatedAt s),
     st_BotConfig = norm_config (st_BotConfig s), st_PostbackURL = coerce (st_PostbackURL s),
     st_AgentBotID = coerce (st_AgentBotID s), st_ApiKey = coerce (st_ApiKey s),
     st_OutgoingURL = coerce (st_OutgoingURL s), st_Metadata = norm_metadata (st_Metadata s) \<rparr>"

definition norm_attachment :: "Attachment \<Rightarrow> Attachment" where
  "norm_attachment a = \<lparr> at_URL = coerce (at_URL a), at_ContentType = coerce (at_ContentType a),
     at_FileType = coerce (at_FileType a) \<rparr>"

lemma attachment_of_json: "attachment_of (jnorm (attachment_json a)) = Some (norm_attachment a)"
  by (simp add: attachment_json_def codec_simps norm_attachment_def)

lemma dec_int64_json: "dec_int64 (Some (jnorm (int_json i))) = Some i"
proof -
  have "\<bar>sint i\<bar> < 10 ^ 21" using sint64_range [of i] by (simp add: abs_less_iff)
  then have "norm_num (sint i) 0 = (sint i, 0)" by (rule norm_num_int)
  then show ?thesis using sint64_range [of i] by (simp add: int_json_def)
qed

lemma config_of_json: "config_of (Some (jnorm (config_json c))) = Some (norm_config c)"
  by (cases c) (simp add: config_json_def codec_simps norm_config_def dec_int64_json split: prod.splits)

lemma state_of_json: "state_of (jnorm (state_json s)) = Some (norm_state s)"
proof -
  obtain stage ctm cfg pb bot key og md where s:
    "s = \<lparr> st_Stage = stage, st_CreatedAt = ctm, st_BotConfig = cfg, st_PostbackURL = pb,
           st_AgentBotID = bot, st_ApiKey = key, st_OutgoingURL = og, st_Metadata = md \<rparr>"
    by (cases s)
  show ?thesis
    unfolding s by (cases md)
      (simp_all add: state_json_def codec_simps norm_state_def config_of_json)
qed

end
