(* ===== verification/Go_Prog.thy ===== *)
theory Go_Prog
  imports Prelude
begin

text \<open>
  Goroutines as resumptions: a program is finished with a result or takes one atomic step,
  which may emit events, changes the shared state and continues depending on the state it
  saw. \<open>exec\<close> runs a program while other goroutines and the environment interfere: before
  each of its steps the state may change by an arbitrary function of the step number.
  \<open>run\<close> is the execution nobody interferes with. A property of \<open>exec\<close> for every
  interference holds under every schedule (\<open>schedule_exec\<close> below).
\<close>

section \<open>Programs\<close>

datatype ('s, 'e, 'a) prog =
    Done 'a
  | Step "'s \<Rightarrow> 'e list" "'s \<Rightarrow> 's" "'s \<Rightarrow> ('s, 'e, 'a) prog"

primrec pbind :: "('s, 'e, 'a) prog \<Rightarrow> ('a \<Rightarrow> ('s, 'e, 'b) prog) \<Rightarrow> ('s, 'e, 'b) prog" where
  "pbind (Done a) f = f a"
| "pbind (Step e u k) f = Step e u (\<lambda>s. pbind (k s) f)"

text \<open>Reading the state, changing it, emitting an event, and an atomic operation with a result.\<close>

definition get_state :: "('s \<Rightarrow> 'a) \<Rightarrow> ('s, 'e, 'a) prog" where
  "get_state f = Step (\<lambda>_. []) (\<lambda>s. s) (\<lambda>s. Done (f s))"

definition upd_state :: "('s \<Rightarrow> 's) \<Rightarrow> ('s, 'e, unit) prog" where
  "upd_state f = Step (\<lambda>_. []) f (\<lambda>_. Done ())"

definition emit :: "'e \<Rightarrow> ('s, 'e, unit) prog" where
  "emit e = Step (\<lambda>_. [e]) (\<lambda>s. s) (\<lambda>_. Done ())"

definition atomic :: "'e list \<Rightarrow> ('s \<Rightarrow> 'a \<times> 's) \<Rightarrow> ('s, 'e, 'a) prog" where
  "atomic es f = Step (\<lambda>_. es) (\<lambda>s. snd (f s)) (\<lambda>s. Done (fst (f s)))"

section \<open>Execution under interference\<close>

type_synonym 's interference = "nat \<Rightarrow> 's \<Rightarrow> 's"

primrec exec ::
  "'s interference \<Rightarrow> ('s, 'e, 'a) prog \<Rightarrow> nat \<Rightarrow> 's \<Rightarrow> 'a \<times> 'e list \<times> 's \<times> nat" where
  "exec I (Done a) = (\<lambda>n s. (a, [], s, n))"
| "exec I (Step e u k) = (\<lambda>n s.
     let s1 = I n s;
         (a, es, s2, m) = exec I (k s1) (Suc n) (u s1)
     in (a, e s1 @ es, s2, m))"

definition calm :: "'s interference" where
  "calm = (\<lambda>_ s. s)"

definition run :: "('s, 'e, 'a) prog \<Rightarrow> 's \<Rightarrow> 'a \<times> 'e list \<times> 's" where
  "run p s = (case exec calm p 0 s of (a, es, s', _) \<Rightarrow> (a, es, s'))"

lemma exec_bind:
  "exec I (pbind p f) n s =
     (case exec I p n s of (a, es, s1, n1) \<Rightarrow>
        (case exec I (f a) n1 s1 of (b, es', s2, n2) \<Rightarrow> (b, es @ es', s2, n2)))"
  by (induction p arbitrary: n s) (simp_all add: Let_def split: prod.splits)

lemma exec_calm_shift:
  "exec calm p n s = (a, es, s', m) \<Longrightarrow> \<exists>m'. exec calm p n' s = (a, es, s', m')"
proof (induction p arbitrary: n n' s a es s' m)
  case (Step e u k)
  then obtain a1 es1 where *: "exec calm (k s) (Suc n) (u s) = (a1, es1, s', m)" "a = a1" "es = e s @ es1"
    by (auto simp: calm_def Let_def split: prod.splits)
  from Step.IH [OF _ *(1), of "Suc n'"] * show ?case
    by (auto simp: calm_def Let_def)
qed simp

lemma run_Done [simp, go_exec]: "run (Done a) s = (a, [], s)"
  by (simp add: run_def)

lemma run_Step [go_exec]:
  "run (Step e u k) s = (case run (k s) (u s) of (a, es, s') \<Rightarrow> (a, e s @ es, s'))"
proof -
  obtain a es s' m where 0: "exec calm (k s) 0 (u s) = (a, es, s', m)" by (metis prod_cases4)
  then obtain m' where "exec calm (k s) (Suc 0) (u s) = (a, es, s', m')"
    by (meson exec_calm_shift)
  with 0 show ?thesis by (simp add: run_def calm_def Let_def)
qed

lemma run_bind [go_exec]:
  "run (pbind p f) s =
     (case run p s of (a, es, s1) \<Rightarrow>
        (case run (f a) s1 of (b, es', s2) \<Rightarrow> (b, es @ es', s2)))"
  by (induction p arbitrary: s) (simp_all add: run_Step split: prod.splits)

lemma run_get [go_exec]: "run (get_state f) s = (f s, [], s)"
  by (simp add: get_state_def run_Step)

lemma run_upd [go_exec]: "run (upd_state f) s = ((), [], f s)"
  by (simp add: upd_state_def run_Step)

lemma run_emit [go_exec]: "run (emit e) s = ((), [e], s)"
  by (simp add: emit_def run_Step)

lemma run_atomic [go_exec]: "run (atomic es f) s = (fst (f s), es, snd (f s))"
  by (simp add: atomic_def run_Step)

lemma exec_Done: "exec I (Done a) n s = (a, [], s, n)"
  by simp

lemma exec_get: "exec I (get_state f) n s = (f (I n s), [], I n s, Suc n)"
  by (simp add: get_state_def Let_def)

lemma exec_upd: "exec I (upd_state f) n s = ((), [], f (I n s), Suc n)"
  by (simp add: upd_state_def Let_def)

lemma exec_emit: "exec I (emit e) n s = ((), [e], I n s, Suc n)"
  by (simp add: emit_def Let_def)

lemma exec_atomic:
  "exec I (atomic es f) n s = (fst (f (I n s)), es, snd (f (I n s)), Suc n)"
  by (simp add: atomic_def Let_def)

lemmas exec_simps = exec_Done exec_bind exec_get exec_upd exec_emit exec_atomic

declare exec.simps [simp del]

lemma run_exec: "run p s = (a, es, s') \<longleftrightarrow> (\<exists>m. exec calm p 0 s = (a, es, s', m))"
  by (auto simp: run_def split: prod.splits)

section \<open>Undisturbed runs, backwards\<close>

text \<open>
  \<open>wp p Q w\<close>: the undisturbed run of \<open>p\<close> from \<open>w\<close> ends with a result, events and a state that
  satisfy \<open>Q\<close>. Its equations push a goal through a program from the front.
\<close>

definition wp :: "('s, 'e, 'a) prog \<Rightarrow> ('a \<Rightarrow> 'e list \<Rightarrow> 's \<Rightarrow> bool) \<Rightarrow> 's \<Rightarrow> bool" where
  "wp p Q s = (case run p s of (a, es, s') \<Rightarrow> Q a es s')"

named_theorems wp_steps \<open>equations that run one step of a program\<close>

lemma wp_Done [wp_steps]: "wp (Done a) Q = Q a []"
  by (simp add: wp_def fun_eq_iff)

lemma wp_bind [wp_steps]: "wp (pbind p f) Q = wp p (\<lambda>a es. wp (f a) (\<lambda>b es'. Q b (es @ es')))"
  by (simp add: wp_def run_bind fun_eq_iff split: prod.splits)

lemma wp_Step [wp_steps]: "wp (Step e u k) Q = (\<lambda>s. wp (k s) (\<lambda>a es. Q a (e s @ es)) (u s))"
  by (simp add: wp_def run_Step fun_eq_iff split: prod.splits)

lemma wp_get [wp_steps]: "wp (get_state f) Q = (\<lambda>s. Q (f s) [] s)"
  by (simp add: wp_def run_get fun_eq_iff)

lemma wp_upd [wp_steps]: "wp (upd_state f) Q = (\<lambda>s. Q () [] (f s))"
  by (simp add: wp_def run_upd fun_eq_iff)

lemma wp_emit [wp_steps]: "wp (emit e) Q = Q () [e]"
  by (simp add: wp_def run_emit fun_eq_iff)

lemma wp_atomic [wp_steps]: "wp (atomic es f) Q = (\<lambda>s. Q (fst (f s)) es (snd (f s)))"
  by (simp add: wp_def run_atomic fun_eq_iff)

lemma wp_mono: "wp p Q s \<Longrightarrow> (\<And>a es s'. run p s = (a, es, s') \<Longrightarrow> Q a es s' \<Longrightarrow> R a es s') \<Longrightarrow> wp p R s"
  by (auto simp: wp_def split: prod.splits)

lemma wp_run: "run p s = (a, es, s') \<Longrightarrow> wp p Q s \<Longrightarrow> Q a es s'"
  by (simp add: wp_def)

lemma wp_exists: "wp p Q s \<Longrightarrow> \<exists>a es s'. run p s = (a, es, s') \<and> Q a es s'"
  by (auto simp: wp_def split: prod.splits)

section \<open>What every execution of a program does\<close>

text \<open>
  \<open>outcomes p a es\<close>: some execution of \<open>p\<close>, under some interference, returns \<open>a\<close> after
  the events \<open>es\<close>. The state a step sees is arbitrary.
\<close>

inductive outcomes :: "('s, 'e, 'a) prog \<Rightarrow> 'a \<Rightarrow> 'e list \<Rightarrow> bool" where
  outcomes_Done: "outcomes (Done a) a []"
| outcomes_Step: "outcomes (k s) a es \<Longrightarrow> outcomes (Step e u k) a (e s @ es)"

inductive_simps outcomes_Done_iff [simp]: "outcomes (Done a) b es"
inductive_simps outcomes_Step_iff: "outcomes (Step e u k) b es"

lemma exec_outcomes: "exec I p n s = (a, es, s', m) \<Longrightarrow> outcomes p a es"
proof (induction p arbitrary: n s a es s' m)
  case (Done x)
  then show ?case by (simp add: exec.simps)
next
  case (Step e u k)
  then show ?case
    by (auto simp: exec.simps Let_def split: prod.splits intro!: outcomes_Step)
qed

lemma run_outcomes: "run p s = (a, es, s') \<Longrightarrow> outcomes p a es"
  by (auto simp: run_exec intro: exec_outcomes)

lemma outcomes_bind:
  "outcomes (pbind p f) b es \<longleftrightarrow>
     (\<exists>a es1 es2. outcomes p a es1 \<and> outcomes (f a) b es2 \<and> es = es1 @ es2)"
proof (induction p arbitrary: es)
  case (Step e u k)
  show ?case
    by (auto simp: outcomes_Step_iff Step.IH) (metis append.assoc, blast)
qed simp

lemma outcomes_bindE:
  assumes "outcomes (pbind p f) b es"
  obtains a es1 es2 where "outcomes p a es1" "outcomes (f a) b es2" "es = es1 @ es2"
  using assms unfolding outcomes_bind by blast

lemma outcomes_get [simp]: "outcomes (get_state f) a es \<longleftrightarrow> (\<exists>s. a = f s) \<and> es = []"
  by (auto simp: get_state_def outcomes_Step_iff)

lemma outcomes_upd [simp]: "outcomes (upd_state f) a es \<longleftrightarrow> es = []"
  by (auto simp: upd_state_def outcomes_Step_iff)

lemma outcomes_emit [simp]: "outcomes (emit e) a es \<longleftrightarrow> es = [e]"
  by (auto simp: emit_def outcomes_Step_iff)

lemma outcomes_atomic [simp]: "outcomes (atomic es f) a es' \<longleftrightarrow> (\<exists>s. a = fst (f s)) \<and> es' = es"
  by (auto simp: atomic_def outcomes_Step_iff)

section \<open>Outcomes under a stable assertion\<close>

text \<open>
  When an assertion on the state holds at the start, and neither the interference nor the
  steps of the program break it, the program only ever sees states that satisfy it.
\<close>

inductive outs :: "('s \<Rightarrow> bool) \<Rightarrow> ('s, 'e, 'a) prog \<Rightarrow> 'a \<Rightarrow> 'e list \<Rightarrow> bool" for P where
  outs_Done: "outs P (Done a) a []"
| outs_Step: "P s \<Longrightarrow> outs P (k s) a es \<Longrightarrow> outs P (Step e u k) a (e s @ es)"

inductive_simps outs_Done_iff [simp]: "outs P (Done a) b es"
inductive_simps outs_Step_iff: "outs P (Step e u k) b es"

primrec preserves :: "('s \<Rightarrow> bool) \<Rightarrow> ('s, 'e, 'a) prog \<Rightarrow> bool" where
  "preserves P (Done a) \<longleftrightarrow> True"
| "preserves P (Step e u k) \<longleftrightarrow> (\<forall>s. P s \<longrightarrow> P (u s) \<and> preserves P (k s))"

definition stable :: "('s \<Rightarrow> bool) \<Rightarrow> 's interference \<Rightarrow> bool" where
  "stable P I \<longleftrightarrow> (\<forall>n s. P s \<longrightarrow> P (I n s))"

lemma exec_outs:
  assumes "stable P I" "preserves P p" "P s" "exec I p n s = (a, es, s', m)"
  shows "outs P p a es \<and> P s'"
  using assms(2-)
proof (induction p arbitrary: n s a es s' m)
  case (Done x)
  then show ?case by (simp add: exec.simps)
next
  case (Step e u k)
  let ?s = "I n s"
  from assms(1) Step.prems have s: "P ?s" by (simp add: stable_def)
  obtain b es1 where rest: "exec I (k ?s) (Suc n) (u ?s) = (b, es1, s', m)" "a = b" "es = e ?s @ es1"
    using Step.prems(3) by (auto simp: exec.simps Let_def split: prod.splits)
  from Step.prems(1) s have "preserves P (k ?s)" "P (u ?s)" by auto
  from Step.IH [OF _ this rest(1)] rest s show ?case by (auto intro: outs_Step)
qed

lemma outs_bind:
  "outs P (pbind p f) b es \<longleftrightarrow> (\<exists>a es1 es2. outs P p a es1 \<and> outs P (f a) b es2 \<and> es = es1 @ es2)"
proof (induction p arbitrary: es)
  case (Step e u k)
  show ?case
    by (auto simp: outs_Step_iff Step.IH) (metis append.assoc, blast)
qed simp

lemma outs_bindE:
  assumes "outs P (pbind p f) b es"
  obtains a es1 es2 where "outs P p a es1" "outs P (f a) b es2" "es = es1 @ es2"
  using assms unfolding outs_bind by blast

lemma outs_get [simp]: "outs P (get_state f) a es \<longleftrightarrow> (\<exists>s. P s \<and> a = f s) \<and> es = []"
  by (auto simp: get_state_def outs_Step_iff)

lemma outs_upd [simp]: "outs P (upd_state f) a es \<longleftrightarrow> (\<exists>s. P s) \<and> es = []"
  by (auto simp: upd_state_def outs_Step_iff)

lemma outs_emit [simp]: "outs P (emit e) a es \<longleftrightarrow> (\<exists>s. P s) \<and> es = [e]"
  by (auto simp: emit_def outs_Step_iff)

lemma outs_atomic [simp]: "outs P (atomic es f) a es' \<longleftrightarrow> (\<exists>s. P s \<and> a = fst (f s)) \<and> es' = es"
  by (auto simp: atomic_def outs_Step_iff)

lemma preserves_bind: "preserves P p \<Longrightarrow> (\<And>a. preserves P (f a)) \<Longrightarrow> preserves P (pbind p f)"
  by (induction p) auto

lemma preserves_get [simp]: "preserves P (get_state f)"
  by (simp add: get_state_def)

lemma preserves_emit [simp]: "preserves P (emit e)"
  by (simp add: emit_def)

lemma preserves_atomic: "(\<And>s. P s \<Longrightarrow> P (snd (f s))) \<Longrightarrow> preserves P (atomic es f)"
  by (simp add: atomic_def)

lemma stable_calm [simp]: "stable P calm"
  by (simp add: stable_def calm_def)

section \<open>Scheduling\<close>

text \<open>
  A pool of goroutines over one shared state. A scheduler step lets one goroutine do one
  step, or the environment change the state by a relation \<open>R\<close>.
\<close>

inductive sched :: "('s \<Rightarrow> 's \<Rightarrow> bool) \<Rightarrow>
    ('s, 'e, 'a) prog list \<times> 's \<Rightarrow> (nat \<times> 'e) list \<Rightarrow> ('s, 'e, 'a) prog list \<times> 's \<Rightarrow> bool"
  for R where
  sched_refl: "sched R c [] c"
| sched_step: "i < length ps \<Longrightarrow> ps ! i = Step e u k \<Longrightarrow>
    sched R (ps[i := k s], u s) tr c \<Longrightarrow>
    sched R (ps, s) (map (Pair i) (e s) @ tr) c"
| sched_env: "R s s' \<Longrightarrow> sched R (ps, s') tr c \<Longrightarrow> sched R (ps, s) tr c"

inductive_cases sched_stepE: "sched R (ps, s) tr c"

definition own :: "nat \<Rightarrow> (nat \<times> 'e) list \<Rightarrow> 'e list" where
  "own i tr = map snd (filter (\<lambda>x. fst x = i) tr)"

lemma own_simps [simp]:
  "own i [] = []"
  "own i (xs @ ys) = own i xs @ own i ys"
  "own i (map (Pair j) es) = (if i = j then es else [])"
  by (auto simp: own_def comp_def filter_empty_conv)

text \<open>
  A goroutine that a schedule runs to completion has returned one of its outcomes, with the
  events it emitted itself.
\<close>

lemma sched_outcomes:
  assumes "sched R c tr c'" "i < length (fst c)" "fst c' ! i = Done a"
  shows "outcomes (fst c ! i) a (own i tr)"
  using assms
proof (induction rule: sched.induct)
  case (sched_step j ps e u k s tr c)
  then have *: "outcomes (ps[j := k s] ! i) a (own i tr)" by simp
  show ?case
  proof (cases "j = i")
    case True
    with * sched_step.hyps sched_step.prems show ?thesis
      by (simp add: outcomes_Step)
  next
    case False
    with * show ?thesis by auto
  qed
qed (auto intro: outcomes_Done)

end
