(* ===== verification/Runtime.thy ===== *)
theory Runtime
  imports Go_Prog Bot_Model "HOL-Library.AList"
begin

text \<open>
  The state the goroutines of the service share: the Redis server and the network (both
  abstract), the contexts, the pipeline entries of the service (\<open>sync.Map\<close>), the
  goroutines that were launched, the process environment, the clock and the random source;
  and the operations of packages \<open>context\<close>, \<open>os\<close>, \<open>time\<close>, \<open>sync\<close> and \<open>math/rand\<close> on it.
\<close>

section \<open>Contexts\<close>

text \<open>
  A context is the list of its cancellation points, its own first; \<open>context.Background()\<close>
  has none. A context is done when one of its points is.
\<close>

type_synonym ctx = "nat list"

datatype ctx_error = Canceled | DeadlineExceeded

abbreviation Background :: ctx where "Background \<equiv> []"

section \<open>The shared state\<close>

text \<open>\<open>pipelineEntry\<close>: the cancel function of an entry cancels the entry's own context.\<close>

record pipelineEntry =
  en_ctx :: ctx
  en_cfg :: BotConfig
  en_postbackURL :: string
  en_outgoingURL :: string
  en_apiKey :: string
  en_metadata :: metadata

text \<open>The goroutines the program launches, with their arguments.\<close>

datatype goroutine =
    GoAI ctx int64 int64 string "Attachment list" BotConfig string
  | GoDispatch ctx int64 int64 string BotConfig string
  | GoProcess MessageEvent
  | GoPoll

record ('r, 'n) world =
  w_redis :: 'r
  w_net :: 'n
  w_ctx_err :: "nat \<Rightarrow> ctx_error option"
  w_next_ctx :: nat
  w_entries :: "(string \<times> pipelineEntry) list"
  w_launched :: "goroutine list"
  w_stop :: bool
  w_stopped :: bool
  w_env :: "string \<Rightarrow> string option"
  w_now :: string
  w_draws :: "int list"

text \<open>What a goroutine can be seen doing.\<close>

record http_request =
  hr_Method :: string
  hr_URL :: string
  hr_Headers :: "(string \<times> string) list"
  hr_Body :: string

datatype redis_cmd =
    CmdSet string string duration
  | CmdGet string
  | CmdDel "string list"
  | CmdRPush string "string list"
  | CmdLRange string
  | CmdExpire string duration
  | CmdExists string
  | CmdScan nat
  | CmdPing
  | CmdLock string
  | CmdUnlock string

datatype event =
    EvRedis redis_cmd
  | EvDo http_request
  | EvHttp http_request
  | EvSleep duration
  | EvGo goroutine
  | EvCancel nat
  | EvRespond int "(string \<times> string) list"

type_synonym ('r, 'n, 'a) go = "(('r, 'n) world, event, 'a) prog"

section \<open>Package context\<close>

fun ctx_Err :: "('r, 'n) world \<Rightarrow> ctx \<Rightarrow> ctx_error option" where
  "ctx_Err w [] = None"
| "ctx_Err w (i # c) = (case w_ctx_err w i of Some e \<Rightarrow> Some e | None \<Rightarrow> ctx_Err w c)"

definition ctx_done :: "('r, 'n) world \<Rightarrow> ctx \<Rightarrow> bool" where
  "ctx_done w c \<longleftrightarrow> ctx_Err w c \<noteq> None"

lemma ctx_Err_None: "ctx_Err w c = None \<longleftrightarrow> (\<forall>i \<in> set c. w_ctx_err w i = None)"
  by (induction c) (auto split: option.splits)

lemma ctx_done_iff: "ctx_done w c \<longleftrightarrow> (\<exists>i \<in> set c. w_ctx_err w i \<noteq> None)"
  by (auto simp: ctx_done_def ctx_Err_None)

lemma not_done_Background [simp]: "\<not> ctx_done w Background"
  by (simp add: ctx_done_def)

text \<open>The first cause stays: a cancel of a context that is done does nothing.\<close>

definition finish_ctx :: "ctx_error \<Rightarrow> ctx \<Rightarrow> ('r, 'n) world \<Rightarrow> ('r, 'n) world" where
  "finish_ctx e c w =
     (if c = [] \<or> ctx_done w c then w
      else w \<lparr> w_ctx_err := (w_ctx_err w)(hd c := Some e) \<rparr>)"

text \<open>
  \<open>WithCancel\<close> and \<open>WithTimeout\<close>: a fresh point below the parent's. A deadline that is not
  in the future ends the new context at once; that a later one passes is an interference,
  \<open>expire\<close>, which may come at any time.
\<close>

definition WithCancel :: "ctx \<Rightarrow> ('r, 'n, ctx) go" where
  "WithCancel parent = atomic []
     (\<lambda>w. (w_next_ctx w # parent, w \<lparr> w_next_ctx := Suc (w_next_ctx w) \<rparr>))"

definition WithTimeout :: "ctx \<Rightarrow> duration \<Rightarrow> ('r, 'n, ctx) go" where
  "WithTimeout parent d = atomic []
     (\<lambda>w. let c = w_next_ctx w # parent;
               w' = w \<lparr> w_next_ctx := Suc (w_next_ctx w) \<rparr>
           in (c, if sint d \<le> 0 then finish_ctx DeadlineExceeded c w' else w'))"

definition cancel :: "ctx \<Rightarrow> ('r, 'n, unit) go" where
  "cancel c = Step (\<lambda>_. if c = [] then [] else [EvCancel (hd c)]) (finish_ctx Canceled c) (\<lambda>_. Done ())"

definition expire :: "ctx \<Rightarrow> ('r, 'n) world \<Rightarrow> ('r, 'n) world" where
  "expire c = finish_ctx DeadlineExceeded c"

lemma finish_ctx_done: "c \<noteq> [] \<Longrightarrow> ctx_done (finish_ctx e c w) c"
  by (cases c) (auto simp: finish_ctx_def ctx_done_iff)

lemma finish_ctx_mono: "ctx_done w c' \<Longrightarrow> ctx_done (finish_ctx e c w) c'"
  by (auto simp: finish_ctx_def ctx_done_iff)

section \<open>sync.Map, goroutines, time, os, math/rand\<close>

definition entries_Load :: "('r, 'n) world \<Rightarrow> string \<Rightarrow> pipelineEntry option" where
  "entries_Load w k = map_of (w_entries w) k"

definition entries_put :: "string \<Rightarrow> pipelineEntry \<Rightarrow> ('r, 'n) world \<Rightarrow> ('r, 'n) world" where
  "entries_put k e w = w \<lparr> w_entries := AList.update k e (w_entries w) \<rparr>"

definition entries_drop :: "string \<Rightarrow> ('r, 'n) world \<Rightarrow> ('r, 'n) world" where
  "entries_drop k w = w \<lparr> w_entries := AList.delete k (w_entries w) \<rparr>"

definition Load :: "string \<Rightarrow> ('r, 'n, pipelineEntry option) go" where
  "Load k = get_state (\<lambda>w. entries_Load w k)"

definition Store :: "string \<Rightarrow> pipelineEntry \<Rightarrow> ('r, 'n, unit) go" where
  "Store k e = upd_state (entries_put k e)"

definition Delete :: "string \<Rightarrow> ('r, 'n, unit) go" where
  "Delete k = upd_state (entries_drop k)"

definition LoadAndDelete :: "string \<Rightarrow> ('r, 'n, pipelineEntry option) go" where
  "LoadAndDelete k = atomic [] (\<lambda>w. (entries_Load w k, entries_drop k w))"

definition go_launch :: "goroutine \<Rightarrow> ('r, 'n, unit) go" where
  "go_launch g = Step (\<lambda>_. [EvGo g]) (\<lambda>w. w \<lparr> w_launched := w_launched w @ [g] \<rparr>) (\<lambda>_. Done ())"

text \<open>\<open>time.Now()\<close>, as the text the state stores.\<close>

definition Now :: "('r, 'n, string) go" where
  "Now = get_state w_now"

text \<open>
  \<open>select { case <-ctx.Done(): ... case <-time.After(d): ... }\<close>: \<open>False\<close> when the context
  was done while waiting.
\<close>

definition Sleep :: "ctx \<Rightarrow> duration \<Rightarrow> ('r, 'n, bool) go" where
  "Sleep c d = pbind (emit (EvSleep d)) (\<lambda>_. get_state (\<lambda>w. \<not> ctx_done w c))"

text \<open>\<open>select { case <-ctx.Done(): ... default: ... }\<close> and \<open>ctx.Err() != nil\<close>.\<close>

definition is_done :: "ctx \<Rightarrow> ('r, 'n, bool) go" where
  "is_done c = get_state (\<lambda>w. ctx_done w c)"

definition get_Err :: "ctx \<Rightarrow> ('r, 'n, ctx_error option) go" where
  "get_Err c = get_state (\<lambda>w. ctx_Err w c)"

definition LookupEnv :: "string \<Rightarrow> ('r, 'n, string option) go" where
  "LookupEnv k = get_state (\<lambda>w. w_env w k)"

definition Getenv :: "string \<Rightarrow> ('r, 'n, string) go" where
  "Getenv k = get_state (\<lambda>w. case w_env w k of None \<Rightarrow> [] | Some v \<Rightarrow> v)"

text \<open>\<open>rand.Int63n(n)\<close>, for positive \<open>n\<close>: a value between 0 and \<open>n - 1\<close> from the source.\<close>

definition Int63n :: "int \<Rightarrow> ('r, 'n, int) go" where
  "Int63n n = atomic []
     (\<lambda>w. case w_draws w of
            [] \<Rightarrow> (0, w)
          | x # xs \<Rightarrow> (x mod n, w \<lparr> w_draws := xs \<rparr>))"

text \<open>The state of a process that just started.\<close>

definition boot_world :: "'r \<Rightarrow> 'n \<Rightarrow> ('r, 'n) world" where
  "boot_world r n = \<lparr> w_redis = r, w_net = n, w_ctx_err = (\<lambda>_. None), w_next_ctx = 1,
     w_entries = [], w_launched = [], w_stop = False, w_stopped = False,
     w_env = (\<lambda>_. None), w_now = ''2025-01-01T00:00:00Z'', w_draws = [] \<rparr>"

lemmas runtime_defs = WithCancel_def WithTimeout_def cancel_def Load_def Store_def Delete_def
  LoadAndDelete_def go_launch_def Now_def Sleep_def is_done_def get_Err_def LookupEnv_def Getenv_def

lemma entries_Load_put [simp]:
  "entries_Load (entries_put k e w) k' = (if k = k' then Some e else entries_Load w k')"
  by (auto simp: entries_Load_def entries_put_def update_conv')

lemma entries_Load_drop [simp]:
  "entries_Load (entries_drop k w) k' = (if k = k' then None else entries_Load w k')"
  by (auto simp: entries_Load_def entries_drop_def delete_conv')

section \<open>Outcomes of the runtime's operations\<close>

lemma outcomes_is_doneE:
  assumes "outcomes (pbind (is_done c :: ('r, 'n, bool) go) f) r es"
  obtains b where "outcomes (f b) r es"
  using assms by (auto simp: is_done_def outcomes_bind)

lemma outcomes_cancel [simp]:
  "outcomes (cancel c :: ('r, 'n, unit) go) x es \<longleftrightarrow> es = (if c = [] then [] else [EvCancel (hd c)])"
  by (auto simp: cancel_def outcomes_Step_iff)

lemma outcomes_WithTimeoutE:
  assumes "outcomes (pbind (WithTimeout c d :: ('r, 'n, ctx) go) f) r es"
  obtains i where "outcomes (f (i # c)) r es"
  using assms by (auto simp: WithTimeout_def outcomes_bind Let_def)

lemma outcomes_pbind_Done:
  "outcomes (pbind p (\<lambda>x. Done (f x))) r es \<longleftrightarrow> (\<exists>a. outcomes p a es \<and> r = f a)"
  by (auto simp: outcomes_bind)

text \<open>A deferred cancel: the result stays, one event is added.\<close>

lemma outcomes_defer_cancelE:
  assumes "outcomes (pbind p (\<lambda>x. pbind (cancel (i # c) :: ('r, 'n, unit) go) (\<lambda>_. Done x))) r es"
  obtains es1 where "outcomes p r es1" "es = es1 @ [EvCancel i]"
  using assms by (auto simp: outcomes_bind)

section \<open>Contexts of a live call\<close>

text \<open>The context was issued, is not done, and the points still to be issued are untouched.\<close>

definition live :: "('r, 'n) world \<Rightarrow> ctx \<Rightarrow> bool" where
  "live w c \<longleftrightarrow> \<not> ctx_done w c \<and> (\<forall>i \<in> set c. i < w_next_ctx w) \<and>
     (\<forall>i \<ge> w_next_ctx w. w_ctx_err w i = None)"

lemma live_child: "live w c \<Longrightarrow> live (w \<lparr> w_next_ctx := Suc (w_next_ctx w) \<rparr>) (w_next_ctx w # c)"
  by (auto simp: live_def ctx_done_iff)

lemma live_finish_child:
  "live w c \<Longrightarrow>
     live (finish_ctx e (w_next_ctx w # c) (w \<lparr> w_next_ctx := Suc (w_next_ctx w) \<rparr>)) c"
  by (auto simp: live_def ctx_done_iff finish_ctx_def)

lemma live_boot: "live (boot_world r n) Background"
  by (simp add: live_def boot_world_def ctx_done_iff)

section \<open>A context that is done stays done\<close>

named_theorems keeps_done \<open>programs that leave a finished context finished\<close>

abbreviation done_in :: "ctx \<Rightarrow> ('r, 'n) world \<Rightarrow> bool" where
  "done_in c \<equiv> \<lambda>w. ctx_done w c"

lemma ctx_done_err: "w_ctx_err w' = w_ctx_err w \<Longrightarrow> ctx_done w' c = ctx_done w c"
  by (simp add: ctx_done_iff)

lemma ctx_done_next [simp]: "ctx_done (w \<lparr> w_next_ctx := n \<rparr>) c = ctx_done w c"
  by (rule ctx_done_err) simp

lemma keeps_done_WithCancel [keeps_done]: "preserves (done_in c) (WithCancel p :: ('r, 'n, ctx) go)"
  unfolding WithCancel_def by (rule preserves_atomic) simp

lemma keeps_done_WithTimeout [keeps_done]: "preserves (done_in c) (WithTimeout p d :: ('r, 'n, ctx) go)"
  unfolding WithTimeout_def by (rule preserves_atomic) (simp add: Let_def finish_ctx_mono)

lemma keeps_done_cancel [keeps_done]: "preserves (done_in c) (cancel q :: ('r, 'n, unit) go)"
  by (simp add: cancel_def finish_ctx_mono)

lemma keeps_done_Int63n [keeps_done]: "preserves (done_in c) (Int63n n :: ('r, 'n, int) go)"
  unfolding Int63n_def by (rule preserves_atomic) (simp add: ctx_done_iff split: list.splits)

lemma keeps_done_get [keeps_done]:
  "preserves (done_in c) (is_done q :: ('r, 'n, bool) go)"
  "preserves (done_in c) (get_Err q :: ('r, 'n, ctx_error option) go)"
  "preserves (done_in c) (Getenv k :: ('r, 'n, string) go)"
  by (simp_all add: is_done_def get_Err_def Getenv_def)

lemma keeps_done_Sleep [keeps_done]: "preserves (done_in c) (Sleep q d :: ('r, 'n, bool) go)"
  by (simp add: Sleep_def preserves_bind)

lemma keeps_done_bind [keeps_done]:
  "preserves (done_in c) p \<Longrightarrow> (\<And>a. preserves (done_in c) (f a)) \<Longrightarrow>
     preserves (done_in c) (pbind p f)"
  by (rule preserves_bind)

lemma outs_is_done: "c \<noteq> [] \<Longrightarrow> outs (done_in q) (is_done c :: ('r, 'n, bool) go) b es \<Longrightarrow>
    set q \<subseteq> set c \<Longrightarrow> b \<and> es = []"
  by (auto simp: is_done_def ctx_done_iff)

lemma outs_WithTimeoutE:
  assumes "outs P (pbind (WithTimeout c d :: ('r, 'n, ctx) go) f) r es"
  obtains i where "outs P (f (i # c)) r es"
  using assms by (auto simp: WithTimeout_def outs_bind Let_def)

section \<open>The operations, backwards\<close>

lemma wp_WithCancel [wp_steps]:
  "wp (WithCancel c) Q = (\<lambda>w. Q (w_next_ctx w # c) [] (w \<lparr> w_next_ctx := Suc (w_next_ctx w) \<rparr>))"
  by (simp add: WithCancel_def wp_steps)

lemma wp_WithTimeout:
  "0 < sint d \<Longrightarrow>
   wp (WithTimeout c d) Q = (\<lambda>w. Q (w_next_ctx w # c) [] (w \<lparr> w_next_ctx := Suc (w_next_ctx w) \<rparr>))"
  by (simp add: WithTimeout_def wp_steps)

lemma wp_cancel [wp_steps]:
  "wp (cancel c) Q = (\<lambda>w. Q () (if c = [] then [] else [EvCancel (hd c)]) (finish_ctx Canceled c w))"
  by (simp add: cancel_def wp_steps)

lemma wp_entries [wp_steps]:
  "wp (Load k) Q1 = (\<lambda>w. Q1 (entries_Load w k) [] w)"
  "wp (Store k e) Q2 = (\<lambda>w. Q2 () [] (entries_put k e w))"
  "wp (Delete k) Q2 = (\<lambda>w. Q2 () [] (entries_drop k w))"
  "wp (LoadAndDelete k) Q1 = (\<lambda>w. Q1 (entries_Load w k) [] (entries_drop k w))"
  by (simp_all add: runtime_defs wp_steps)

lemma wp_go_launch [wp_steps]:
  "wp (go_launch g) Q = (\<lambda>w. Q () [EvGo g] (w \<lparr> w_launched := w_launched w @ [g] \<rparr>))"
  by (simp add: go_launch_def wp_steps)

lemma wp_reads [wp_steps]:
  "wp Now Q1 = (\<lambda>w. Q1 (w_now w) [] w)"
  "wp (is_done c) Q2 = (\<lambda>w. Q2 (ctx_done w c) [] w)"
  "wp (get_Err c) Q3 = (\<lambda>w. Q3 (ctx_Err w c) [] w)"
  "wp (LookupEnv k) Q4 = (\<lambda>w. Q4 (w_env w k) [] w)"
  by (simp_all add: runtime_defs wp_steps)

text \<open>What the changes of the contexts and of the entries leave alone.\<close>

lemma finish_ctx_fields [simp]:
  "w_redis (finish_ctx e c w) = w_redis w" "w_net (finish_ctx e c w) = w_net w"
  "w_entries (finish_ctx e c w) = w_entries w" "w_launched (finish_ctx e c w) = w_launched w"
  "w_next_ctx (finish_ctx e c w) = w_next_ctx w" "w_stop (finish_ctx e c w) = w_stop w"
  "w_stopped (finish_ctx e c w) = w_stopped w" "w_env (finish_ctx e c w) = w_env w"
  "w_now (finish_ctx e c w) = w_now w"
  by (simp_all add: finish_ctx_def)

lemma entries_put_fields [simp]:
  "w_redis (entries_put k x w) = w_redis w" "w_launched (entries_put k x w) = w_launched w"
  "w_next_ctx (entries_put k x w) = w_next_ctx w" "w_now (entries_put k x w) = w_now w"
  "w_env (entries_put k x w) = w_env w" "w_ctx_err (entries_put k x w) = w_ctx_err w"
  by (simp_all add: entries_put_def)

lemma entries_drop_fields [simp]:
  "w_redis (entries_drop k w) = w_redis w" "w_launched (entries_drop k w) = w_launched w"
  "w_next_ctx (entries_drop k w) = w_next_ctx w" "w_now (entries_drop k w) = w_now w"
  "w_env (entries_drop k w) = w_env w" "w_ctx_err (entries_drop k w) = w_ctx_err w"
  by (simp_all add: entries_drop_def)

lemma entries_Load_fields [simp]:
  "entries_Load (w \<lparr> w_next_ctx := n \<rparr>) k = entries_Load w k"
  "entries_Load (w \<lparr> w_launched := l \<rparr>) k = entries_Load w k"
  "entries_Load (finish_ctx e c w) k = entries_Load w k"
  by (simp_all add: entries_Load_def)

lemma entries_Load_cong: "w_entries w' = w_entries w \<Longrightarrow> entries_Load w' k = entries_Load w k"
  by (simp add: entries_Load_def)

section \<open>Programs that mind their own business\<close>

text \<open>
  What a call to another service leaves alone: the store, the entries, the goroutines, the
  process environment, and every context that existed before.
\<close>

definition quiet :: "('r, 'n) world \<Rightarrow> ('r, 'n) world \<Rightarrow> bool" where
  "quiet w w' \<longleftrightarrow> w_redis w' = w_redis w \<and> w_entries w' = w_entries w \<and>
     w_launched w' = w_launched w \<and> w_stop w' = w_stop w \<and> w_stopped w' = w_stopped w \<and>
     w_env w' = w_env w \<and> w_now w' = w_now w \<and> w_next_ctx w \<le> w_next_ctx w' \<and>
     (\<forall>i < w_next_ctx w. w_ctx_err w' i = w_ctx_err w i) \<and>
     (\<forall>i \<ge> w_next_ctx w'. w_ctx_err w' i = w_ctx_err w i)"

definition quiet_prog :: "('r, 'n, 'a) go \<Rightarrow> bool" where
  "quiet_prog p \<longleftrightarrow> (\<forall>w. wp p (\<lambda>_ _. quiet w) w)"

named_theorems quietly \<open>programs that leave the state of the service alone\<close>

lemma quiet_refl [simp]: "quiet w w"
  by (simp add: quiet_def)

lemma quiet_trans: "quiet w w1 \<Longrightarrow> quiet w1 w2 \<Longrightarrow> quiet w w2"
  by (auto simp: quiet_def)

lemma quiet_run: "quiet_prog p \<Longrightarrow> run p w = (r, es, w') \<Longrightarrow> quiet w w'"
  by (auto simp: quiet_prog_def wp_def split: prod.splits)

lemma quietly_Done [quietly]: "quiet_prog (Done a)"
  by (simp add: quiet_prog_def wp_steps)

lemma quietly_get [quietly]: "quiet_prog (get_state f)"
  by (simp add: quiet_prog_def wp_get)

lemma quietly_emit [quietly]: "quiet_prog (emit e)"
  by (simp add: quiet_prog_def wp_emit)

lemma quietly_bind [quietly]: "quiet_prog p \<Longrightarrow> (\<And>a. quiet_prog (f a)) \<Longrightarrow> quiet_prog (pbind p f)"
  unfolding quiet_prog_def wp_bind by (blast intro: wp_mono quiet_trans)

lemma quietly_Int63n [quietly]: "quiet_prog (Int63n n)"
  by (simp add: quiet_prog_def Int63n_def wp_atomic quiet_def split: list.splits)

lemma quietly_reads [quietly]:
  "quiet_prog (is_done c)" "quiet_prog (get_Err c)" "quiet_prog (Getenv k)" "quiet_prog (LookupEnv k)"
  "quiet_prog Now" "quiet_prog (Sleep c d)"
  by (simp_all add: runtime_defs Getenv_def quietly)

text \<open>A child context that is cancelled at the end.\<close>

lemma quiet_next: "quiet w (w \<lparr> w_next_ctx := Suc (w_next_ctx w) \<rparr>)"
  by (simp add: quiet_def)

lemma quiet_finish_fresh:
  "quiet w w1 \<Longrightarrow> w_next_ctx w \<le> i \<Longrightarrow> i < w_next_ctx w1 \<Longrightarrow> quiet w (finish_ctx e (i # c) w1)"
  by (auto simp: quiet_def finish_ctx_def)

lemma quietly_WithTimeout [quietly]:
  assumes "\<And>t. quiet_prog (p t)"
  shows "quiet_prog (pbind (WithTimeout c d) (\<lambda>t. pbind (p t) (\<lambda>r. pbind (cancel t) (\<lambda>_. Done (f r)))))"
proof -
  have "wp (p t) (\<lambda>a es w1. quiet w (finish_ctx Canceled (w_next_ctx w # c) w1)) w0"
    if "quiet w w0" "w_next_ctx w < w_next_ctx w0" for t and w w0 :: "('a, 'b) world"
  proof -
    have "wp (p t) (\<lambda>_ _. quiet w0) w0" using assms by (simp add: quiet_prog_def)
    moreover have "quiet w (finish_ctx Canceled (w_next_ctx w # c) w1)" if "quiet w0 w1" for w1
    proof -
      have "w_next_ctx w0 \<le> w_next_ctx w1" using that by (simp add: quiet_def)
      with \<open>w_next_ctx w < w_next_ctx w0\<close> show ?thesis
        by (intro quiet_finish_fresh quiet_trans [OF \<open>quiet w w0\<close> that]) simp_all
    qed
    ultimately show ?thesis by (auto intro: wp_mono)
  qed
  then show ?thesis
    by (simp add: quiet_prog_def wp_bind WithTimeout_def wp_atomic Let_def cancel_def wp_Step wp_Done
        quiet_next quiet_finish_fresh)
qed

end
