(* ===== verification/Redis_Client.thy ===== *)
theory Redis_Client
  imports Runtime
begin

text \<open>
  The two third-party clients of the repository, go-redis and redsync, as parameters: one
  function per command on an abstract server state, which is told whether the context of
  the call is done and answers with an error or a result. \<open>redis_laws\<close> is the documented
  behaviour the program relies on: a command that answers without an error had its effect
  on the keys, read through a view of the server state as a map from keys to values; one
  that answers with an error had it or did nothing. \<open>mem_client\<close> is a server in memory that
  obeys the laws.
\<close>

section \<open>The clients\<close>

datatype redis_value = RStr string | RList "string list"

type_synonym redis_db = "string \<Rightarrow> redis_value option"

text \<open>A lock held: the name of the mutex and the random token redsync stored in it.\<close>

record mutex =
  mx_name :: string
  mx_token :: nat

record 'r redis_client =
  rc_Set :: "bool \<Rightarrow> string \<Rightarrow> string \<Rightarrow> duration \<Rightarrow> 'r \<Rightarrow> go_error option \<times> 'r"
  rc_Get :: "bool \<Rightarrow> string \<Rightarrow> 'r \<Rightarrow> (go_error + string option) \<times> 'r"
  rc_Del :: "bool \<Rightarrow> string list \<Rightarrow> 'r \<Rightarrow> go_error option \<times> 'r"
  rc_RPush :: "bool \<Rightarrow> string \<Rightarrow> string list \<Rightarrow> 'r \<Rightarrow> go_error option \<times> 'r"
  rc_LRange :: "bool \<Rightarrow> string \<Rightarrow> 'r \<Rightarrow> (go_error + string list) \<times> 'r"
  rc_Expire :: "bool \<Rightarrow> string \<Rightarrow> duration \<Rightarrow> 'r \<Rightarrow> go_error option \<times> 'r"
  rc_Exists :: "bool \<Rightarrow> string \<Rightarrow> 'r \<Rightarrow> (go_error + nat) \<times> 'r"
  rc_Scan :: "bool \<Rightarrow> nat \<Rightarrow> 'r \<Rightarrow> (go_error + string list \<times> nat) \<times> 'r"
  rc_Ping :: "bool \<Rightarrow> 'r \<Rightarrow> go_error option \<times> 'r"
  rc_Lock :: "bool \<Rightarrow> string \<Rightarrow> 'r \<Rightarrow> (go_error + mutex) \<times> 'r"
  rc_Unlock :: "mutex \<Rightarrow> 'r \<Rightarrow> bool \<times> 'r"

text \<open>A command as an atomic step of a goroutine.\<close>

definition redis_op ::
  "redis_cmd \<Rightarrow> ctx \<Rightarrow> (bool \<Rightarrow> 'r \<Rightarrow> 'a \<times> 'r) \<Rightarrow> ('r, 'n, 'a) go" where
  "redis_op c ctx f = atomic [EvRedis c]
     (\<lambda>w. case f (ctx_done w ctx) (w_redis w) of (a, r) \<Rightarrow> (a, w \<lparr> w_redis := r \<rparr>))"

section \<open>Documented behaviour\<close>

definition list_at :: "redis_db \<Rightarrow> string \<Rightarrow> string list" where
  "list_at db k = (case db k of Some (RList xs) \<Rightarrow> xs | _ \<Rightarrow> [])"

definition is_list :: "redis_db \<Rightarrow> string \<Rightarrow> bool" where
  "is_list db k \<longleftrightarrow> (case db k of Some (RStr _) \<Rightarrow> False | _ \<Rightarrow> True)"

definition is_str :: "redis_db \<Rightarrow> string \<Rightarrow> bool" where
  "is_str db k \<longleftrightarrow> (case db k of Some (RList _) \<Rightarrow> False | _ \<Rightarrow> True)"

definition del_keys :: "redis_db \<Rightarrow> string list \<Rightarrow> redis_db" where
  "del_keys db ks = (\<lambda>k. if k \<in> set ks then None else db k)"

text \<open>A write took effect; or it failed, and nobody knows.\<close>

definition wrote :: "go_error option \<Rightarrow> redis_db \<Rightarrow> redis_db \<Rightarrow> redis_db \<Rightarrow> bool" where
  "wrote e db want db' \<longleftrightarrow> (case e of None \<Rightarrow> db' = want | Some _ \<Rightarrow> db' = db \<or> db' = want)"

definition Set_law :: "'r redis_client \<Rightarrow> ('r \<Rightarrow> redis_db) \<Rightarrow> bool" where
  "Set_law rc view \<longleftrightarrow>
     (\<forall>d k v ttl r e r'. rc_Set rc d k v ttl r = (e, r') \<longrightarrow>
        wrote e (view r) ((view r)(k \<mapsto> RStr v)) (view r'))"

definition Get_law :: "'r redis_client \<Rightarrow> ('r \<Rightarrow> redis_db) \<Rightarrow> bool" where
  "Get_law rc view \<longleftrightarrow>
     (\<forall>d k r a r'. rc_Get rc d k r = (a, r') \<longrightarrow>
        view r' = view r \<and>
        (\<forall>x. a = Inr x \<longrightarrow> is_str (view r) k \<longrightarrow> map_option RStr x = view r k))"

definition Del_law :: "'r redis_client \<Rightarrow> ('r \<Rightarrow> redis_db) \<Rightarrow> bool" where
  "Del_law rc view \<longleftrightarrow>
     (\<forall>d ks r e r'. rc_Del rc d ks r = (e, r') \<longrightarrow>
        wrote e (view r) (del_keys (view r) ks) (view r'))"

definition RPush_law :: "'r redis_client \<Rightarrow> ('r \<Rightarrow> redis_db) \<Rightarrow> bool" where
  "RPush_law rc view \<longleftrightarrow>
     (\<forall>d k vs r e r'. rc_RPush rc d k vs r = (e, r') \<longrightarrow> is_list (view r) k \<longrightarrow>
        wrote e (view r) ((view r)(k \<mapsto> RList (list_at (view r) k @ vs))) (view r'))"

definition LRange_law :: "'r redis_client \<Rightarrow> ('r \<Rightarrow> redis_db) \<Rightarrow> bool" where
  "LRange_law rc view \<longleftrightarrow>
     (\<forall>d k r a r'. rc_LRange rc d k r = (a, r') \<longrightarrow>
        view r' = view r \<and>
        (\<forall>xs. a = Inr xs \<longrightarrow> is_list (view r) k \<longrightarrow> xs = list_at (view r) k))"

definition Expire_law :: "'r redis_client \<Rightarrow> ('r \<Rightarrow> redis_db) \<Rightarrow> bool" where
  "Expire_law rc view \<longleftrightarrow>
     (\<forall>d k ttl r e r'. rc_Expire rc d k ttl r = (e, r') \<longrightarrow> 0 < sint ttl \<longrightarrow>
        view r' = view r)"

definition Exists_law :: "'r redis_client \<Rightarrow> ('r \<Rightarrow> redis_db) \<Rightarrow> bool" where
  "Exists_law rc view \<longleftrightarrow>
     (\<forall>d k r a r'. rc_Exists rc d k r = (a, r') \<longrightarrow>
        view r' = view r \<and>
        (\<forall>n. a = Inr n \<longrightarrow> (0 < n \<longleftrightarrow> view r k \<noteq> None)))"

definition Scan_law :: "'r redis_client \<Rightarrow> ('r \<Rightarrow> redis_db) \<Rightarrow> bool" where
  "Scan_law rc view \<longleftrightarrow>
     (\<forall>d c r a r'. rc_Scan rc d c r = (a, r') \<longrightarrow>
        view r' = view r)"

definition Ping_law :: "'r redis_client \<Rightarrow> ('r \<Rightarrow> redis_db) \<Rightarrow> bool" where
  "Ping_law rc view \<longleftrightarrow>
     (\<forall>d r e r'. rc_Ping rc d r = (e, r') \<longrightarrow>
        view r' = view r)"

definition Lock_law :: "'r redis_client \<Rightarrow> ('r \<Rightarrow> redis_db) \<Rightarrow> bool" where
  "Lock_law rc view \<longleftrightarrow>
     (\<forall>d k r a r'. rc_Lock rc d k r = (a, r') \<longrightarrow>
        (\<forall>k'. k' \<noteq> k \<longrightarrow> view r' k' = view r k') \<and>
        (\<forall>m. a = Inr m \<longrightarrow> mx_name m = k \<and> view r k = None \<and> view r' k \<noteq> None))"

definition Unlock_law :: "'r redis_client \<Rightarrow> ('r \<Rightarrow> redis_db) \<Rightarrow> bool" where
  "Unlock_law rc view \<longleftrightarrow>
     (\<forall>m r b r'. rc_Unlock rc m r = (b, r') \<longrightarrow>
        (\<forall>k'. k' \<noteq> mx_name m \<longrightarrow> view r' k' = view r k') \<and>
        (b \<longrightarrow> view r' (mx_name m) = None))"

text \<open>Together: the server is an ordinary Redis.\<close>

definition redis_laws :: "'r redis_client \<Rightarrow> ('r \<Rightarrow> redis_db) \<Rightarrow> bool" where
  "redis_laws rc view \<longleftrightarrow>
     Set_law rc view \<and> Get_law rc view \<and> Del_law rc view \<and> RPush_law rc view \<and> LRange_law rc view \<and> Expire_law rc view \<and>
     Exists_law rc view \<and> Scan_law rc view \<and> Ping_law rc view \<and> Lock_law rc view \<and> Unlock_law rc view"

lemmas law_defs = Set_law_def Get_law_def Del_law_def RPush_law_def LRange_law_def Expire_law_def Exists_law_def Scan_law_def Ping_law_def Lock_law_def Unlock_law_def

lemma law_Set: "redis_laws rc view \<Longrightarrow> rc_Set rc d k v ttl r = (e, r') \<Longrightarrow>
    wrote e (view r) ((view r)(k \<mapsto> RStr v)) (view r')"
  unfolding redis_laws_def Set_law_def by blast

lemma law_Get: "redis_laws rc view \<Longrightarrow> rc_Get rc d k r = (a, r') \<Longrightarrow>
    view r' = view r \<and>
        (\<forall>x. a = Inr x \<longrightarrow> is_str (view r) k \<longrightarrow> map_option RStr x = view r k)"
  unfolding redis_laws_def Get_law_def by blast

lemma law_Del: "redis_laws rc view \<Longrightarrow> rc_Del rc d ks r = (e, r') \<Longrightarrow>
    wrote e (view r) (del_keys (view r) ks) (view r')"
  unfolding redis_laws_def Del_law_def by blast

lemma law_RPush: "redis_laws rc view \<Longrightarrow> rc_RPush rc d k vs r = (e, r') \<Longrightarrow> is_list (view r) k \<Longrightarrow>
    wrote e (view r) ((view r)(k \<mapsto> RList (list_at (view r) k @ vs))) (view r')"
  unfolding redis_laws_def RPush_law_def by blast

lemma law_LRange: "redis_laws rc view \<Longrightarrow> rc_LRange rc d k r = (a, r') \<Longrightarrow>
    view r' = view r \<and>
        (\<forall>xs. a = Inr xs \<longrightarrow> is_list (view r) k \<longrightarrow> xs = list_at (view r) k)"
  unfolding redis_laws_def LRange_law_def by blast

lemma law_Expire: "redis_laws rc view \<Longrightarrow> rc_Expire rc d k ttl r = (e, r') \<Longrightarrow> 0 < sint ttl \<Longrightarrow>
    view r' = view r"
  unfolding redis_laws_def Expire_law_def by blast

lemma law_Exists: "redis_laws rc view \<Longrightarrow> rc_Exists rc d k r = (a, r') \<Longrightarrow>
    view r' = view r \<and>
        (\<forall>n. a = Inr n \<longrightarrow> (0 < n \<longleftrightarrow> view r k \<noteq> None))"
  unfolding redis_laws_def Exists_law_def by blast

lemma law_Scan: "redis_laws rc view \<Longrightarrow> rc_Scan rc d c r = (a, r') \<Longrightarrow>
    view r' = view r"
  unfolding redis_laws_def Scan_law_def by blast

lemma law_Ping: "redis_laws rc view \<Longrightarrow> rc_Ping rc d r = (e, r') \<Longrightarrow>
    view r' = view r"
  unfolding redis_laws_def Ping_law_def by blast

lemma law_Lock: "redis_laws rc view \<Longrightarrow> rc_Lock rc d k r = (a, r') \<Longrightarrow>
    (\<forall>k'. k' \<noteq> k \<longrightarrow> view r' k' = view r k') \<and>
        (\<forall>m. a = Inr m \<longrightarrow> mx_name m = k \<and> view r k = None \<and> view r' k \<noteq> None)"
  unfolding redis_laws_def Lock_law_def by blast

lemma law_Unlock: "redis_laws rc view \<Longrightarrow> rc_Unlock rc m r = (b, r') \<Longrightarrow>
    (\<forall>k'. k' \<noteq> mx_name m \<longrightarrow> view r' k' = view r k') \<and>
        (b \<longrightarrow> view r' (mx_name m) = None)"
  unfolding redis_laws_def Unlock_law_def by blast

section \<open>A server in memory\<close>

record mem_redis =
  mr_db :: "(string \<times> redis_value) list"
  mr_token :: nat

definition mem_view :: "mem_redis \<Rightarrow> redis_db" where
  "mem_view r = map_of (mr_db r)"

definition mem_put :: "string \<Rightarrow> redis_value \<Rightarrow> mem_redis \<Rightarrow> mem_redis" where
  "mem_put k v r = r \<lparr> mr_db := AList.update k v (mr_db r) \<rparr>"

definition mem_del :: "string list \<Rightarrow> mem_redis \<Rightarrow> mem_redis" where
  "mem_del ks r = r \<lparr> mr_db := filter (\<lambda>kv. fst kv \<notin> set ks) (mr_db r) \<rparr>"

abbreviation ctx_failed :: go_error where
  "ctx_failed \<equiv> Errorf ''context canceled''"

abbreviation wrong_type :: go_error where
  "wrong_type \<equiv> Errorf ''WRONGTYPE Operation against a key holding the wrong kind of value''"

definition mem_client :: "mem_redis redis_client" where
  "mem_client = \<lparr>
     rc_Set = (\<lambda>d k v ttl r. if d then (Some ctx_failed, r) else (None, mem_put k (RStr v) r)),
     rc_Get = (\<lambda>d k r. (if d then Inl ctx_failed
        else (case mem_view r k of
                None \<Rightarrow> Inr None
              | Some (RStr v) \<Rightarrow> Inr (Some v)
              | Some (RList _) \<Rightarrow> Inl wrong_type), r)),
     rc_Del = (\<lambda>d ks r. if d then (Some ctx_failed, r) else (None, mem_del ks r)),
     rc_RPush = (\<lambda>d k vs r. if d then (Some ctx_failed, r)
        else if is_list (mem_view r) k
          then (None, mem_put k (RList (list_at (mem_view r) k @ vs)) r)
        else (Some wrong_type, r)),
     rc_LRange = (\<lambda>d k r. (if d then Inl ctx_failed
        else if is_list (mem_view r) k then Inr (list_at (mem_view r) k)
        else Inl wrong_type, r)),
     rc_Expire = (\<lambda>d k ttl r. (if d then Some ctx_failed else None, r)),
     rc_Exists = (\<lambda>d k r. (if d then Inl ctx_failed
        else Inr (if mem_view r k = None then 0 else 1), r)),
     rc_Scan = (\<lambda>d c r. (if d then Inl ctx_failed
        else Inr (filter (\<lambda>k. has_prefix k ''bot_runtime:state:'') (map fst (mr_db r)), 0), r)),
     rc_Ping = (\<lambda>d r. (if d then Some ctx_failed else None, r)),
     rc_Lock = (\<lambda>d k r. if d \<or> mem_view r k \<noteq> None then (Inl ErrLockFailed, r)
        else (Inr \<lparr> mx_name = k, mx_token = mr_token r \<rparr>,
              (mem_put k (RStr (itoa (int (mr_token r)))) r) \<lparr> mr_token := Suc (mr_token r) \<rparr>)),
     rc_Unlock = (\<lambda>m r. if mem_view r (mx_name m) = Some (RStr (itoa (int (mx_token m))))
        then (True, mem_del [mx_name m] r) else (False, r)) \<rparr>"

lemma mem_view_put: "mem_view (mem_put k v r) = (mem_view r)(k \<mapsto> v)"
  by (simp add: mem_view_def mem_put_def update_conv')

lemma mem_view_del: "mem_view (mem_del ks r) = del_keys (mem_view r) ks"
proof
  fix k
  have "map_of (filter (\<lambda>kv. fst kv \<notin> set ks) db) k = (if k \<in> set ks then None else map_of db k)"
    for db :: "(string \<times> redis_value) list"
    by (induction db) auto
  then show "mem_view (mem_del ks r) k = del_keys (mem_view r) ks k"
    by (simp add: mem_view_def mem_del_def del_keys_def)
qed

lemma mem_view_token [simp]: "mem_view (r \<lparr> mr_token := n \<rparr>) = mem_view r"
  by (simp add: mem_view_def)

lemma mem_client_laws: "redis_laws mem_client mem_view"
  unfolding redis_laws_def law_defs
  by (intro conjI allI impI)
    (auto simp: mem_client_def wrote_def mem_view_put mem_view_del is_str_def is_list_def del_keys_def
      split: if_splits option.splits redis_value.splits)

end
