(* ===== verification/Pipeline_Repository.thy ===== *)
theory Pipeline_Repository
  imports Bot_Codec Redis_Client
begin

text \<open>
  The interface \<open>PipelineRepository\<close> of \<open>pkg/pipeline/repository/pipeline_repository.go\<close>: a
  record of operations, and the contract its clients rely on as a locale. The contract is
  stated over an abstract view of the store, one \<open>pair_view\<close> per contact and conversation:
  the stage state, the buffered messages, the buffered attachments and whether the debounce
  timer is running.
\<close>

section \<open>The operations\<close>

record ('r, 'n) PipelineRepository =
  repo_GetState :: "ctx \<Rightarrow> int64 \<Rightarrow> int64 \<Rightarrow> ('r, 'n, go_error + PipelineState option) go"
  repo_SetState :: "ctx \<Rightarrow> int64 \<Rightarrow> int64 \<Rightarrow> PipelineState \<Rightarrow> ('r, 'n, go_error option) go"
  repo_ClearState :: "ctx \<Rightarrow> int64 \<Rightarrow> int64 \<Rightarrow> ('r, 'n, go_error option) go"
  repo_AppendToBuffer :: "ctx \<Rightarrow> int64 \<Rightarrow> int64 \<Rightarrow> string \<Rightarrow> ('r, 'n, go_error option) go"
  repo_GetBuffer :: "ctx \<Rightarrow> int64 \<Rightarrow> int64 \<Rightarrow> ('r, 'n, go_error + string list) go"
  repo_AppendAttachments ::
    "ctx \<Rightarrow> int64 \<Rightarrow> int64 \<Rightarrow> Attachment list \<Rightarrow> ('r, 'n, go_error option) go"
  repo_GetAttachments :: "ctx \<Rightarrow> int64 \<Rightarrow> int64 \<Rightarrow> ('r, 'n, go_error + Attachment list) go"
  repo_SetTimer :: "ctx \<Rightarrow> int64 \<Rightarrow> int64 \<Rightarrow> duration \<Rightarrow> ('r, 'n, go_error option) go"
  repo_DeleteTimer :: "ctx \<Rightarrow> int64 \<Rightarrow> int64 \<Rightarrow> ('r, 'n, go_error option) go"
  repo_TimerExists :: "ctx \<Rightarrow> int64 \<Rightarrow> int64 \<Rightarrow> ('r, 'n, go_error + bool) go"
  repo_AcquireLock :: "ctx \<Rightarrow> int64 \<Rightarrow> int64 \<Rightarrow> ('r, 'n, go_error + mutex) go"
  repo_Unlock :: "mutex \<Rightarrow> ('r, 'n, bool) go"
  repo_ScanStates :: "ctx \<Rightarrow> int \<Rightarrow> ('r, 'n, (go_error + PairID list) option) go"
  repo_Ping :: "ctx \<Rightarrow> ('r, 'n, go_error option) go"

section \<open>The abstract store\<close>

record pair_view =
  pv_state :: "PipelineState option"
  pv_buffer :: "string list"
  pv_atts :: "Attachment list"
  pv_timer :: bool

type_synonym pair = "int64 \<times> int64"
type_synonym store = "pair \<Rightarrow> pair_view"

definition blank :: pair_view where
  "blank = \<lparr> pv_state = None, pv_buffer = [], pv_atts = [], pv_timer = False \<rparr>"

text \<open>A change of one pair that happened, or that may have happened when the call failed.\<close>

definition changed :: "go_error option \<Rightarrow> pair \<Rightarrow> (pair_view \<Rightarrow> pair_view) \<Rightarrow> store \<Rightarrow> store \<Rightarrow> bool" where
  "changed e p f s s' \<longleftrightarrow>
     (case e of None \<Rightarrow> s' = s(p := f (s p)) | Some _ \<Rightarrow> s' = s \<or> s' = s(p := f (s p)))"

lemma changed_None [simp]: "changed None p f s s' \<longleftrightarrow> s' = s(p := f (s p))"
  by (simp add: changed_def)

lemma changed_other: "changed e p f s s' \<Longrightarrow> q \<noteq> p \<Longrightarrow> s' q = s q"
  by (auto simp: changed_def split: option.splits)

text \<open>Only the Redis server changed.\<close>

definition redis_only :: "('r, 'n) world \<Rightarrow> ('r, 'n) world \<Rightarrow> bool" where
  "redis_only w w' \<longleftrightarrow> w' = w \<lparr> w_redis := w_redis w' \<rparr>"

lemma redis_only_refl [simp]: "redis_only w w"
  by (simp add: redis_only_def)

lemma redis_only_trans: "redis_only w w1 \<Longrightarrow> redis_only w1 w2 \<Longrightarrow> redis_only w w2"
  by (cases w; cases w1; cases w2) (simp add: redis_only_def)

lemma redis_only_fields:
  "redis_only w w' \<Longrightarrow> w_entries w' = w_entries w \<and> w_launched w' = w_launched w \<and>
     w_ctx_err w' = w_ctx_err w \<and> w_next_ctx w' = w_next_ctx w \<and> w_net w' = w_net w \<and>
     w_env w' = w_env w \<and> w_now w' = w_now w \<and> w_stop w' = w_stop w \<and> w_stopped w' = w_stopped w"
  by (cases w; cases w') (simp add: redis_only_def)

section \<open>The contract\<close>

locale pipeline_repository =
  fixes repo :: "('r, 'n) PipelineRepository"
    and view :: "('r, 'n) world \<Rightarrow> store"
    and sound :: "('r, 'n) world \<Rightarrow> bool"
    and locked :: "('r, 'n) world \<Rightarrow> pair \<Rightarrow> bool"
    and owns :: "mutex \<Rightarrow> pair \<Rightarrow> bool"
  assumes SetState: "sound w \<Longrightarrow> run (repo_SetState repo c a b st) w = (e, es, w') \<Longrightarrow>
      sound w' \<and> redis_only w w' \<and>
      changed e (a, b) (pv_state_update (\<lambda>_. Some (norm_state st))) (view w) (view w')"
    and ClearState: "sound w \<Longrightarrow> run (repo_ClearState repo c a b) w = (e, es, w') \<Longrightarrow>
      sound w' \<and> redis_only w w' \<and> changed e (a, b) (\<lambda>_. blank) (view w) (view w')"
    and GetState: "sound w \<Longrightarrow> run (repo_GetState repo c a b) w = (r, es, w') \<Longrightarrow>
      sound w' \<and> redis_only w w' \<and> view w' = view w \<and>
      (\<forall>x. r = Inr x \<longrightarrow> x = pv_state (view w (a, b)))"
    and AppendToBuffer: "sound w \<Longrightarrow> run (repo_AppendToBuffer repo c a b msg) w = (e, es, w') \<Longrightarrow>
      sound w' \<and> redis_only w w' \<and>
      changed e (a, b) (pv_buffer_update (\<lambda>ms. ms @ [msg])) (view w) (view w')"
    and GetBuffer: "sound w \<Longrightarrow> run (repo_GetBuffer repo c a b) w = (rb, es, w') \<Longrightarrow>
      sound w' \<and> redis_only w w' \<and> view w' = view w \<and>
      (\<forall>ms. rb = Inr ms \<longrightarrow> ms = pv_buffer (view w (a, b)))"
    and AppendAttachments:
      "sound w \<Longrightarrow> run (repo_AppendAttachments repo c a b atts) w = (e, es, w') \<Longrightarrow>
      sound w' \<and> redis_only w w' \<and>
      changed e (a, b) (pv_atts_update (\<lambda>as. as @ map norm_attachment atts)) (view w) (view w')"
    and GetAttachments: "sound w \<Longrightarrow> run (repo_GetAttachments repo c a b) w = (ra, es, w') \<Longrightarrow>
      sound w' \<and> redis_only w w' \<and> view w' = view w \<and>
      (\<forall>as. ra = Inr as \<longrightarrow> as = pv_atts (view w (a, b)))"
    and SetTimer: "sound w \<Longrightarrow> run (repo_SetTimer repo c a b ttl) w = (e, es, w') \<Longrightarrow>
      sound w' \<and> redis_only w w' \<and>
      changed e (a, b) (pv_timer_update (\<lambda>_. True)) (view w) (view w')"
    and DeleteTimer: "sound w \<Longrightarrow> run (repo_DeleteTimer repo c a b) w = (e, es, w') \<Longrightarrow>
      sound w' \<and> redis_only w w' \<and>
      changed e (a, b) (pv_timer_update (\<lambda>_. False)) (view w) (view w')"
    and TimerExists: "sound w \<Longrightarrow> run (repo_TimerExists repo c a b) w = (rt, es, w') \<Longrightarrow>
      sound w' \<and> redis_only w w' \<and> view w' = view w \<and>
      (\<forall>x. rt = Inr x \<longrightarrow> x = pv_timer (view w (a, b)))"
    and AcquireLock: "sound w \<Longrightarrow> run (repo_AcquireLock repo c a b) w = (rm, es, w') \<Longrightarrow>
      sound w' \<and> redis_only w w' \<and> view w' = view w \<and>
      (\<forall>m. rm = Inr m \<longrightarrow> owns m (a, b) \<and> \<not> locked w (a, b) \<and> locked w' (a, b))"
    and Unlock: "sound w \<Longrightarrow> owns m p \<Longrightarrow> run (repo_Unlock repo m) w = (ok, es, w') \<Longrightarrow>
      sound w' \<and> redis_only w w' \<and> view w' = view w \<and>
      (\<forall>q. q \<noteq> p \<longrightarrow> locked w' q = locked w q) \<and> (ok \<longrightarrow> \<not> locked w' p)"
    and ScanStates: "sound w \<Longrightarrow> run (repo_ScanStates repo c maxPairs) w = (rs, es, w') \<Longrightarrow>
      sound w' \<and> redis_only w w' \<and> view w' = view w"
    and frame: "w_redis w' = w_redis w \<Longrightarrow>
      sound w' = sound w \<and> view w' = view w \<and> locked w' = locked w"

end
