(* ===== verification/Redis_Repository.thy ===== *)
theory Redis_Repository
  imports Pipeline_Repository
begin

text \<open>
  \<open>pkg/pipeline/repository/redis_pipeline_repository.go\<close>: the repository over a Redis
  client, with its key schema and its JSON values. The interpretation shows that it keeps
  the contract of \<^theory_text>\<open>Pipeline_Repository\<close> on every server that behaves like Redis.
\<close>

section \<open>Keys\<close>

definition pair_text :: "int64 \<Rightarrow> int64 \<Rightarrow> string" where
  "pair_text a b = itoa (sint a) @ CHR '':'' # itoa (sint b)"

definition stateKey :: "int64 \<Rightarrow> int64 \<Rightarrow> string" where
  "stateKey contactID conversationID = ''bot_runtime:state:'' @ pair_text contactID conversationID"

definition bufferKey :: "int64 \<Rightarrow> int64 \<Rightarrow> string" where
  "bufferKey contactID conversationID = ''bot_runtime:buffer:'' @ pair_text contactID conversationID"

definition attachBufferTTL :: duration where
  "attachBufferTTL = 10 * Minute"

definition attachBufferKey :: "int64 \<Rightarrow> int64 \<Rightarrow> string" where
  "attachBufferKey contactID conversationID = ''bot_runtime:attach:'' @ pair_text contactID conversationID"

definition lockKey :: "int64 \<Rightarrow> int64 \<Rightarrow> string" where
  "lockKey contactID conversationID = ''bot_runtime:lock:'' @ pair_text contactID conversationID"

definition timerKey :: "int64 \<Rightarrow> int64 \<Rightarrow> string" where
  "timerKey contactID conversationID = ''bot_runtime:timer:'' @ pair_text contactID conversationID"

section \<open>Operations\<close>

definition SetState ::
  "'r redis_client \<Rightarrow> ctx \<Rightarrow> int64 \<Rightarrow> int64 \<Rightarrow> PipelineState \<Rightarrow> ('r, 'n, go_error option) go" where
  "SetState rc ctx contactID conversationID st =
     (let k = stateKey contactID conversationID; b = json_text (state_json st)
      in redis_op (CmdSet k b 0) ctx (\<lambda>d. rc_Set rc d k b 0))"

text \<open>The bytes of a stored state, and what \<open>GetState\<close> answers for them.\<close>

definition unmarshal_state :: "string \<Rightarrow> PipelineState option" where
  "unmarshal_state b = Option.bind (json_parse b) state_of"

definition GetState ::
  "'r redis_client \<Rightarrow> ctx \<Rightarrow> int64 \<Rightarrow> int64 \<Rightarrow> ('r, 'n, go_error + PipelineState option) go" where
  "GetState rc ctx contactID conversationID =
     (let k = stateKey contactID conversationID in
      pbind (redis_op (CmdGet k) ctx (\<lambda>d. rc_Get rc d k)) (\<lambda>r.
        case r of
          Inl err \<Rightarrow> Done (Inl (Wrap ''pipeline.repository.get_state'' err))
        | Inr None \<Rightarrow> Done (Inr None)
        | Inr (Some b) \<Rightarrow>
            (case unmarshal_state b of
               None \<Rightarrow> Done (Inl (Wrap ''pipeline.repository.get_state unmarshal''
                                   (Errorf ''json: cannot unmarshal'')))
             | Some s \<Rightarrow> Done (Inr (Some s)))))"

definition ClearState ::
  "'r redis_client \<Rightarrow> ctx \<Rightarrow> int64 \<Rightarrow> int64 \<Rightarrow> ('r, 'n, go_error option) go" where
  "ClearState rc ctx contactID conversationID =
     (let ks = [stateKey contactID conversationID, bufferKey contactID conversationID,
                attachBufferKey contactID conversationID, timerKey contactID conversationID]
      in redis_op (CmdDel ks) ctx (\<lambda>d. rc_Del rc d ks))"

definition AppendToBuffer ::
  "'r redis_client \<Rightarrow> ctx \<Rightarrow> int64 \<Rightarrow> int64 \<Rightarrow> string \<Rightarrow> ('r, 'n, go_error option) go" where
  "AppendToBuffer rc ctx contactID conversationID content =
     (let k = bufferKey contactID conversationID
      in redis_op (CmdRPush k [content]) ctx (\<lambda>d. rc_RPush rc d k [content]))"

definition GetBuffer ::
  "'r redis_client \<Rightarrow> ctx \<Rightarrow> int64 \<Rightarrow> int64 \<Rightarrow> ('r, 'n, go_error + string list) go" where
  "GetBuffer rc ctx contactID conversationID =
     (let k = bufferKey contactID conversationID
      in redis_op (CmdLRange k) ctx (\<lambda>d. rc_LRange rc d k))"

definition AppendAttachments ::
  "'r redis_client \<Rightarrow> ctx \<Rightarrow> int64 \<Rightarrow> int64 \<Rightarrow> Attachment list \<Rightarrow> ('r, 'n, go_error option) go" where
  "AppendAttachments rc ctx contactID conversationID atts =
     (if atts = [] then Done None
      else
       (let k = attachBufferKey contactID conversationID;
            values = map (\<lambda>a. json_text (attachment_json a)) atts
        in pbind (redis_op (CmdRPush k values) ctx (\<lambda>d. rc_RPush rc d k values)) (\<lambda>e.
             if e \<noteq> None then Done e
             else redis_op (CmdExpire k attachBufferTTL) ctx
                    (\<lambda>d. rc_Expire rc d k attachBufferTTL))))"

text \<open>The loop over the raw entries, which skips what does not decode.\<close>

definition unmarshal_attachment :: "string \<Rightarrow> Attachment option" where
  "unmarshal_attachment b = Option.bind (json_parse b) attachment_of"

fun decode_attachments :: "string list \<Rightarrow> Attachment list" where
  "decode_attachments [] = []"
| "decode_attachments (s # raw) =
     (case unmarshal_attachment s of
        None \<Rightarrow> decode_attachments raw
      | Some att \<Rightarrow> att # decode_attachments raw)"

definition GetAttachments ::
  "'r redis_client \<Rightarrow> ctx \<Rightarrow> int64 \<Rightarrow> int64 \<Rightarrow> ('r, 'n, go_error + Attachment list) go" where
  "GetAttachments rc ctx contactID conversationID =
     (let k = attachBufferKey contactID conversationID in
      pbind (redis_op (CmdLRange k) ctx (\<lambda>d. rc_LRange rc d k)) (\<lambda>r.
        case r of
          Inl err \<Rightarrow> Done (Inl (Wrap ''pipeline.repository.get_attachments'' err))
        | Inr raw \<Rightarrow> Done (Inr (decode_attachments raw))))"

definition SetTimer ::
  "'r redis_client \<Rightarrow> ctx \<Rightarrow> int64 \<Rightarrow> int64 \<Rightarrow> duration \<Rightarrow> ('r, 'n, go_error option) go" where
  "SetTimer rc ctx contactID conversationID ttl =
     (let k = timerKey contactID conversationID
      in redis_op (CmdSet k ''1'' ttl) ctx (\<lambda>d. rc_Set rc d k ''1'' ttl))"

definition DeleteTimer ::
  "'r redis_client \<Rightarrow> ctx \<Rightarrow> int64 \<Rightarrow> int64 \<Rightarrow> ('r, 'n, go_error option) go" where
  "DeleteTimer rc ctx contactID conversationID =
     (let k = timerKey contactID conversationID
      in redis_op (CmdDel [k]) ctx (\<lambda>d. rc_Del rc d [k]))"

definition TimerExists ::
  "'r redis_client \<Rightarrow> ctx \<Rightarrow> int64 \<Rightarrow> int64 \<Rightarrow> ('r, 'n, go_error + bool) go" where
  "TimerExists rc ctx contactID conversationID =
     (let k = timerKey contactID conversationID in
      pbind (redis_op (CmdExists k) ctx (\<lambda>d. rc_Exists rc d k)) (\<lambda>r.
        case r of
          Inl err \<Rightarrow> Done (Inl err)
        | Inr n \<Rightarrow> Done (Inr (0 < n))))"

definition AcquireLock ::
  "'r redis_client \<Rightarrow> ctx \<Rightarrow> int64 \<Rightarrow> int64 \<Rightarrow> ('r, 'n, go_error + mutex) go" where
  "AcquireLock rc ctx contactID conversationID =
     (let k = lockKey contactID conversationID in
      pbind (redis_op (CmdLock k) ctx (\<lambda>d. rc_Lock rc d k)) (\<lambda>r.
        case r of
          Inl _ \<Rightarrow> Done (Inl ErrLockFailed)
        | Inr m \<Rightarrow> Done (Inr m)))"

definition Unlock :: "'r redis_client \<Rightarrow> mutex \<Rightarrow> ('r, 'n, bool) go" where
  "Unlock rc m = redis_op (CmdUnlock (mx_name m)) Background (\<lambda>_. rc_Unlock rc m)"

text \<open>
  One page of the scan: \<open>Inl\<close> when the limit is reached, which ends the scan. A key of
  another shape is skipped.
\<close>

definition parse_state_key :: "string \<Rightarrow> PairID option" where
  "parse_state_key key =
     (case split_char key (CHR '':'') of
        [_, _, c, d] \<Rightarrow>
          (case (ParseInt c, ParseInt d) of
             ((x, None), (y, None)) \<Rightarrow> Some \<lparr> p_ContactID = x, p_ConversationID = y \<rparr>
           | _ \<Rightarrow> None)
      | _ \<Rightarrow> None)"

fun scan_keys :: "int \<Rightarrow> string list \<Rightarrow> PairID list \<Rightarrow> PairID list + PairID list" where
  "scan_keys maxPairs [] pairs = Inr pairs"
| "scan_keys maxPairs (key # keys) pairs =
     (if maxPairs \<le> int (length pairs) then Inl pairs
      else (case parse_state_key key of
              None \<Rightarrow> scan_keys maxPairs keys pairs
            | Some p \<Rightarrow> scan_keys maxPairs keys (pairs @ [p])))"

text \<open>The cursor loop, with fuel: \<open>None\<close> when the server keeps sending a cursor.\<close>

fun scan_loop ::
  "'r redis_client \<Rightarrow> ctx \<Rightarrow> int \<Rightarrow> nat \<Rightarrow> nat \<Rightarrow> PairID list \<Rightarrow>
     ('r, 'n, (go_error + PairID list) option) go" where
  "scan_loop rc ctx maxPairs 0 cursor pairs = Done None"
| "scan_loop rc ctx maxPairs (Suc fuel) cursor pairs =
     pbind (redis_op (CmdScan cursor) ctx (\<lambda>d. rc_Scan rc d cursor)) (\<lambda>r.
       case r of
         Inl err \<Rightarrow> Done (Some (Inl (Wrap ''pipeline.repository.scan_states'' err)))
       | Inr (keys, next_cursor) \<Rightarrow>
           (case scan_keys maxPairs keys pairs of
              Inl ps \<Rightarrow> Done (Some (Inr ps))
            | Inr ps \<Rightarrow>
                if next_cursor = 0 then Done (Some (Inr ps))
                else scan_loop rc ctx maxPairs fuel next_cursor ps))"

definition ScanStates ::
  "'r redis_client \<Rightarrow> nat \<Rightarrow> ctx \<Rightarrow> int \<Rightarrow> ('r, 'n, (go_error + PairID list) option) go" where
  "ScanStates rc fuel ctx maxPairs = scan_loop rc ctx maxPairs fuel 0 []"

definition Ping :: "'r redis_client \<Rightarrow> ctx \<Rightarrow> ('r, 'n, go_error option) go" where
  "Ping rc ctx = redis_op CmdPing ctx (rc_Ping rc)"

definition NewPipelineRepository :: "'r redis_client \<Rightarrow> nat \<Rightarrow> ('r, 'n) PipelineRepository" where
  "NewPipelineRepository rc fuel = \<lparr>
     repo_GetState = GetState rc, repo_SetState = SetState rc, repo_ClearState = ClearState rc,
     repo_AppendToBuffer = AppendToBuffer rc, repo_GetBuffer = GetBuffer rc,
     repo_AppendAttachments = AppendAttachments rc, repo_GetAttachments = GetAttachments rc,
     repo_SetTimer = SetTimer rc, repo_DeleteTimer = DeleteTimer rc,
     repo_TimerExists = TimerExists rc, repo_AcquireLock = AcquireLock rc,
     repo_Unlock = Unlock rc, repo_ScanStates = ScanStates rc fuel, repo_Ping = Ping rc \<rparr>"

section \<open>Keys of different pairs and of different kinds differ\<close>

lemma pair_text_inj [simp]: "pair_text a b = pair_text c d \<longleftrightarrow> a = c \<and> b = d"
proof
  assume eq: "pair_text a b = pair_text c d"
  have "split2 (pair_text a b) (CHR '':'') = [itoa (sint a), itoa (sint b)]" for a b
    by (simp add: pair_text_def split2_append)
  then have "itoa (sint a) = itoa (sint c)" "itoa (sint b) = itoa (sint d)"
    using eq by (metis list.inject)+
  then show "a = c \<and> b = d" by (metis ParseInt_itoa fst_conv)
qed simp

lemmas key_defs = stateKey_def bufferKey_def attachBufferKey_def lockKey_def timerKey_def

lemma key_inj [simp]:
  "stateKey a b = stateKey c d \<longleftrightarrow> a = c \<and> b = d"
  "bufferKey a b = bufferKey c d \<longleftrightarrow> a = c \<and> b = d"
  "attachBufferKey a b = attachBufferKey c d \<longleftrightarrow> a = c \<and> b = d"
  "lockKey a b = lockKey c d \<longleftrightarrow> a = c \<and> b = d"
  "timerKey a b = timerKey c d \<longleftrightarrow> a = c \<and> b = d"
  by (simp_all add: key_defs)

lemma key_neq [simp]:
  "stateKey a b \<noteq> bufferKey c d"
  "stateKey a b \<noteq> attachBufferKey c d"
  "stateKey a b \<noteq> lockKey c d"
  "stateKey a b \<noteq> timerKey c d"
  "bufferKey a b \<noteq> stateKey c d"
  "bufferKey a b \<noteq> attachBufferKey c d"
  "bufferKey a b \<noteq> lockKey c d"
  "bufferKey a b \<noteq> timerKey c d"
  "attachBufferKey a b \<noteq> stateKey c d"
  "attachBufferKey a b \<noteq> bufferKey c d"
  "attachBufferKey a b \<noteq> lockKey c d"
  "attachBufferKey a b \<noteq> timerKey c d"
  "lockKey a b \<noteq> stateKey c d"
  "lockKey a b \<noteq> bufferKey c d"
  "lockKey a b \<noteq> attachBufferKey c d"
  "lockKey a b \<noteq> timerKey c d"
  "timerKey a b \<noteq> stateKey c d"
  "timerKey a b \<noteq> bufferKey c d"
  "timerKey a b \<noteq> attachBufferKey c d"
  "timerKey a b \<noteq> lockKey c d"
  by (simp_all add: key_defs)

section \<open>The abstract store of a server\<close>

definition db_pair :: "redis_db \<Rightarrow> pair \<Rightarrow> pair_view" where
  "db_pair db p = (case p of (a, b) \<Rightarrow>
     \<lparr> pv_state = (case db (stateKey a b) of Some (RStr v) \<Rightarrow> unmarshal_state v | _ \<Rightarrow> None),
       pv_buffer = list_at db (bufferKey a b),
       pv_atts = decode_attachments (list_at db (attachBufferKey a b)),
       pv_timer = (db (timerKey a b) \<noteq> None) \<rparr>)"

definition redis_view :: "('r \<Rightarrow> redis_db) \<Rightarrow> ('r, 'n) world \<Rightarrow> store" where
  "redis_view v w = db_pair (v (w_redis w))"

text \<open>Every key holds a value of its kind, and the stored states decode.\<close>

definition typed_db :: "redis_db \<Rightarrow> bool" where
  "typed_db db \<longleftrightarrow> (\<forall>a b.
     (case db (stateKey a b) of
        None \<Rightarrow> True | Some (RStr s) \<Rightarrow> unmarshal_state s \<noteq> None | Some (RList _) \<Rightarrow> False) \<and>
     is_list db (bufferKey a b) \<and> is_list db (attachBufferKey a b) \<and>
     is_str db (timerKey a b))"

definition redis_sound :: "'r redis_client \<Rightarrow> ('r \<Rightarrow> redis_db) \<Rightarrow> ('r, 'n) world \<Rightarrow> bool" where
  "redis_sound rc v w \<longleftrightarrow> redis_laws rc v \<and> typed_db (v (w_redis w))"

definition redis_locked :: "('r \<Rightarrow> redis_db) \<Rightarrow> ('r, 'n) world \<Rightarrow> pair \<Rightarrow> bool" where
  "redis_locked v w p \<longleftrightarrow> v (w_redis w) (lockKey (fst p) (snd p)) \<noteq> None"

definition redis_owns :: "mutex \<Rightarrow> pair \<Rightarrow> bool" where
  "redis_owns m p \<longleftrightarrow> mx_name m = lockKey (fst p) (snd p)"

section \<open>What each command does to the abstract store\<close>

lemma run_redis_op [go_exec]:
  "run (redis_op c ctx f) w =
     (case f (ctx_done w ctx) (w_redis w) of (x, r) \<Rightarrow> (x, [EvRedis c], w \<lparr> w_redis := r \<rparr>))"
  by (simp add: redis_op_def run_atomic split: prod.splits)

lemma unmarshal_marshal_state: "unmarshal_state (json_text (state_json st)) = Some (norm_state st)"
  by (simp add: unmarshal_state_def json_parse_text state_of_json)

lemma unmarshal_marshal_attachment:
  "unmarshal_attachment (json_text (attachment_json a)) = Some (norm_attachment a)"
  by (simp add: unmarshal_attachment_def json_parse_text attachment_of_json)

lemma decode_attachments_append:
  "decode_attachments (xs @ ys) = decode_attachments xs @ decode_attachments ys"
  by (induction xs) (auto split: option.splits)

lemma decode_marshalled:
  "decode_attachments (map (\<lambda>a. json_text (attachment_json a)) atts) = map norm_attachment atts"
  by (induction atts) (simp_all add: unmarshal_marshal_attachment)

lemma db_pair_state:
  "unmarshal_state v = Some st \<Longrightarrow> db_pair (db(stateKey a b \<mapsto> RStr v))
     = (db_pair db)((a, b) := (db_pair db (a, b)) \<lparr> pv_state := Some st \<rparr>)"
  by (auto simp: db_pair_def fun_eq_iff list_at_def)

lemma db_pair_buffer:
  "db_pair (db(bufferKey a b \<mapsto> RList xs))
     = (db_pair db)((a, b) := (db_pair db (a, b)) \<lparr> pv_buffer := xs \<rparr>)"
  by (auto simp: db_pair_def fun_eq_iff list_at_def)

lemma db_pair_attach:
  "db_pair (db(attachBufferKey a b \<mapsto> RList xs))
     = (db_pair db)((a, b) := (db_pair db (a, b)) \<lparr> pv_atts := decode_attachments xs \<rparr>)"
  by (auto simp: db_pair_def fun_eq_iff list_at_def)

lemma db_pair_timer:
  "db_pair (db(timerKey a b \<mapsto> RStr v))
     = (db_pair db)((a, b) := (db_pair db (a, b)) \<lparr> pv_timer := True \<rparr>)"
  by (auto simp: db_pair_def fun_eq_iff list_at_def)

lemma db_pair_del_timer:
  "db_pair (del_keys db [timerKey a b])
     = (db_pair db)((a, b) := (db_pair db (a, b)) \<lparr> pv_timer := False \<rparr>)"
  by (auto simp: db_pair_def fun_eq_iff list_at_def del_keys_def)

lemma db_pair_clear:
  "db_pair (del_keys db [stateKey a b, bufferKey a b, attachBufferKey a b, timerKey a b])
     = (db_pair db)((a, b) := blank)"
  by (auto simp: db_pair_def fun_eq_iff list_at_def del_keys_def blank_def)

lemma db_pair_lock:
  "(\<forall>k. k \<noteq> lockKey a b \<longrightarrow> db' k = db k) \<Longrightarrow> db_pair db' = db_pair db"
  by (auto simp: db_pair_def fun_eq_iff list_at_def)

lemma typed_state:
  "unmarshal_state v \<noteq> None \<Longrightarrow> typed_db db \<Longrightarrow> typed_db (db(stateKey a b \<mapsto> RStr v))"
  by (auto simp: typed_db_def is_list_def is_str_def)

lemma typed_list:
  "typed_db db \<Longrightarrow> typed_db (db(bufferKey a b \<mapsto> RList xs))"
  "typed_db db \<Longrightarrow> typed_db (db(attachBufferKey a b \<mapsto> RList xs))"
  by (auto simp: typed_db_def is_list_def is_str_def)

lemma typed_timer: "typed_db db \<Longrightarrow> typed_db (db(timerKey a b \<mapsto> RStr v))"
  by (auto simp: typed_db_def is_list_def is_str_def)

lemma typed_del: "typed_db db \<Longrightarrow> typed_db (del_keys db ks)"
  by (auto simp: typed_db_def is_list_def is_str_def del_keys_def)

lemma typed_lock:
  "(\<forall>k. k \<noteq> lockKey a b \<longrightarrow> db' k = db k) \<Longrightarrow> typed_db db \<Longrightarrow> typed_db db'"
  by (simp add: typed_db_def is_list_def is_str_def)

text \<open>A write of the abstract store, from the write law of the server.\<close>

lemma wrote_changed:
  assumes "wrote e db want db'" "db_pair want = (db_pair db)(p := f (db_pair db p))"
  shows "changed e p f (db_pair db) (db_pair db')"
  using assms by (auto simp: wrote_def changed_def split: option.splits)

lemma wrote_typed: "wrote e db want db' \<Longrightarrow> typed_db db \<Longrightarrow> typed_db want \<Longrightarrow> typed_db db'"
  by (auto simp: wrote_def split: option.splits)

section \<open>The contract holds\<close>

lemma redis_only_upd [simp]: "redis_only w (w \<lparr> w_redis := r \<rparr>)"
  by (simp add: redis_only_def)

lemma redis_view_upd [simp]: "redis_view v (w \<lparr> w_redis := r \<rparr>) = db_pair (v r)"
  by (simp add: redis_view_def)

text \<open>A command that writes.\<close>

lemma write_contract:
  assumes "run (redis_op c ctx f) w = (e, es, w')" "redis_sound rc v w"
    and "\<And>e' r'. f (ctx_done w ctx) (w_redis w) = (e', r') \<Longrightarrow> wrote e' (v (w_redis w)) want (v r')"
    and "typed_db want"
    and "db_pair want = (db_pair (v (w_redis w)))(p := g (db_pair (v (w_redis w)) p))"
  shows "redis_sound rc v w' \<and> redis_only w w' \<and>
    changed e p g (redis_view v w) (redis_view v w')"
proof -
  obtain r' where f: "f (ctx_done w ctx) (w_redis w) = (e, r')" and w': "w' = w \<lparr> w_redis := r' \<rparr>"
    using assms(1) by (auto simp: run_redis_op split: prod.splits)
  from assms(3) [OF f] have wr: "wrote e (v (w_redis w)) want (v r')" .
  then have "typed_db (v r')" using assms by (auto simp: redis_sound_def intro: wrote_typed)
  moreover have "changed e p g (db_pair (v (w_redis w))) (db_pair (v r'))"
    using wr assms(5) by (rule wrote_changed)
  ultimately show ?thesis
    using assms(2) by (simp add: w' redis_sound_def redis_view_def)
qed

lemma SetState_contract:
  assumes "redis_sound rc v w" "run (SetState rc c a b st) w = (e, es, w')"
  shows "redis_sound rc v w' \<and> redis_only w w' \<and>
    changed e (a, b) (pv_state_update (\<lambda>_. Some (norm_state st))) (redis_view v w) (redis_view v w')"
proof -
  from assms(1) have laws: "redis_laws rc v" "typed_db (v (w_redis w))"
    by (simp_all add: redis_sound_def)
  show ?thesis
    by (rule write_contract [OF assms(2) [unfolded SetState_def Let_def] assms(1)],
        erule law_Set [OF laws(1)], simp add: typed_state unmarshal_marshal_state laws, simp add: db_pair_state [OF unmarshal_marshal_state])
qed

lemma SetTimer_contract:
  assumes "redis_sound rc v w" "run (SetTimer rc c a b ttl) w = (e, es, w')"
  shows "redis_sound rc v w' \<and> redis_only w w' \<and>
    changed e (a, b) (pv_timer_update (\<lambda>_. True)) (redis_view v w) (redis_view v w')"
proof -
  from assms(1) have laws: "redis_laws rc v" "typed_db (v (w_redis w))"
    by (simp_all add: redis_sound_def)
  show ?thesis
    by (rule write_contract [OF assms(2) [unfolded SetTimer_def Let_def] assms(1)],
        erule law_Set [OF laws(1)], simp add: typed_timer laws, simp add: db_pair_timer)
qed

lemma ClearState_contract:
  assumes "redis_sound rc v w" "run (ClearState rc c a b) w = (e, es, w')"
  shows "redis_sound rc v w' \<and> redis_only w w' \<and>
    changed e (a, b) (\<lambda>_. blank) (redis_view v w) (redis_view v w')"
proof -
  from assms(1) have laws: "redis_laws rc v" "typed_db (v (w_redis w))"
    by (simp_all add: redis_sound_def)
  show ?thesis
    by (rule write_contract [OF assms(2) [unfolded ClearState_def Let_def] assms(1)],
        erule law_Del [OF laws(1)], simp add: typed_del laws, simp add: db_pair_clear)
qed

lemma DeleteTimer_contract:
  assumes "redis_sound rc v w" "run (DeleteTimer rc c a b) w = (e, es, w')"
  shows "redis_sound rc v w' \<and> redis_only w w' \<and>
    changed e (a, b) (pv_timer_update (\<lambda>_. False)) (redis_view v w) (redis_view v w')"
proof -
  from assms(1) have laws: "redis_laws rc v" "typed_db (v (w_redis w))"
    by (simp_all add: redis_sound_def)
  show ?thesis
    by (rule write_contract [OF assms(2) [unfolded DeleteTimer_def Let_def] assms(1)],
        erule law_Del [OF laws(1)], simp add: typed_del laws, simp add: db_pair_del_timer)
qed

lemma typed_is_list:
  "typed_db db \<Longrightarrow> is_list db (bufferKey a b) \<and> is_list db (attachBufferKey a b)"
  by (simp add: typed_db_def)

lemma AppendToBuffer_contract:
  assumes "redis_sound rc v w" "run (AppendToBuffer rc c a b m) w = (e, es, w')"
  shows "redis_sound rc v w' \<and> redis_only w w' \<and>
    changed e (a, b) (pv_buffer_update (\<lambda>ms. ms @ [m])) (redis_view v w) (redis_view v w')"
proof -
  let ?db = "v (w_redis w)"
  from assms have laws: "redis_laws rc v" "typed_db ?db"
    by (simp_all add: redis_sound_def)
  have eq: "list_at ?db (bufferKey a b) = pv_buffer (db_pair ?db (a, b))"
    by (simp add: db_pair_def)
  show ?thesis
    by (rule write_contract [OF assms(2) [unfolded AppendToBuffer_def Let_def] assms(1)],
        erule law_RPush [OF laws(1)], simp add: typed_is_list laws, simp add: typed_list laws,
        simp add: db_pair_buffer eq, cases "db_pair ?db (a, b)", simp)
qed

lemma AppendAttachments_contract:
  assumes "redis_sound rc v w" "run (AppendAttachments rc c a b atts) w = (e, es, w')"
  shows "redis_sound rc v w' \<and> redis_only w w' \<and>
    changed e (a, b) (pv_atts_update (\<lambda>as. as @ map norm_attachment atts))
      (redis_view v w) (redis_view v w')"
proof (cases "atts = []")
  case True
  have "s(p := pv_atts_update (\<lambda>as. as) (s p)) = s" for s :: store and p by (simp add: fun_eq_iff)
  with True assms show ?thesis by (auto simp: AppendAttachments_def)
next
  case False
  let ?k = "attachBufferKey a b" and ?vs = "map (\<lambda>a. json_text (attachment_json a)) atts"
  let ?f = "\<lambda>d. rc_RPush rc d ?k ?vs" and ?x = "redis_op (CmdExpire ?k attachBufferTTL) c
    (\<lambda>d. rc_Expire rc d ?k attachBufferTTL)"
  obtain e0 r' where *: "?f (ctx_done w c) (w_redis w) = (e0, r')" by fastforce
  from assms have laws: "redis_laws rc v" "typed_db (v (w_redis w))"
    by (simp_all add: redis_sound_def)
  define w1 where "w1 = w \<lparr> w_redis := r' \<rparr>"
  have push: "run (redis_op (CmdRPush ?k ?vs) c ?f) w = (e0, [EvRedis (CmdRPush ?k ?vs)], w1)"
    using * by (simp add: run_redis_op w1_def)
  have eq: "decode_attachments (list_at (v (w_redis w)) ?k) = pv_atts (db_pair (v (w_redis w)) (a, b))"
    by (simp add: db_pair_def)
  have pushed: "redis_sound rc v w1 \<and> redis_only w w1 \<and>
    changed e0 (a, b) (pv_atts_update (\<lambda>as. as @ map norm_attachment atts))
      (redis_view v w) (redis_view v w1)"
    by (rule write_contract [OF push assms(1)], erule law_RPush [OF laws(1)],
        simp add: typed_is_list laws, simp add: typed_list laws,
        simp add: db_pair_attach decode_attachments_append decode_marshalled eq,
        cases "db_pair (v (w_redis w)) (a, b)", simp)
  show ?thesis
  proof (cases e0)
    case None
    obtain e1 r1 where **: "rc_Expire rc (ctx_done w1 c) ?k attachBufferTTL r' = (e1, r1)"
      by fastforce
    have "v r1 = v r'" by (rule law_Expire [OF laws(1) **]) (simp add: attachBufferTTL_def)
    moreover have "e = e1" "w' = w1 \<lparr> w_redis := r1 \<rparr>"
      using assms(2) False ** None push
      by (auto simp: AppendAttachments_def Let_def run_bind run_redis_op w1_def)
    ultimately show ?thesis
      using pushed None by (auto simp: changed_def redis_sound_def redis_view_def w1_def split: option.splits)
  next
    case (Some x)
    with assms(2) False push pushed show ?thesis
      by (auto simp: AppendAttachments_def Let_def run_bind)
  qed
qed

lemma typed_state_str:
  assumes "typed_db db"
  shows "is_str db (stateKey a b)"
proof -
  have "case db (stateKey a b) of
      None \<Rightarrow> True | Some (RStr s) \<Rightarrow> unmarshal_state s \<noteq> None | Some (RList _) \<Rightarrow> False"
    using assms by (simp add: typed_db_def)
  then show ?thesis by (auto simp: is_str_def split: option.splits redis_value.splits)
qed

lemma GetState_contract:
  assumes "redis_sound rc v w" "run (GetState rc c a b) w = (r, es, w')"
  shows "redis_sound rc v w' \<and> redis_only w w' \<and> redis_view v w' = redis_view v w \<and>
    (\<forall>x. r = Inr x \<longrightarrow> x = pv_state (redis_view v w (a, b)))"
proof -
  obtain x r' where *: "rc_Get rc (ctx_done w c) (stateKey a b) (w_redis w) = (x, r')" by fastforce
  from assms have laws: "redis_laws rc v" "typed_db (v (w_redis w))"
    by (simp_all add: redis_sound_def)
  note get = law_Get [OF laws(1) *]
  from get typed_state_str [OF laws(2)] have val: "\<forall>y. x = Inr y \<longrightarrow> map_option RStr y = v (w_redis w) (stateKey a b)" by blast
  have "\<forall>y. r = Inr y \<longrightarrow> y = pv_state (db_pair (v (w_redis w)) (a, b))"
    using assms(2) val
    by (auto simp: GetState_def Let_def run_bind run_redis_op * db_pair_def
        split: sum.splits option.splits redis_value.splits)
  moreover have "w' = w \<lparr> w_redis := r' \<rparr>"
    using assms(2) by (auto simp: GetState_def Let_def run_bind run_redis_op * split: sum.splits option.splits)
  ultimately show ?thesis
    using get laws by (simp add: redis_sound_def redis_view_def)
qed

lemma GetBuffer_contract:
  assumes "redis_sound rc v w" "run (GetBuffer rc c a b) w = (r, es, w')"
  shows "redis_sound rc v w' \<and> redis_only w w' \<and> redis_view v w' = redis_view v w \<and>
    (\<forall>ms. r = Inr ms \<longrightarrow> ms = pv_buffer (redis_view v w (a, b)))"
proof -
  obtain x r' where *: "rc_LRange rc (ctx_done w c) (bufferKey a b) (w_redis w) = (x, r')" by fastforce
  from assms have laws: "redis_laws rc v" "typed_db (v (w_redis w))"
    by (simp_all add: redis_sound_def)
  from law_LRange [OF laws(1) *] laws assms(2) typed_is_list [OF laws(2)] show ?thesis
    by (auto simp: GetBuffer_def Let_def run_redis_op * redis_sound_def redis_view_def db_pair_def)
qed

lemma GetAttachments_contract:
  assumes "redis_sound rc v w" "run (GetAttachments rc c a b) w = (r, es, w')"
  shows "redis_sound rc v w' \<and> redis_only w w' \<and> redis_view v w' = redis_view v w \<and>
    (\<forall>as. r = Inr as \<longrightarrow> as = pv_atts (redis_view v w (a, b)))"
proof -
  obtain x r' where *: "rc_LRange rc (ctx_done w c) (attachBufferKey a b) (w_redis w) = (x, r')"
    by fastforce
  from assms have laws: "redis_laws rc v" "typed_db (v (w_redis w))"
    by (simp_all add: redis_sound_def)
  from law_LRange [OF laws(1) *] laws assms(2) typed_is_list [OF laws(2)] show ?thesis
    by (auto simp: GetAttachments_def Let_def run_bind run_redis_op * redis_sound_def redis_view_def
        db_pair_def split: sum.splits)
qed

lemma TimerExists_contract:
  assumes "redis_sound rc v w" "run (TimerExists rc c a b) w = (r, es, w')"
  shows "redis_sound rc v w' \<and> redis_only w w' \<and> redis_view v w' = redis_view v w \<and>
    (\<forall>x. r = Inr x \<longrightarrow> x = pv_timer (redis_view v w (a, b)))"
proof -
  obtain x r' where *: "rc_Exists rc (ctx_done w c) (timerKey a b) (w_redis w) = (x, r')"
    by fastforce
  from assms have laws: "redis_laws rc v" "typed_db (v (w_redis w))"
    by (simp_all add: redis_sound_def)
  from law_Exists [OF laws(1) *] laws assms(2) show ?thesis
    by (auto simp: TimerExists_def Let_def run_bind run_redis_op * redis_sound_def redis_view_def
        db_pair_def split: sum.splits)
qed

lemma AcquireLock_contract:
  assumes "redis_sound rc v w" "run (AcquireLock rc c a b) w = (r, es, w')"
  shows "redis_sound rc v w' \<and> redis_only w w' \<and> redis_view v w' = redis_view v w \<and>
    (\<forall>m. r = Inr m \<longrightarrow> redis_owns m (a, b) \<and> \<not> redis_locked v w (a, b) \<and> redis_locked v w' (a, b))"
proof -
  obtain x r' where *: "rc_Lock rc (ctx_done w c) (lockKey a b) (w_redis w) = (x, r')"
    by fastforce
  from assms have laws: "redis_laws rc v" "typed_db (v (w_redis w))"
    by (simp_all add: redis_sound_def)
  note lock = law_Lock [OF laws(1) *]
  have "typed_db (v r')" "db_pair (v r') = db_pair (v (w_redis w))"
    using lock laws by (auto intro: typed_lock db_pair_lock)
  with lock laws assms(2) show ?thesis
    by (auto simp: AcquireLock_def Let_def run_bind run_redis_op * redis_sound_def redis_view_def
        redis_owns_def redis_locked_def split: sum.splits)
qed

lemma Unlock_contract:
  assumes "redis_sound rc v w" "redis_owns m p" "run (Unlock rc m) w = (ok, es, w')"
  shows "redis_sound rc v w' \<and> redis_only w w' \<and> redis_view v w' = redis_view v w \<and>
    (\<forall>q. q \<noteq> p \<longrightarrow> redis_locked v w' q = redis_locked v w q) \<and> (ok \<longrightarrow> \<not> redis_locked v w' p)"
proof -
  obtain x r' where *: "rc_Unlock rc m (w_redis w) = (x, r')" by fastforce
  from assms have laws: "redis_laws rc v" "typed_db (v (w_redis w))"
    by (simp_all add: redis_sound_def)
  note unlock = law_Unlock [OF laws(1) *]
  have others: "\<forall>k. k \<noteq> lockKey (fst p) (snd p) \<longrightarrow> v r' k = v (w_redis w) k"
    using unlock assms(2) by (simp add: redis_owns_def)
  then have "typed_db (v r')" "db_pair (v r') = db_pair (v (w_redis w))"
    using laws by (auto intro: typed_lock db_pair_lock)
  moreover have "\<forall>q. q \<noteq> p \<longrightarrow> v r' (lockKey (fst q) (snd q)) = v (w_redis w) (lockKey (fst q) (snd q))"
    using others by (simp add: prod_eq_iff)
  moreover have "x \<longrightarrow> v r' (lockKey (fst p) (snd p)) = None"
    using unlock assms(2) by (simp add: redis_owns_def)
  moreover have "ok = x" "w' = w \<lparr> w_redis := r' \<rparr>"
    using assms(3) by (simp_all add: Unlock_def run_redis_op *)
  ultimately show ?thesis using laws
    by (simp add: redis_sound_def redis_view_def redis_locked_def)
qed

lemma ScanStates_contract:
  assumes "redis_sound rc v w" "run (ScanStates rc fuel c maxPairs) w = (r, es, w')"
  shows "redis_sound rc v w' \<and> redis_only w w' \<and> redis_view v w' = redis_view v w"
proof -
  have "redis_sound rc v w' \<and> redis_only w w' \<and> redis_view v w' = redis_view v w"
    if "redis_sound rc v w" "run (scan_loop rc c maxPairs fuel cur ps) w = (r, es, w')" for cur ps w es
    using that
  proof (induction fuel arbitrary: cur ps w es)
    case (Suc fuel)
    obtain x r' where *: "rc_Scan rc (ctx_done w c) cur (w_redis w) = (x, r')" by fastforce
    from Suc.prems(1) have laws: "redis_laws rc v" "typed_db (v (w_redis w))"
      by (simp_all add: redis_sound_def)
    let ?w1 = "w \<lparr> w_redis := r' \<rparr>"
    have v: "v r' = v (w_redis w)" by (rule law_Scan [OF laws(1) *])
    with laws have 1: "redis_sound rc v ?w1" "redis_only w ?w1" "redis_view v ?w1 = redis_view v w"
      by (simp_all add: redis_sound_def redis_view_def)
    show ?case
    proof (cases x)
      case (Inl err)
      with Suc.prems(2) 1 show ?thesis by (auto simp: run_bind run_redis_op *)
    next
      case (Inr page)
      obtain keys cur' where page: "page = (keys, cur')" by fastforce
      show ?thesis
      proof (cases "isl (scan_keys maxPairs keys ps) \<or> cur' = 0")
        case True
        with Suc.prems(2) Inr page 1 show ?thesis
          by (auto simp: run_bind run_redis_op * isl_def split: sum.splits)
      next
        case False
        then obtain ps' where ps': "scan_keys maxPairs keys ps = Inr ps'" "cur' \<noteq> 0"
          by (auto simp: isl_def)  (metis sum.exhaust)
        with Suc.prems(2) Inr page obtain es' where
          "run (scan_loop rc c maxPairs fuel cur' ps') ?w1 = (r, es', w')"
          by (auto simp: run_bind run_redis_op * split: prod.splits)
        from Suc.IH [OF 1(1) this] 1(3) redis_only_trans [OF 1(2)] show ?thesis by metis
      qed
    qed
  qed simp
  with assms show ?thesis by (simp add: ScanStates_def)
qed

lemma redis_frame:
  "w_redis w' = w_redis w \<Longrightarrow> redis_sound rc v w' = redis_sound rc v w \<and>
     redis_view v w' = redis_view v w \<and> redis_locked v w' = redis_locked v w"
  by (auto simp: redis_sound_def redis_view_def redis_locked_def fun_eq_iff)

lemma repo_sel [simp]:
  "repo_GetState (NewPipelineRepository rc fuel) = GetState rc"
  "repo_SetState (NewPipelineRepository rc fuel) = SetState rc"
  "repo_ClearState (NewPipelineRepository rc fuel) = ClearState rc"
  "repo_AppendToBuffer (NewPipelineRepository rc fuel) = AppendToBuffer rc"
  "repo_GetBuffer (NewPipelineRepository rc fuel) = GetBuffer rc"
  "repo_AppendAttachments (NewPipelineRepository rc fuel) = AppendAttachments rc"
  "repo_GetAttachments (NewPipelineRepository rc fuel) = GetAttachments rc"
  "repo_SetTimer (NewPipelineRepository rc fuel) = SetTimer rc"
  "repo_DeleteTimer (NewPipelineRepository rc fuel) = DeleteTimer rc"
  "repo_TimerExists (NewPipelineRepository rc fuel) = TimerExists rc"
  "repo_AcquireLock (NewPipelineRepository rc fuel) = AcquireLock rc"
  "repo_Unlock (NewPipelineRepository rc fuel) = Unlock rc"
  "repo_Ping (NewPipelineRepository rc fuel) = Ping rc"
  "repo_ScanStates (NewPipelineRepository rc fuel) = ScanStates rc fuel"
  by (simp_all add: NewPipelineRepository_def)

interpretation redis_repo: pipeline_repository "NewPipelineRepository rc fuel" "redis_view v"
  "redis_sound rc v" "redis_locked v" redis_owns for rc fuel v
  apply unfold_locales
  unfolding repo_sel
  by (erule (1) SetState_contract,
     erule (1) ClearState_contract,
     erule (1) GetState_contract,
     erule (1) AppendToBuffer_contract,
     erule (1) GetBuffer_contract,
     erule (1) AppendAttachments_contract,
     erule (1) GetAttachments_contract,
     erule (1) SetTimer_contract,
     erule (1) DeleteTimer_contract,
     erule (1) TimerExists_contract,
     erule (1) AcquireLock_contract,
     erule (2) Unlock_contract,
     erule (1) ScanStates_contract,
     erule redis_frame)

section \<open>Properties\<close>

text \<open>
  C31 (state_roundtrip). What \<open>SetState\<close> stored for a pair is what \<open>GetState\<close> reads for it:
  all nine fields, up to the replacement of invalid UTF-8, the normal form of the delay's
  decimal and the omission of an empty metadata map; and a pair that was not written reads
  as before.
\<close>

theorem state_roundtrip:
  assumes "redis_sound rc v w" "run (SetState rc c a b st) w = (None, es, w1)"
    and "run (GetState rc c' a' b') w1 = (Inr x, es', w2)"
  shows "x = (if (a', b') = (a, b) then Some (norm_state st) else pv_state (redis_view v w (a', b')))"
  using redis_repo.GetState [of rc v w1 _ c' a' b' "Inr x" es' w2]
    SetState_contract [OF assms(1,2)] assms(3) by auto

definition demo_state :: PipelineState where
  "demo_state = stageState StageDebounce ''2025-01-01T00:00:00Z'' \<lparr> st_ApiKey := ''k'' \<rparr>"

definition empty_redis :: mem_redis where
  "empty_redis = \<lparr> mr_db = [], mr_token = 0 \<rparr>"

lemma empty_sound [simp]: "redis_sound mem_client mem_view (boot_world empty_redis n)"
  by (simp add: redis_sound_def mem_client_laws boot_world_def empty_redis_def mem_view_def
      typed_db_def is_list_def is_str_def)

lemmas mem_eval = Let_def run_redis_op run_bind mem_client_def mem_view_put mem_view_del boot_world_def
  empty_redis_def

theorem state_roundtrip_witness:
  "\<exists>es w1 x es' w2.
     run (SetState mem_client [] 7 9 demo_state) (boot_world empty_redis ()) = (None, es, w1) \<and>
     run (GetState mem_client [] 7 9) w1 = (Inr x, es', w2) \<and> x = Some (norm_state demo_state)"
proof -
  let ?w = "boot_world empty_redis ()"
  obtain es w1 where set: "run (SetState mem_client [] 7 9 demo_state) ?w = (None, es, w1)"
    by (simp add: SetState_def mem_eval)
  moreover obtain x es' w2 where get: "run (GetState mem_client [] 7 9) w1 = (Inr x, es', w2)"
    using set by (auto simp: SetState_def GetState_def mem_eval unmarshal_marshal_state)
  ultimately show ?thesis using state_roundtrip [OF empty_sound set get] by auto
qed

text \<open>
  \<open>ClearState\<close> removes everything a pair has in the store (its
  stage, its two buffers, its timer) and nothing of any other pair.
\<close>

theorem clear_state_isolated:
  assumes "redis_sound rc v w" "run (ClearState rc c a b) w = (None, es, w')"
  shows "redis_view v w' = (redis_view v w)((a, b) := blank)"
  using ClearState_contract [OF assms] by simp

theorem clear_state_isolated_witness:
  "\<exists>es w'. run (ClearState mem_client [] 7 9) (boot_world empty_redis ()) = (None, es, w') \<and>
     redis_view mem_view w' (7, 9) = blank"
proof -
  obtain es w' where *:
    "run (ClearState mem_client [] 7 9) (boot_world empty_redis ()) = (None, es, w')"
    by (simp add: ClearState_def mem_eval)
  from clear_state_isolated [OF empty_sound this] * show ?thesis by auto
qed



text \<open>The pair a state key names.\<close>

lemma parse_state_key_inverse:
  "parse_state_key (stateKey a b) = Some \<lparr> p_ContactID = a, p_ConversationID = b \<rparr>"
proof -
  have none: "\<forall>d \<in> set (itoa i). \<not> (\<lambda>d. d = CHR '':'') d" for i
    using itoa_no_colon by metis
  have "split_char (stateKey a b) (CHR '':'')
      = [''bot_runtime'', ''state'', itoa (sint a), itoa (sint b)]"
    using splitOn_append_sep [of "\<lambda>d. d = CHR '':''" "CHR '':''" "itoa (sint a)" "itoa (sint b)"]
      splitOn_none [OF none]
    by (simp add: split_char_def stateKey_def pair_text_def)
  then show ?thesis by (simp add: parse_state_key_def ParseInt_itoa)
qed

lemma scan_keys_bound:
  "0 \<le> maxPairs \<Longrightarrow> int (length pairs) \<le> maxPairs \<Longrightarrow>
     (case scan_keys maxPairs keys pairs of Inl ps \<Rightarrow> int (length ps) \<le> maxPairs
      | Inr ps \<Rightarrow> int (length ps) \<le> maxPairs)"
  by (induction maxPairs keys pairs rule: scan_keys.induct) (auto split: option.splits)

lemma scan_loop_bound:
  "outcomes (scan_loop rc c maxPairs fuel cur pairs ::
       ('r, 'n, (go_error + PairID list) option) go) r es \<Longrightarrow> r = Some (Inr ps) \<Longrightarrow>
     0 \<le> maxPairs \<Longrightarrow> int (length pairs) \<le> maxPairs \<Longrightarrow> int (length ps) \<le> maxPairs"
proof (induction fuel arbitrary: cur pairs es)
  case (Suc fuel)
  have bound: "case scan_keys maxPairs keys pairs of Inl ps \<Rightarrow> int (length ps) \<le> maxPairs
      | Inr ps \<Rightarrow> int (length ps) \<le> maxPairs" for keys
    using Suc.prems by (intro scan_keys_bound)
  from Suc.prems(1,2) obtain p es2 where
    cont: "outcomes (case p of Inl err \<Rightarrow> Done (Some (Inl (Wrap ''pipeline.repository.scan_states'' err)))
       | Inr (keys, next_cursor) \<Rightarrow>
           (case scan_keys maxPairs keys pairs of
              Inl ps \<Rightarrow> Done (Some (Inr ps))
            | Inr ps \<Rightarrow>
                if next_cursor = 0 then Done (Some (Inr ps))
                else (scan_loop rc c maxPairs fuel next_cursor ps ::
                        ('r, 'n, (go_error + PairID list) option) go))) (Some (Inr ps)) es2"
    by (simp only: scan_loop.simps outcomes_bind) blast
  then obtain keys cur' where p: "p = Inr (keys, cur')" by (cases p) auto
  show ?case
  proof (cases "scan_keys maxPairs keys pairs")
    case (Inl ps')
    with cont p bound [of keys] show ?thesis by simp
  next
    case (Inr ps')
    show ?thesis
    proof (cases "cur' = 0")
      case True
      with cont p Inr bound [of keys] show ?thesis by simp
    next
      case False
      with cont p Inr have "outcomes (scan_loop rc c maxPairs fuel cur' ps' ::
          ('r, 'n, (go_error + PairID list) option) go) r es2"
        using Suc.prems(2) by simp
      with Suc.IH Suc.prems(2,3) bound [of keys] Inr show ?thesis by simp
    qed
  qed
qed simp

text \<open>
  \<open>ScanStates\<close> returns at most \<open>maxPairs\<close> pairs, whatever pages the
  server sends and whatever else happens meanwhile.
\<close>

theorem scan_bounded:
  assumes "outcomes (ScanStates rc fuel c maxPairs) (Some (Inr ps)) es" "0 \<le> maxPairs"
  shows "int (length ps) \<le> maxPairs"
  using scan_loop_bound assms by (fastforce simp: ScanStates_def)

lemma has_prefix_append: "has_prefix (p @ s) p"
  by (simp add: has_prefix_def)

theorem scan_bounded_witness:
  "\<exists>ps es. outcomes (ScanStates mem_client 1 [] 1 ::
       (mem_redis, unit, (go_error + PairID list) option) go) (Some (Inr ps)) es \<and>
     ps = [\<lparr> p_ContactID = 7, p_ConversationID = 9 \<rparr>] \<and> int (length ps) \<le> 1"
proof -
  let ?r = "\<lparr> mr_db = [(stateKey 7 9, RStr []), (stateKey 7 10, RStr [])], mr_token = 0 \<rparr>"
  let ?ps = "[\<lparr> p_ContactID = 7, p_ConversationID = 9 \<rparr>]"
  have pre: "has_prefix (stateKey a b) ''bot_runtime:state:''" for a b
    unfolding stateKey_def by (rule has_prefix_append)
  have "fst (run (ScanStates mem_client 1 [] 1) (boot_world ?r ())) = Some (Inr ?ps)"
    by (simp add: ScanStates_def One_nat_def mem_eval parse_state_key_inverse pre
        del: has_prefix_Cons)
  then obtain es w where "run (ScanStates mem_client 1 [] 1) (boot_world ?r ()) = (Some (Inr ?ps), es, w)"
    by (metis prod.exhaust_sel)
  from run_outcomes [OF this] show ?thesis using scan_bounded [of mem_client 1 "[]" 1 ?ps] by auto
qed



end
