(* ===== verification/Media_Urls.thy ===== *)
theory Media_Urls
  imports Bot_Model "HOL-Library.Sublist"
begin

text \<open>
  Media detection of \<open>pkg/dispatch/service/dispatch_engine.go\<close>: the URL pattern, the type by
  file extension and \<open>extractMediaURLs\<close>, which takes the media URLs out of a response.
\<close>

section \<open>The pattern https?://[^\s<>"']+\<close>

text \<open>
  The class excludes ASCII characters only, so matching bytes is matching runes. \<open>url_at\<close> is
  the match that starts at the head of the input.
\<close>

definition url_char :: "char \<Rightarrow> bool" where
  "url_char c \<longleftrightarrow> c \<notin> {CHR 0x09, CHR 0x0A, CHR 0x0C, CHR 0x0D, CHR 0x20,
     CHR ''<'', CHR ''>'', CHR 0x22, CHR 0x27}"

definition scheme_match :: "string \<Rightarrow> string \<Rightarrow> string option" where
  "scheme_match p s =
     (let rest = takeWhile url_char (drop (length p) s)
      in if has_prefix s p \<and> rest \<noteq> [] then Some (p @ rest) else None)"

definition url_at :: "string \<Rightarrow> string option" where
  "url_at s =
     (case scheme_match ''https://'' s of
        Some u \<Rightarrow> Some u
      | None \<Rightarrow> scheme_match ''http://'' s)"

lemma scheme_match_prefix: "scheme_match p s = Some u \<Longrightarrow> take (length u) s = u \<and> u \<noteq> []"
proof -
  let ?r = "takeWhile url_char (drop (length p) s)"
  assume "scheme_match p s = Some u"
  then have u: "u = p @ ?r" "?r \<noteq> []" "has_prefix s p"
    by (auto simp: scheme_match_def Let_def split: if_splits)
  from u(3) have "s = p @ drop (length p) s" by (metis append_take_drop_id has_prefix_def)
  also have "\<dots> = u @ dropWhile url_char (drop (length p) s)"
    unfolding u(1) append_assoc takeWhile_dropWhile_id by (rule refl)
  finally have "s = u @ dropWhile url_char (drop (length p) s)" .
  then have "take (length u) s = u" by (metis append_eq_conv_conj)
  with u show ?thesis by simp
qed

lemma url_at_prefix: "url_at s = Some u \<Longrightarrow> take (length u) s = u \<and> u \<noteq> []"
  by (auto simp: url_at_def scheme_match_prefix split: option.splits)

text \<open>\<open>FindAllString\<close>: the leftmost matches that do not overlap.\<close>

function find_urls :: "string \<Rightarrow> string list" where
  "find_urls [] = []"
| "find_urls (c # cs) =
     (case url_at (c # cs) of
        None \<Rightarrow> find_urls cs
      | Some u \<Rightarrow> u # find_urls (drop (length u) (c # cs)))"
  by pat_completeness auto
termination
  by (relation "measure length") (auto dest: url_at_prefix)

section \<open>The type of a URL\<close>

definition mediaExtToFileType :: "string \<Rightarrow> string" where
  "mediaExtToFileType ext =
     (if ext \<in> {''jpg'', ''jpeg'', ''png'', ''gif'', ''bmp'', ''webp'', ''svg'', ''tiff''} then ''image''
      else if ext \<in> {''mp3'', ''wav'', ''ogg'', ''m4a'', ''aac'', ''flac''} then ''audio''
      else if ext \<in> {''mp4'', ''avi'', ''mov'', ''wmv'', ''flv'', ''mkv'', ''webm''} then ''video''
      else if ext \<in> {''pdf'', ''doc'', ''docx'', ''xls'', ''xlsx'', ''ppt'', ''pptx'', ''txt'',
                     ''rtf'', ''odt''} then ''file''
      else [])"

definition trailingPunct :: string where
  "trailingPunct = '')].,!?;:''"

definition mediaFileType :: "string \<Rightarrow> string" where
  "mediaFileType url =
     (let path = (case index_any url ''?#'' of Some i \<Rightarrow> take i url | None \<Rightarrow> url);
          seg = (case last_index path (CHR ''/'') of Some i \<Rightarrow> drop (i + 1) path | None \<Rightarrow> path)
      in case last_index seg (CHR ''.'') of
           None \<Rightarrow> []
         | Some d \<Rightarrow> mediaExtToFileType (to_lower (drop (d + 1) seg)))"

section \<open>extractMediaURLs\<close>

record postbackAttachment =
  pa_URL :: string
  pa_FileType :: string

fun media_loop ::
  "string list \<Rightarrow> string \<Rightarrow> postbackAttachment list \<Rightarrow> string \<times> postbackAttachment list" where
  "media_loop [] residual atts = (residual, atts)"
| "media_loop (rawURL # urls) residual atts =
     (let url = trim_right rawURL trailingPunct;
          fileType = mediaFileType url
      in if fileType = [] then media_loop urls residual atts
         else media_loop urls (replace_first residual rawURL [])
                (atts @ [\<lparr> pa_URL = url, pa_FileType = fileType \<rparr>]))"

definition extractMediaURLs :: "string \<Rightarrow> string \<times> postbackAttachment list" where
  "extractMediaURLs content =
     (case media_loop (find_urls content) content [] of
        (residual, atts) \<Rightarrow> (trim_space residual, atts))"

section \<open>Lemmas\<close>

lemma find_urls_flat:
  "\<exists>gaps. length gaps = Suc (length (find_urls s)) \<and>
     s = concat (map2 (@) gaps (find_urls s)) @ last gaps"
proof (induction s rule: find_urls.induct)
  case 1
  show ?case by (rule exI [of _ "[[]]"]) simp
next
  case (2 c cs)
  show ?case
  proof (cases "url_at (c # cs)")
    case None
    with 2 obtain gaps where g: "length gaps = Suc (length (find_urls cs))"
      "cs = concat (map2 (@) gaps (find_urls cs)) @ last gaps" by blast
    then obtain g0 gs where gs: "gaps = g0 # gs" by (cases gaps) auto
    show ?thesis
    proof (cases "find_urls cs")
      case Nil
      with g gs None show ?thesis by (intro exI [of _ "[c # g0]"]) auto
    next
      case (Cons u us)
      with g gs have "gs \<noteq> []" by auto
      with g gs None Cons show ?thesis by (intro exI [of _ "(c # g0) # gs"]) auto
    qed
  next
    case (Some u)
    with 2 obtain gaps where g: "length gaps = Suc (length (find_urls (drop (length u) (c # cs))))"
      "drop (length u) (c # cs) = concat (map2 (@) gaps (find_urls (drop (length u) (c # cs)))) @ last gaps"
      by blast
    have "c # cs = u @ drop (length u) (c # cs)"
      using url_at_prefix [OF Some] by (metis append_take_drop_id)
    moreover have "gaps \<noteq> []" using g by auto
    ultimately show ?thesis using g Some by (intro exI [of _ "[] # gaps"]) simp
  qed
qed

lemma subseq_replace_first: "subseq (replace_first s old []) s"
proof (cases "index_of s old")
  case (Some i)
  have "subseq (take i s @ drop (i + length old) s) (take i s @ old @ drop (i + length old) s)"
    by (intro list_emb_append_mono) auto
  with index_of_Some [OF Some] Some show ?thesis by (simp add: replace_first_def)
qed (simp add: replace_first_def)

lemma subseq_media_loop: "media_loop urls r atts = (r', atts') \<Longrightarrow> subseq r' r"
proof (induction urls r atts rule: media_loop.induct)
  case (2 rawURL urls r atts)
  then show ?case
    by (auto simp: Let_def split: if_splits intro: subseq_order.trans [OF _ subseq_replace_first])
qed auto

lemma trim_space_sublist: "\<exists>a b. s = a @ trim_space s @ b"
proof -
  let ?l = "takeWhile space_piece (runes s)" and ?m = "dropWhile space_piece (runes s)"
  let ?r = "rev (takeWhile space_piece (rev ?m))" and ?t = "rev (dropWhile space_piece (rev ?m))"
  have "?m = ?t @ ?r" by (metis rev_append rev_rev_ident takeWhile_dropWhile_id)
  then have "runes s = ?l @ ?t @ ?r" by (metis takeWhile_dropWhile_id)
  then have "unrunes (runes s) = unrunes ?l @ unrunes ?t @ unrunes ?r" by (metis concat_append map_append)
  then show ?thesis unfolding trim_space_def by auto
qed

lemma subseq_trim_space: "subseq (trim_space s) s"
proof -
  obtain a b where "s = a @ trim_space s @ b" using trim_space_sublist by blast
  moreover have "subseq (trim_space s) (a @ trim_space s @ b)"
    by (intro list_emb_append2 prefix_imp_subseq) simp
  ultimately show ?thesis by simp
qed

section \<open>Properties\<close>

text \<open>The media URLs of a text, in the order they occur.\<close>

definition media_urls :: "string \<Rightarrow> string list" where
  "media_urls content =
     filter (\<lambda>u. mediaFileType u \<noteq> []) (map (\<lambda>r. trim_right r trailingPunct) (find_urls content))"

lemma media_loop_atts:
  "snd (media_loop urls r atts) = atts @
     map (\<lambda>u. \<lparr> pa_URL = u, pa_FileType = mediaFileType u \<rparr>)
       (filter (\<lambda>u. mediaFileType u \<noteq> []) (map (\<lambda>r. trim_right r trailingPunct) urls))"
  by (induction urls r atts rule: media_loop.induct) (simp_all add: Let_def)

lemma extract_atts:
  "snd (extractMediaURLs content) =
     map (\<lambda>u. \<lparr> pa_URL = u, pa_FileType = mediaFileType u \<rparr>) (media_urls content)"
  using media_loop_atts [of "find_urls content" content "[]"]
  by (auto simp: extractMediaURLs_def media_urls_def split: prod.splits)

lemma media_loop_none:
  "filter (\<lambda>u. mediaFileType u \<noteq> []) (map (\<lambda>r. trim_right r trailingPunct) urls) = [] \<Longrightarrow>
     media_loop urls r atts = (r, atts)"
  by (induction urls r atts rule: media_loop.induct) (simp_all add: Let_def split: if_splits)


lemmas media_eval = media_urls_def find_urls.simps url_at_def scheme_match_def url_char_def
  has_prefix_def


lemma media_type_eval:
  "mediaFileType ''http://a/x.png/b'' = []"
  "mediaFileType ''http://a/x.png'' = ''image''"
  by (simp add: mediaFileType_def mediaExtToFileType_def to_lower_def runes.simps decode_rune_def
      lower_rune_def lower_ranges_def encode_rune_def encode_bytes_def char_of_def bit_Suc_0_iff)+

text \<open>
  What is removed is the first occurrence of the URL's text, not
  the match: a link that begins with the media URL loses its head, and the media URL itself
  stays in the text.
\<close>

theorem media_replace_defect:
  "fst (extractMediaURLs ''http://a/x.png/b http://a/x.png'') = ''/b http://a/x.png''"
proof -
  have urls: "find_urls ''http://a/x.png/b http://a/x.png'' = [''http://a/x.png/b'', ''http://a/x.png'']"
    by (simp add: media_eval)
  have "media_loop (find_urls ''http://a/x.png/b http://a/x.png'') ''http://a/x.png/b http://a/x.png'' []
    = (''/b http://a/x.png'', [\<lparr> pa_URL = ''http://a/x.png'', pa_FileType = ''image'' \<rparr>])"
    unfolding urls
    by (simp add: Let_def trim_right_def trailingPunct_def media_type_eval replace_first_def has_prefix_def)
  moreover have "trim_space ''/b http://a/x.png'' = ''/b http://a/x.png''"
    by (simp add: trim_space_def runes.simps decode_rune_def is_space_def)
  ultimately show ?thesis by (simp add: extractMediaURLs_def)
qed

text \<open>
  The query string and the fragment of a URL do not decide its
  type: only the path does.
\<close>

theorem media_type_ignores_query:
  assumes "c = CHR ''?'' \<or> c = CHR ''#''"
  shows "mediaFileType (u @ c # q) = mediaFileType u"
proof -
  have strip: "(case index_any s ''?#'' of Some i \<Rightarrow> take i s | None \<Rightarrow> s)
      = takeWhile (\<lambda>c. c \<notin> set ''?#'') s" for s
    using index_any_take [of s "''?#''"] by (simp split: option.splits)
  have "takeWhile (\<lambda>c. c \<notin> set ''?#'') (u @ c # q) = takeWhile (\<lambda>c. c \<notin> set ''?#'') u"
    using assms by (induction u) auto
  then show ?thesis unfolding mediaFileType_def by (simp only: strip)
qed

theorem media_type_ignores_query_witness:
  "mediaFileType ''x.png?y=a.mp3'' = mediaFileType ''x.png''"
  using media_type_ignores_query [of "CHR ''?''" "''x.png''" "''y=a.mp3''"] by simp

end
