(* ===== verification/Http_Client.thy ===== *)
theory Http_Client
  imports Runtime
begin

text \<open>
  Package \<open>net/http\<close>, the client side: a request is sent with \<open>Do\<close>, which follows redirects
  and asks the client's \<open>CheckRedirect\<close> before every hop. The transport itself, the parser
  of \<open>net/url\<close> and the tables of package \<open>mime\<close> are parameters of the model: one record of
  functions, on an abstract state of the network. An answer of the transport is an error or
  a response; \<open>hs_ReadErr\<close> tells that reading the body fails after the bytes it holds.
\<close>

section \<open>Parameters\<close>

record url =
  u_Scheme :: string
  u_Hostname :: string
  u_Path :: string

record http_response =
  hs_Status :: int
  hs_Headers :: "(string \<times> string) list"
  hs_Body :: string
  hs_ReadErr :: bool

record 'n http_env =
  he_Parse :: "string \<Rightarrow> url option"
  he_Resolve :: "string \<Rightarrow> string \<Rightarrow> string option"
  he_RoundTrip :: "bool \<Rightarrow> http_request \<Rightarrow> 'n \<Rightarrow> (go_error + http_response) \<times> 'n"
  he_ParseMediaType :: "string \<Rightarrow> string option"
  he_TypeByExtension :: "string \<Rightarrow> string"

definition header_get :: "(string \<times> string) list \<Rightarrow> string \<Rightarrow> string" where
  "header_get hs k = (case map_of hs k of None \<Rightarrow> [] | Some v \<Rightarrow> v)"

definition header_set :: "(string \<times> string) list \<Rightarrow> string \<Rightarrow> string \<Rightarrow> (string \<times> string) list" where
  "header_set hs k v = AList.update k v hs"

section \<open>Requests\<close>

text \<open>\<open>NewRequestWithContext\<close> fails when the URL does not parse.\<close>

definition NewRequest :: "'n http_env \<Rightarrow> string \<Rightarrow> string \<Rightarrow> string \<Rightarrow> go_error + http_request" where
  "NewRequest env method url body =
     (case he_Parse env url of
        None \<Rightarrow> Inl (Errorf ''parse url'')
      | Some _ \<Rightarrow> Inr \<lparr> hr_Method = method, hr_URL = url, hr_Headers = [], hr_Body = body \<rparr>)"

text \<open>
  A redirect: 301, 302 and 303 turn every method but GET and HEAD into a GET without a body,
  307 and 308 repeat the request. The program's own headers are copied, whatever the target.
\<close>

definition is_redirect :: "http_response \<Rightarrow> bool" where
  "is_redirect resp \<longleftrightarrow> hs_Status resp \<in> {301, 302, 303, 307, 308}
     \<and> header_get (hs_Headers resp) ''Location'' \<noteq> []"

definition redirect_request :: "http_request \<Rightarrow> http_response \<Rightarrow> string \<Rightarrow> http_request" where
  "redirect_request req resp target =
     (if hs_Status resp \<in> {307, 308} \<or> hr_Method req \<in> {''GET'', ''HEAD''}
      then req \<lparr> hr_URL := target \<rparr>
      else req \<lparr> hr_URL := target, hr_Method := ''GET'', hr_Body := [] \<rparr>)"

text \<open>A redirect policy: the next request, and the number of requests made so far.\<close>

type_synonym redirect_policy = "http_request \<Rightarrow> nat \<Rightarrow> go_error option"

definition defaultCheckRedirect :: redirect_policy where
  "defaultCheckRedirect req via =
     (if 10 \<le> via then Some (Errorf ''stopped after 10 redirects'') else None)"

definition round_trip ::
  "'n http_env \<Rightarrow> ctx \<Rightarrow> http_request \<Rightarrow> ('r, 'n, go_error + http_response) go" where
  "round_trip env ctx req = atomic [EvHttp req]
     (\<lambda>w. case he_RoundTrip env (ctx_done w ctx) req (w_net w) of
            (a, n) \<Rightarrow> (a, w \<lparr> w_net := n \<rparr>))"

text \<open>
  The loop of \<open>Client.do\<close>. The fuel is the number of requests it may still make: ten are
  enough for a policy that stops after ten (\<open>do_loop_fuel\<close>).
\<close>

fun do_loop ::
  "'n http_env \<Rightarrow> redirect_policy \<Rightarrow> ctx \<Rightarrow> nat \<Rightarrow> nat \<Rightarrow> http_request \<Rightarrow>
     ('r, 'n, go_error + http_response) go" where
  "do_loop env check ctx 0 via req = Done (Inl (Errorf ''stopped after 10 redirects''))"
| "do_loop env check ctx (Suc fuel) via req =
     pbind (round_trip env ctx req) (\<lambda>r.
       case r of
         Inl err \<Rightarrow> Done (Inl err)
       | Inr resp \<Rightarrow>
           if \<not> is_redirect resp then Done (Inr resp)
           else (case he_Resolve env (hr_URL req) (header_get (hs_Headers resp) ''Location'') of
                   None \<Rightarrow> Done (Inl (Errorf ''failed to parse Location header''))
                 | Some target \<Rightarrow>
                     (let next_req = redirect_request req resp target
                      in case check next_req (Suc via) of
                           Some err \<Rightarrow> Done (Inl err)
                         | None \<Rightarrow> do_loop env check ctx fuel (Suc via) next_req)))"

definition Do ::
  "'n http_env \<Rightarrow> redirect_policy \<Rightarrow> ctx \<Rightarrow> http_request \<Rightarrow> ('r, 'n, go_error + http_response) go" where
  "Do env check ctx req = pbind (emit (EvDo req)) (\<lambda>_. do_loop env check ctx 10 0 req)"

text \<open>\<open>io.ReadAll(io.LimitReader(resp.Body, n))\<close>.\<close>

definition read_limited :: "http_response \<Rightarrow> nat \<Rightarrow> go_error + string" where
  "read_limited resp n =
     (if length (hs_Body resp) < n \<and> hs_ReadErr resp then Inl (Errorf ''unexpected EOF'')
      else Inr (take n (hs_Body resp)))"

section \<open>Lemmas\<close>

text \<open>The transport respects the context of the call.\<close>

definition respects_ctx :: "'n http_env \<Rightarrow> bool" where
  "respects_ctx env \<longleftrightarrow> (\<forall>req n. isl (fst (he_RoundTrip env True req n)))"

definition stops_at_10 :: "redirect_policy \<Rightarrow> bool" where
  "stops_at_10 check \<longleftrightarrow> (\<forall>req via. 10 \<le> via \<longrightarrow> check req via \<noteq> None)"

lemma default_stops [simp]: "stops_at_10 defaultCheckRedirect"
  by (simp add: stops_at_10_def defaultCheckRedirect_def)

lemma do_loop_fuel:
  assumes "stops_at_10 check" "10 \<le> fuel + via" "0 < fuel"
  shows "(do_loop env check ctx (fuel + k) via req :: ('r, 'n, go_error + http_response) go)
    = do_loop env check ctx fuel via req"
  using assms(2,3)
proof (induction fuel arbitrary: via req)
  case (Suc fuel)
  have next_hop: "(case check r (Suc via) of Some err \<Rightarrow> Done (Inl err)
        | None \<Rightarrow> (do_loop env check ctx (fuel + k) (Suc via) r ::
                      ('r, 'n, go_error + http_response) go))
      = (case check r (Suc via) of Some err \<Rightarrow> Done (Inl err)
        | None \<Rightarrow> do_loop env check ctx fuel (Suc via) r)" for r
  proof (cases "10 \<le> Suc via")
    case True
    with assms(1) obtain e where "check r (Suc via) = Some e"
      unfolding stops_at_10_def by blast
    then show ?thesis by simp
  next
    case False
    with Suc.prems have "(do_loop env check ctx (fuel + k) (Suc via) r ::
        ('r, 'n, go_error + http_response) go) = do_loop env check ctx fuel (Suc via) r"
      by (intro Suc.IH) auto
    then show ?thesis by (simp split: option.split)
  qed
  show ?case by (simp only: add_Suc do_loop.simps next_hop Let_def)
qed simp

text \<open>What goes out on the wire during one \<open>Do\<close>: the request, then hops the policy allowed.\<close>

lemma do_loop_events:
  assumes "outcomes (do_loop env check ctx fuel via req ::
      ('r, 'n, go_error + http_response) go) r es"
  shows "\<exists>hops. es = map EvHttp hops \<and> length hops \<le> fuel \<and>
       (hops \<noteq> [] \<longrightarrow> hd hops = req) \<and> (\<forall>h \<in> set (tl hops). \<exists>v. check h v = None)"
  using assms
proof (induction fuel arbitrary: via req es)
  case 0
  then show ?case by (intro exI [of _ "[]"]) simp
next
  case (Suc fuel)
  let ?next = "\<lambda>q. do_loop env check ctx fuel (Suc via) q :: ('r, 'n, go_error + http_response) go"
  let ?cont = "\<lambda>a. case a of
         Inl err \<Rightarrow> Done (Inl err)
       | Inr resp \<Rightarrow>
           if \<not> is_redirect resp then Done (Inr resp)
           else (case he_Resolve env (hr_URL req) (header_get (hs_Headers resp) ''Location'') of
                   None \<Rightarrow> Done (Inl (Errorf ''failed to parse Location header''))
                 | Some target \<Rightarrow>
                     (let next_req = redirect_request req resp target
                      in case check next_req (Suc via) of
                           Some err \<Rightarrow> Done (Inl err)
                         | None \<Rightarrow> ?next next_req))"
  have "\<exists>a es1 es2. outcomes (round_trip env ctx req :: ('r, 'n, go_error + http_response) go) a es1 \<and>
      outcomes (?cont a) r es2 \<and> es = es1 @ es2"
    using Suc.prems unfolding do_loop.simps outcomes_bind .
  then obtain a es1 es2 where
    "outcomes (round_trip env ctx req :: ('r, 'n, go_error + http_response) go) a es1"
    and cont: "outcomes (?cont a) r es2" and "es = es1 @ es2"
    by (elim exE conjE)
  then have es: "es = EvHttp req # es2" by (simp add: round_trip_def)
  have "es2 = [] \<or> (\<exists>q. check q (Suc via) = None \<and> outcomes (?next q) r es2)"
  proof (cases a)
    case (Inl err)
    with cont show ?thesis by simp
  next
    case (Inr resp)
    show ?thesis
    proof (cases "is_redirect resp")
      case True
      then show ?thesis
        using cont Inr
        by (cases "he_Resolve env (hr_URL req) (header_get (hs_Headers resp) ''Location'')")
          (auto simp: Let_def split: option.split_asm)
    next
      case False
      with cont Inr show ?thesis by simp
    qed
  qed
  then show ?case
  proof
    assume "es2 = []"
    with es show ?thesis by (intro exI [of _ "[req]"]) simp
  next
    assume "\<exists>q. check q (Suc via) = None \<and> outcomes (?next q) r es2"
    then obtain q where q: "check q (Suc via) = None" and out: "outcomes (?next q) r es2"
      by (elim exE conjE)
    from Suc.IH [OF out] obtain hops where *: "es2 = map EvHttp hops" "length hops \<le> fuel"
      "hops \<noteq> [] \<longrightarrow> hd hops = q" "\<forall>h \<in> set (tl hops). \<exists>v. check h v = None"
      by (elim exE conjE)
    have "\<exists>v. check q v = None" using q by (rule exI)
    with *(3,4) have "\<forall>h \<in> set hops. \<exists>v. check h v = None" by (cases hops) simp_all
    with es *(1,2) show ?thesis by (intro exI [of _ "req # hops"]) simp
  qed
qed

lemma Do_events:
  assumes "outcomes (Do env check ctx req) r es"
  shows "\<exists>hops. es = EvDo req # map EvHttp hops \<and> length hops \<le> 10 \<and>
       (hops \<noteq> [] \<longrightarrow> hd hops = req) \<and> (\<forall>h \<in> set (tl hops). \<exists>v. check h v = None)"
  using assms do_loop_events by (fastforce simp: Do_def outcomes_bind)

section \<open>Calls on a finished context\<close>

lemma keeps_done_round_trip [keeps_done]:
  "preserves (done_in c) (round_trip env q req :: ('r, 'n, go_error + http_response) go)"
  unfolding round_trip_def by (rule preserves_atomic) (simp add: ctx_done_iff split: prod.splits)

lemma keeps_done_do_loop [keeps_done]:
  "preserves (done_in c) (do_loop env check q fuel via req :: ('r, 'n, go_error + http_response) go)"
proof (induction fuel arbitrary: via req)
  case (Suc fuel)
  show ?case
    by (auto simp: Let_def Suc.IH intro!: preserves_bind keeps_done_round_trip split: sum.splits option.splits)
qed simp

lemma keeps_done_Do [keeps_done]:
  "preserves (done_in c) (Do env check q req :: ('r, 'n, go_error + http_response) go)"
  unfolding Do_def by (rule preserves_bind) (simp_all add: keeps_done_do_loop)

lemma outs_Do_done:
  assumes "respects_ctx env" "set q \<subseteq> set c"
    and "outs (done_in q) (Do env check c req :: ('r, 'n, go_error + http_response) go) r es"
  shows "isl r"
proof -
  have fails: "isl a" if "outs (done_in q) (round_trip env c req :: ('r, 'n, go_error + http_response) go) a es'"
    for a es'
  proof -
    from that obtain w :: "('r, 'n) world" where w: "ctx_done w q" and
      a: "a = fst (case he_RoundTrip env (ctx_done w c) req (w_net w) of (a, n) \<Rightarrow> (a, w \<lparr> w_net := n \<rparr>))"
      by (auto simp: round_trip_def)
    have "ctx_done w c" using w assms(2) by (auto simp: ctx_done_iff)
    with a have "a = fst (he_RoundTrip env True req (w_net w))" by (simp split: prod.splits)
    with assms(1) show ?thesis by (simp add: respects_ctx_def)
  qed
  have ten: "(10 :: nat) = Suc 9" by simp
  from assms(3) obtain es' where
    "outs (done_in q) (do_loop env check c (Suc 9) 0 req :: ('r, 'n, go_error + http_response) go) r es'"
    unfolding Do_def ten by (rule outs_bindE) simp
  then obtain a es1 es2 where
    first: "outs (done_in q) (round_trip env c req :: ('r, 'n, go_error + http_response) go) a es1"
    and rest: "outs (done_in q) (case a of
         Inl err \<Rightarrow> Done (Inl err)
       | Inr resp \<Rightarrow>
           if \<not> is_redirect resp then Done (Inr resp)
           else (case he_Resolve env (hr_URL req) (header_get (hs_Headers resp) ''Location'') of
                   None \<Rightarrow> Done (Inl (Errorf ''failed to parse Location header''))
                 | Some target \<Rightarrow>
                     (let next_req = redirect_request req resp target
                      in case check next_req (Suc 0) of
                           Some err \<Rightarrow> Done (Inl err)
                         | None \<Rightarrow> (do_loop env check c 9 (Suc 0) next_req ::
                             ('r, 'n, go_error + http_response) go)))) r es2"
    unfolding do_loop.simps by (rule outs_bindE)
  from fails [OF first] obtain err where "a = Inl err" by (cases a) auto
  with rest show ?thesis by simp
qed

end
