(* ===== verification/Dispatch_Engine.thy ===== *)
theory Dispatch_Engine
  imports Segmentation Media_Urls Http_Client Redis_Repository
begin

text \<open>
  \<open>pkg/dispatch/service/dispatch_engine.go\<close>: \<open>Dispatch\<close> takes the media out of a response,
  segments the rest, signs the first part and posts the parts one after the other, with a
  delay between them and a check of the context before each; the media follow in a post of
  their own. \<open>dispatch_plan\<close> is what a complete dispatch does; every execution does a prefix
  of it.
\<close>

section \<open>Requests\<close>

record postbackRequest =
  pb_Content :: string
  pb_MessageType :: string
  pb_ContentType :: string
  pb_Attachments :: "postbackAttachment list"

definition postbackAttachment_json :: "postbackAttachment \<Rightarrow> json" where
  "postbackAttachment_json a = JObj [(''url'', JStr (pa_URL a)), (''file_type'', JStr (pa_FileType a))]"

definition postback_json :: "postbackRequest \<Rightarrow> json" where
  "postback_json p = JObj
     ([(''content'', JStr (pb_Content p)), (''message_type'', JStr (pb_MessageType p)),
       (''content_type'', JStr (pb_ContentType p))]
      @ (if pb_Attachments p = [] then []
         else [(''attachments'', JArr (map postbackAttachment_json (pb_Attachments p)))]))"

text \<open>
  \<open>dispatchEngineImpl\<close>: the secret. Its client's timeout of 30 seconds is the transport's to
  report, as an error of the round trip.
\<close>

record dispatchEngineImpl =
  de_secret :: string

definition NewDispatchEngine :: "string \<Rightarrow> dispatchEngineImpl" where
  "NewDispatchEngine secret = \<lparr> de_secret = secret \<rparr>"

section \<open>sendPart\<close>

definition post_headers :: "dispatchEngineImpl \<Rightarrow> (string \<times> string) list" where
  "post_headers d =
     (let hs = header_set [] ''Content-Type'' ''application/json''
      in if de_secret d \<noteq> [] then header_set hs ''X-Bot-Runtime-Secret'' (de_secret d) else hs)"

definition post_body :: "string \<Rightarrow> postbackAttachment list \<Rightarrow> string" where
  "post_body content atts = json_text (postback_json
     \<lparr> pb_Content = content, pb_MessageType = ''outgoing'', pb_ContentType = ''text'',
       pb_Attachments = atts \<rparr>)"

definition sendPart ::
  "'n http_env \<Rightarrow> dispatchEngineImpl \<Rightarrow> ctx \<Rightarrow> string \<Rightarrow> string \<Rightarrow> postbackAttachment list \<Rightarrow>
     ('r, 'n, go_error option) go" where
  "sendPart env d ctx postbackURL content atts =
     (case NewRequest env ''POST'' postbackURL (post_body content atts) of
        Inl err \<Rightarrow> Done (Some (Wrap ''new_request'' err))
      | Inr req0 \<Rightarrow>
          pbind (Do env defaultCheckRedirect ctx (req0 \<lparr> hr_Headers := post_headers d \<rparr>)) (\<lambda>r.
            case r of
              Inl err \<Rightarrow> Done (Some (Wrap ''do'' err))
            | Inr resp \<Rightarrow>
                if hs_Status resp < 200 \<or> 300 \<le> hs_Status resp
                then Done (Some (Errorf (''status: '' @ itoa (hs_Status resp))))
                else Done None))"

section \<open>Dispatch\<close>

text \<open>\<open>time.Duration(cfg.DelayPerCharacter * float64(runes)) * time.Millisecond\<close>, for a positive delay.\<close>

definition delayMs :: "BotConfig \<Rightarrow> string \<Rightarrow> duration" where
  "delayMs cfg part =
     word_of_int \<lfloor>float_val (DelayPerCharacter cfg) * of_nat (rune_count part)\<rfloor> * Millisecond"

text \<open>The loop over the parts, of which there are \<open>n\<close>; the head of the list is part \<open>i\<close>.\<close>

fun part_loop ::
  "'n http_env \<Rightarrow> dispatchEngineImpl \<Rightarrow> ctx \<Rightarrow> BotConfig \<Rightarrow> string \<Rightarrow> nat \<Rightarrow> nat \<Rightarrow> string list \<Rightarrow>
     ('r, 'n, go_error option) go" where
  "part_loop env d ctx cfg postbackURL n i [] = Done None"
| "part_loop env d ctx cfg postbackURL n i (part # parts) =
     (if part = [] then part_loop env d ctx cfg postbackURL n (Suc i) parts
      else
        pbind (is_done ctx) (\<lambda>stopped.
        if stopped then Done (Some ErrDispatchInterrupted)
        else
          pbind (sendPart env d ctx postbackURL part []) (\<lambda>r.
          case r of
            Some err \<Rightarrow>
              Done (Some (Wrap (''pipeline.dispatch.send['' @ itoa (int i) @ '']'') err))
          | None \<Rightarrow>
              if int i < int n - 1 \<and> 0 < float_val (DelayPerCharacter cfg)
              then pbind (Sleep ctx (delayMs cfg part)) (\<lambda>elapsed.
                     if elapsed then part_loop env d ctx cfg postbackURL n (Suc i) parts
                     else Done (Some ErrDispatchInterrupted))
              else part_loop env d ctx cfg postbackURL n (Suc i) parts)))"

definition signed :: "BotConfig \<Rightarrow> string list \<Rightarrow> string list" where
  "signed cfg parts =
     (if MessageSignature cfg \<noteq> [] \<and> parts \<noteq> []
      then (MessageSignature cfg @ hd parts) # tl parts else parts)"

definition Dispatch ::
  "'n http_env \<Rightarrow> dispatchEngineImpl \<Rightarrow> ctx \<Rightarrow> int64 \<Rightarrow> int64 \<Rightarrow> string \<Rightarrow> BotConfig \<Rightarrow> string \<Rightarrow>
     ('r, 'n, go_error option) go" where
  "Dispatch env d ctx contactID conversationID content cfg postbackURL =
     (case extractMediaURLs content of
        (residual, atts) \<Rightarrow>
          let parts = signed cfg (segmentContent residual cfg) in
          pbind (part_loop env d ctx cfg postbackURL (length parts) 0 parts) (\<lambda>r.
          case r of
            Some err \<Rightarrow> Done (Some err)
          | None \<Rightarrow>
              if atts \<noteq> []
              then pbind (is_done ctx) (\<lambda>stopped.
                   if stopped then Done (Some ErrDispatchInterrupted)
                   else pbind (sendPart env d ctx postbackURL [] atts) (\<lambda>r.
                        case r of
                          Some err \<Rightarrow> Done (Some (Wrap ''pipeline.dispatch.send[media]'' err))
                        | None \<Rightarrow> Done None))
              else Done None))"

section \<open>The plan of a dispatch\<close>

text \<open>The posts and pauses a complete dispatch makes.\<close>

datatype action = Post string "postbackAttachment list" | Pause duration

fun parts_plan :: "BotConfig \<Rightarrow> nat \<Rightarrow> nat \<Rightarrow> string list \<Rightarrow> action list" where
  "parts_plan cfg n i [] = []"
| "parts_plan cfg n i (part # parts) =
     (if part = [] then []
      else Post part [] #
        (if int i < int n - 1 \<and> 0 < float_val (DelayPerCharacter cfg)
         then [Pause (delayMs cfg part)] else []))
     @ parts_plan cfg n (Suc i) parts"

definition dispatch_parts :: "string \<Rightarrow> BotConfig \<Rightarrow> string list" where
  "dispatch_parts content cfg = signed cfg (segmentContent (fst (extractMediaURLs content)) cfg)"

definition dispatch_plan :: "string \<Rightarrow> BotConfig \<Rightarrow> action list" where
  "dispatch_plan content cfg =
     parts_plan cfg (length (dispatch_parts content cfg)) 0 (dispatch_parts content cfg)
     @ (if snd (extractMediaURLs content) = [] then []
        else [Post [] (snd (extractMediaURLs content))])"

text \<open>The events that make an action visible: the request of a post, the sleep of a pause.\<close>

definition post_request ::
  "dispatchEngineImpl \<Rightarrow> string \<Rightarrow> string \<Rightarrow> postbackAttachment list \<Rightarrow> http_request" where
  "post_request d postbackURL content atts =
     \<lparr> hr_Method = ''POST'', hr_URL = postbackURL, hr_Headers = post_headers d,
       hr_Body = post_body content atts \<rparr>"

fun action_event :: "dispatchEngineImpl \<Rightarrow> string \<Rightarrow> action \<Rightarrow> event" where
  "action_event d postbackURL (Post c atts) = EvDo (post_request d postbackURL c atts)"
| "action_event d postbackURL (Pause t) = EvSleep t"

fun is_action :: "event \<Rightarrow> bool" where
  "is_action (EvDo _) = True"
| "is_action (EvSleep _) = True"
| "is_action _ = False"

abbreviation actions :: "event list \<Rightarrow> event list" where
  "actions es \<equiv> filter is_action es"

section \<open>Lemmas\<close>

lemma sendPart_actions:
  assumes "outcomes (sendPart env d ctx u c atts :: ('r, 'n, go_error option) go) r es"
  shows "(he_Parse env u = None \<and> r \<noteq> None \<and> es = []) \<or>
    (he_Parse env u \<noteq> None \<and> actions es = [EvDo (post_request d u c atts)])"
proof (cases "he_Parse env u")
  case None
  with assms show ?thesis by (simp add: sendPart_def NewRequest_def)
next
  case (Some x)
  let ?req = "post_request d u c atts"
  let ?next = "\<lambda>r :: go_error + http_response. case r of
      Inl err \<Rightarrow> Done (Some (Wrap ''do'' err))
    | Inr resp \<Rightarrow>
        if hs_Status resp < 200 \<or> 300 \<le> hs_Status resp
        then Done (Some (Errorf (''status: '' @ itoa (hs_Status resp)))) else Done None"
  have "outcomes (pbind (Do env defaultCheckRedirect ctx ?req) ?next :: ('r, 'n, go_error option) go) r es"
    using assms Some by (simp add: sendPart_def NewRequest_def post_request_def)
  then obtain a es1 es2 where
    do_out: "outcomes (Do env defaultCheckRedirect ctx ?req :: ('r, 'n, go_error + http_response) go) a es1"
    and "outcomes (?next a :: ('r, 'n, go_error option) go) r es2" and "es = es1 @ es2"
    by (rule outcomes_bindE)
  then have es: "es = es1" by (cases a) (auto split: if_splits)
  from Do_events [OF do_out] es have "actions es = [EvDo ?req]"
    by (auto simp: filter_empty_conv)
  with Some show ?thesis by simp
qed

text \<open>A prefix of a plan, and all of it when the run succeeded.\<close>

definition follows :: "go_error option \<Rightarrow> event list \<Rightarrow> event list \<Rightarrow> bool" where
  "follows r es plan \<longleftrightarrow> (if r = None then es = plan else prefix es plan)"

lemma follows_Nil [simp]: "follows (Some e) [] plan"
  by (simp add: follows_def)

lemma follows_Nil_plan [simp]: "follows r [] []"
  by (simp add: follows_def)

lemma follows_append [simp]: "follows r (xs @ es) (xs @ plan) \<longleftrightarrow> follows r es plan"
  by (simp add: follows_def)

lemma follows_Cons [simp]: "follows r (x # es) (x # plan) \<longleftrightarrow> follows r es plan"
  by (simp add: follows_def)

lemma sendPart_follows:
  assumes "outcomes (sendPart env d ctx u c atts :: ('r, 'n, go_error option) go) r es"
  shows "follows r (actions es) [EvDo (post_request d u c atts)] \<and>
    (r = None \<longrightarrow> actions es = [EvDo (post_request d u c atts)])"
  using sendPart_actions [OF assms] by (auto simp: follows_def)

lemma part_loop_follows:
  assumes "outcomes (part_loop env d ctx cfg u n i parts :: ('r, 'n, go_error option) go) r es"
  shows "follows r (actions es) (map (action_event d u) (parts_plan cfg n i parts))"
  using assms
proof (induction parts arbitrary: i es)
  case Nil
  then show ?case by simp
next
  case (Cons part parts)
  show ?case
  proof (cases "part = []")
    case True
    with Cons show ?thesis by simp
  next
    case False
    let ?rest = "part_loop env d ctx cfg u n (Suc i) parts :: ('r, 'n, go_error option) go"
    let ?pause = "int i < int n - 1 \<and> 0 < float_val (DelayPerCharacter cfg)"
    let ?wait = "pbind (Sleep ctx (delayMs cfg part))
      (\<lambda>elapsed. if elapsed then ?rest else Done (Some ErrDispatchInterrupted))"
    let ?after = "\<lambda>r. case r of
        Some err \<Rightarrow> Done (Some (Wrap (''pipeline.dispatch.send['' @ itoa (int i) @ '']'') err))
      | None \<Rightarrow> if ?pause then ?wait else ?rest"
    let ?send = "sendPart env d ctx u part [] :: ('r, 'n, go_error option) go"
    from Cons.prems False obtain stopped :: bool where
      out: "outcomes (if stopped then Done (Some ErrDispatchInterrupted) else pbind ?send ?after) r es"
      by (auto simp: outcomes_bind is_done_def)
    show ?thesis
    proof (cases stopped)
      case True
      with out show ?thesis by simp
    next
      case False
      with out have "outcomes (pbind ?send ?after) r es" by (simp only: if_False)
      then obtain q es1 es2 where
        send: "outcomes ?send q es1" and after: "outcomes (?after q) r es2" and es: "es = es1 @ es2"
        by (rule outcomes_bindE)
      note sent = sendPart_follows [OF send]
      show ?thesis
      proof (cases q)
        case (Some err)
        with after have r: "r = Some (Wrap (''pipeline.dispatch.send['' @ itoa (int i) @ '']'') err)" "es2 = []"
          by simp_all
        with sent Some es \<open>part \<noteq> []\<close> show ?thesis
          by (auto simp: follows_def prefix_Cons)
      next
        case None
        show ?thesis
        proof (cases ?pause)
          case True
          with after None consider "r = Some ErrDispatchInterrupted" "es2 = [EvSleep (delayMs cfg part)]"
            | es3 where "outcomes ?rest r es3" "es2 = EvSleep (delayMs cfg part) # es3"
            by (auto simp: Sleep_def outcomes_bind split: if_splits)
          then show ?thesis
            using Cons.IH sent None es True \<open>part \<noteq> []\<close> by cases (auto simp: follows_def)
        next
          case False
          with after None have "outcomes ?rest r es2" by simp
          with Cons.IH sent None es False \<open>part \<noteq> []\<close> show ?thesis by auto
        qed
      qed
    qed
  qed
qed

lemma follows_trans_append:
  "follows q es plan \<Longrightarrow> q \<noteq> None \<Longrightarrow> follows q es (plan @ plan2)"
  by (auto simp: follows_def)

lemma Dispatch_follows:
  assumes "outcomes (Dispatch env d ctx a b content cfg u :: ('r, 'n, go_error option) go) r es"
  shows "follows r (actions es) (map (action_event d u) (dispatch_plan content cfg))"
proof -
  obtain residual atts where ext: "extractMediaURLs content = (residual, atts)" by fastforce
  let ?parts = "signed cfg (segmentContent residual cfg)"
  let ?loop = "part_loop env d ctx cfg u (length ?parts) 0 ?parts :: ('r, 'n, go_error option) go"
  let ?media = "if atts \<noteq> []
              then pbind (is_done ctx) (\<lambda>stopped.
                   if stopped then Done (Some ErrDispatchInterrupted)
                   else pbind (sendPart env d ctx u [] atts :: ('r, 'n, go_error option) go) (\<lambda>r.
                        case r of
                          Some err \<Rightarrow> Done (Some (Wrap ''pipeline.dispatch.send[media]'' err))
                        | None \<Rightarrow> Done None))
              else Done None"
  have plan: "map (action_event d u) (dispatch_plan content cfg)
      = map (action_event d u) (parts_plan cfg (length ?parts) 0 ?parts)
        @ (if atts = [] then [] else [EvDo (post_request d u [] atts)])"
    by (simp add: dispatch_plan_def dispatch_parts_def ext)
  have "outcomes (pbind ?loop (\<lambda>r. case r of Some err \<Rightarrow> Done (Some err) | None \<Rightarrow> ?media)) r es"
    using assms by (simp add: Dispatch_def ext Let_def)
  then obtain q es1 es2 where loop: "outcomes ?loop q es1"
    and rest: "outcomes (case q of Some err \<Rightarrow> Done (Some err) | None \<Rightarrow> ?media) r es2"
    and es: "es = es1 @ es2"
    by (rule outcomes_bindE)
  note first = part_loop_follows [OF loop]
  show ?thesis
  proof (cases q)
    case (Some err)
    with rest first es plan show ?thesis by (auto intro: follows_trans_append)
  next
    case None
    have "follows r (actions es2) (if atts = [] then [] else [EvDo (post_request d u [] atts)])"
    proof (cases "atts = []")
      case True
      with rest None show ?thesis by simp
    next
      case False
      with rest None obtain stopped where
        out: "outcomes (if stopped then Done (Some ErrDispatchInterrupted)
          else pbind (sendPart env d ctx u [] atts :: ('r, 'n, go_error option) go) (\<lambda>r.
                        case r of
                          Some err \<Rightarrow> Done (Some (Wrap ''pipeline.dispatch.send[media]'' err))
                        | None \<Rightarrow> Done None)) r es2"
        by (auto simp: outcomes_bind is_done_def)
      show ?thesis
      proof (cases stopped)
        case True
        with out show ?thesis by simp
      next
        case no: False
        with out have "outcomes (pbind (sendPart env d ctx u [] atts :: ('r, 'n, go_error option) go) (\<lambda>r.
                        case r of
                          Some err \<Rightarrow> Done (Some (Wrap ''pipeline.dispatch.send[media]'' err))
                        | None \<Rightarrow> Done None)) r es2" by (simp only: if_False)
        then obtain q' es3 where send: "outcomes (sendPart env d ctx u [] atts :: ('r, 'n, go_error option) go) q' es3"
          and q': "es2 = es3" "r = None \<longleftrightarrow> q' = None"
          by (rule outcomes_bindE) (auto split: option.splits)
        from sendPart_follows [OF send] q' False show ?thesis by (auto simp: follows_def)
      qed
    qed
    with first None es plan show ?thesis by (auto simp: follows_def)
  qed
qed

section \<open>A context that is done stays done\<close>

definition stays_done :: "ctx \<Rightarrow> ('r, 'n) world interference \<Rightarrow> bool" where
  "stays_done ctx I \<longleftrightarrow> (\<forall>n w. ctx_done w ctx \<longrightarrow> ctx_done (I n w) ctx)"

lemma exec_is_done:
  assumes "stays_done ctx I" "ctx_done w ctx"
  shows "\<exists>w' m. exec I (is_done ctx) k w = (True, [], w', m) \<and> ctx_done w' ctx"
  using assms by (auto simp: is_done_def exec_get stays_done_def)

lemma part_loop_cancelled:
  assumes "stays_done ctx I" "ctx_done w ctx"
  shows "\<exists>w' m. exec I (part_loop env d ctx cfg u n i parts) k w
      = (if \<exists>p \<in> set parts. p \<noteq> [] then Some ErrDispatchInterrupted else None, [], w', m)
    \<and> ctx_done w' ctx"
proof (induction parts arbitrary: i)
  case Nil
  with assms show ?case by (simp add: exec_Done)
next
  case (Cons part parts)
  from exec_is_done [OF assms, of k] obtain w' m where
    "exec I (is_done ctx) k w = (True, [], w', m)" "ctx_done w' ctx" by blast
  with Cons show ?case by (cases "part = []") (simp_all add: exec_bind exec_Done)
qed

section \<open>A network that answers\<close>

text \<open>
  Every request made in a state of the network that satisfies \<open>P\<close> is answered with a status
  between 200 and 299, and such a state remains; \<open>answers_2xx\<close>: in every state.
\<close>

definition answers_in :: "'n http_env \<Rightarrow> ('n \<Rightarrow> bool) \<Rightarrow> bool" where
  "answers_in env P \<longleftrightarrow> (\<forall>req n. P n \<longrightarrow> (\<exists>resp n'. he_RoundTrip env False req n = (Inr resp, n')
     \<and> 200 \<le> hs_Status resp \<and> hs_Status resp < 300 \<and> P n'))"

definition answers_2xx :: "'n http_env \<Rightarrow> bool" where
  "answers_2xx env \<longleftrightarrow> (\<forall>req n. \<exists>resp n'. he_RoundTrip env False req n = (Inr resp, n')
     \<and> 200 \<le> hs_Status resp \<and> hs_Status resp < 300)"

lemma answers_2xx_in: "answers_2xx env \<Longrightarrow> answers_in env (\<lambda>_. True)"
  by (simp add: answers_2xx_def answers_in_def)

text \<open>The context is live and the network answers.\<close>

definition reaches :: "('n \<Rightarrow> bool) \<Rightarrow> ctx \<Rightarrow> ('r, 'n) world \<Rightarrow> bool" where
  "reaches P ctx w \<longleftrightarrow> \<not> ctx_done w ctx \<and> P (w_net w)"

lemma run_sendPart_ok:
  assumes "answers_in env P" "he_Parse env u \<noteq> None" "reaches P ctx w"
  shows "\<exists>es w'. run (sendPart env d ctx u c atts) w = (None, es, w') \<and> reaches P ctx w'"
proof -
  obtain x where x: "he_Parse env u = Some x" using assms(2) by blast
  have live: "\<not> ctx_done w ctx" "P (w_net w)" using assms(3) by (simp_all add: reaches_def)
  let ?req = "post_request d u c atts"
  obtain resp n' where rt: "he_RoundTrip env False ?req (w_net w) = (Inr resp, n')"
    "200 \<le> hs_Status resp" "hs_Status resp < 300" "P n'"
    using assms(1) live(2) unfolding answers_in_def by blast
  then have "\<not> is_redirect resp" by (auto simp: is_redirect_def)
  then have "run (Do env defaultCheckRedirect ctx ?req) w
      = (Inr resp, [EvDo ?req, EvHttp ?req], w \<lparr> w_net := n' \<rparr>)"
    using live rt
    by (simp add: Do_def eval_nat_numeral run_bind run_emit round_trip_def run_atomic)
  moreover have "ctx_done (w \<lparr> w_net := n' \<rparr>) ctx = ctx_done w ctx" by (simp add: ctx_done_iff)
  ultimately show ?thesis
    using x rt live by (simp add: sendPart_def NewRequest_def post_request_def run_bind reaches_def)
qed

lemma run_part_loop_ok:
  assumes "answers_in env P" "he_Parse env u \<noteq> None" "reaches P ctx w"
  shows "\<exists>es w'. run (part_loop env d ctx cfg u n i parts) w = (None, es, w') \<and> reaches P ctx w'"
  using assms(3)
proof (induction parts arbitrary: i w)
  case (Cons part parts)
  obtain es w' where "run (sendPart env d ctx u part []) w = (None, es, w')" "reaches P ctx w'"
    using run_sendPart_ok [OF assms(1,2) Cons.prems] by blast
  moreover obtain es2 w2 where
    "run (part_loop env d ctx cfg u n (Suc i) parts) w' = (None, es2, w2)" "reaches P ctx w2"
    using Cons.IH calculation(2) by blast
  moreover obtain es3 w3 where
    "run (part_loop env d ctx cfg u n (Suc i) parts) w = (None, es3, w3)" "reaches P ctx w3"
    using Cons.IH Cons.prems by blast
  moreover have "\<not> ctx_done w ctx" "\<not> ctx_done w' ctx"
    using Cons.prems calculation(2) by (simp_all add: reaches_def)
  ultimately show ?case
    by (simp add: run_bind run_get is_done_def Sleep_def run_emit)
qed simp

lemma run_Dispatch_in:
  assumes "answers_in env P" "he_Parse env u \<noteq> None" "reaches P ctx w"
  shows "\<exists>es w'. run (Dispatch env d ctx a b content cfg u) w = (None, es, w')"
proof -
  obtain residual atts where ext: "extractMediaURLs content = (residual, atts)" by fastforce
  let ?parts = "signed cfg (segmentContent residual cfg)"
  obtain es1 w1 where 1: "run (part_loop env d ctx cfg u (length ?parts) 0 ?parts) w = (None, es1, w1)"
    "reaches P ctx w1"
    using run_part_loop_ok [OF assms] by blast
  obtain es2 w2 where 2: "run (sendPart env d ctx u [] atts) w1 = (None, es2, w2)"
    using run_sendPart_ok [OF assms(1,2) 1(2)] by blast
  show ?thesis
    using 1 2 by (simp add: Dispatch_def ext Let_def run_bind is_done_def run_get reaches_def)
qed

lemma run_Dispatch_ok:
  assumes "answers_2xx env" "he_Parse env u \<noteq> None" "\<not> ctx_done w ctx"
  shows "\<exists>es w'. run (Dispatch env d ctx a b content cfg u) w = (None, es, w')"
  by (rule run_Dispatch_in [OF answers_2xx_in [OF assms(1)] assms(2)])
    (simp add: reaches_def assms(3))

section \<open>Properties\<close>

text \<open>
  C11 (dispatch_follows_plan). However the dispatch is scheduled and whatever the network
  answers, the posts and pauses it makes are a prefix of its plan, in the order of the plan,
  and all of it when the dispatch reports success.
\<close>

theorem dispatch_follows_plan:
  assumes "outcomes (Dispatch env d ctx a b content cfg u :: ('r, 'n, go_error option) go) r es"
  shows "prefix (actions es) (map (action_event d u) (dispatch_plan content cfg)) \<and>
    (r = None \<longrightarrow> actions es = map (action_event d u) (dispatch_plan content cfg))"
  using Dispatch_follows [OF assms] by (auto simp: follows_def split: if_splits)

text \<open>A network in memory: it answers every request with 200 and an empty body.\<close>

definition ok_env :: "unit http_env" where
  "ok_env = \<lparr> he_Parse = (\<lambda>u. Some \<lparr> u_Scheme = ''https'', u_Hostname = ''crm'', u_Path = ''/'' \<rparr>),
     he_Resolve = (\<lambda>base loc. Some loc),
     he_RoundTrip = (\<lambda>done req n. (if done then Inl (Errorf ''context canceled'')
        else Inr \<lparr> hs_Status = 200, hs_Headers = [], hs_Body = [], hs_ReadErr = False \<rparr>, n)),
     he_ParseMediaType = (\<lambda>s. Some s), he_TypeByExtension = (\<lambda>s. []) \<rparr>"

lemma ok_env_answers [simp]: "answers_2xx ok_env" "he_Parse ok_env u \<noteq> None"
  by (simp_all add: answers_2xx_def ok_env_def)

lemma boot_not_done [simp]: "\<not> ctx_done (boot_world r n) ctx"
  by (simp add: ctx_done_iff boot_world_def)

theorem dispatch_follows_plan_witness:
  "\<exists>es. outcomes (Dispatch ok_env (NewDispatchEngine ''s'') [] 7 9 ''hi'' zeroConfig ''u'' ::
       (mem_redis, unit, go_error option) go) None es \<and>
     actions es = map (action_event (NewDispatchEngine ''s'') ''u'') (dispatch_plan ''hi'' zeroConfig)"
proof -
  let ?d = "Dispatch ok_env (NewDispatchEngine ''s'') [] 7 9 ''hi'' zeroConfig ''u'' ::
    (mem_redis, unit, go_error option) go"
  have "\<exists>es w'. run ?d (boot_world empty_redis ()) = (None, es, w')"
    by (rule run_Dispatch_ok) simp_all
  then obtain es w' where "run ?d (boot_world empty_redis ()) = (None, es, w')" by blast
  then have "outcomes ?d None es" by (rule run_outcomes)
  with dispatch_follows_plan [OF this] show ?thesis by blast
qed

text \<open>
  C12 (dispatch_delivers). When every post is answered with a 2xx status and nobody cancels,
  the dispatch returns without an error and has done its whole plan.
\<close>

theorem dispatch_delivers:
  assumes "answers_2xx env" "he_Parse env u \<noteq> None" "\<not> ctx_done w ctx"
  shows "\<exists>es w'. run (Dispatch env d ctx a b content cfg u) w = (None, es, w') \<and>
    actions es = map (action_event d u) (dispatch_plan content cfg)"
proof -
  obtain es w' where run: "run (Dispatch env d ctx a b content cfg u) w = (None, es, w')"
    using run_Dispatch_ok [OF assms] by blast
  with Dispatch_follows [OF run_outcomes [OF run]] show ?thesis by (auto simp: follows_def)
qed

theorem dispatch_delivers_witness:
  "\<exists>es w'. run (Dispatch ok_env (NewDispatchEngine []) [] 7 9 ''hi'' zeroConfig ''u'')
       (boot_world empty_redis ()) = (None, es, w') \<and>
     actions es = map (action_event (NewDispatchEngine []) ''u'') (dispatch_plan ''hi'' zeroConfig)"
  by (rule dispatch_delivers) simp_all



fun post_texts :: "action list \<Rightarrow> string list" where
  "post_texts [] = []"
| "post_texts (Post c atts # as) = (if c = [] then post_texts as else c # post_texts as)"
| "post_texts (Pause t # as) = post_texts as"

fun post_media :: "action list \<Rightarrow> postbackAttachment list" where
  "post_media [] = []"
| "post_media (Post c atts # as) = atts @ post_media as"
| "post_media (Pause t # as) = post_media as"

lemma post_texts_append [simp]: "post_texts (xs @ ys) = post_texts xs @ post_texts ys"
  by (induction xs rule: post_texts.induct) auto

lemma post_media_append [simp]: "post_media (xs @ ys) = post_media xs @ post_media ys"
  by (induction xs rule: post_media.induct) auto

lemma parts_plan_texts:
  "post_texts (parts_plan cfg n i parts) = filter (\<lambda>p. p \<noteq> []) parts"
  "post_media (parts_plan cfg n i parts) = []"
  by (induction parts arbitrary: i) auto


text \<open>
  C20 (dispatch_authenticated). Every request a dispatch makes is a POST of JSON to the
  postback URL, carrying the shared secret whenever one is configured.
\<close>

theorem dispatch_authenticated:
  assumes "outcomes (Dispatch env d ctx a b content cfg u :: ('r, 'n, go_error option) go) r es"
    and "EvDo req \<in> set es"
  shows "hr_Method req = ''POST'' \<and> hr_URL req = u \<and>
    header_get (hr_Headers req) ''Content-Type'' = ''application/json'' \<and>
    header_get (hr_Headers req) ''X-Bot-Runtime-Secret'' = de_secret d"
proof -
  have "EvDo req \<in> set (actions es)" using assms(2) by simp
  moreover have "prefix (actions es) (map (action_event d u) (dispatch_plan content cfg))"
    using Dispatch_follows [OF assms(1)] by (auto simp: follows_def split: if_splits)
  then have "set (actions es) \<subseteq> set (map (action_event d u) (dispatch_plan content cfg))"
    by (rule set_mono_prefix)
  ultimately have "EvDo req \<in> set (map (action_event d u) (dispatch_plan content cfg))"
    by (rule rev_subsetD)
  then obtain act where "action_event d u act = EvDo req" unfolding set_map by (metis imageE)
  then obtain c atts where "req = post_request d u c atts" by (cases act) auto
  then show ?thesis
    by (simp add: post_request_def post_headers_def header_get_def header_set_def Let_def)
qed

text \<open>
  A response that is only media is not skipped when a
  signature is configured: the first post carries the bare signature.
\<close>

theorem media_only_posts_signature:
  assumes "fst (extractMediaURLs content) = []" "MessageSignature cfg \<noteq> []"
  shows "hd (dispatch_plan content cfg) = Post (MessageSignature cfg) []"
proof -
  have "segmentContent [] cfg = [[]]"
    using segmentContent_blank [of "[]" cfg] by simp
  with assms show ?thesis by (simp add: dispatch_plan_def dispatch_parts_def signed_def)
qed

lemma media_only_eval: "fst (extractMediaURLs ''http://a/x.png'') = []"
proof -
  have "media_loop (find_urls ''http://a/x.png'') ''http://a/x.png'' []
    = ([], [\<lparr> pa_URL = ''http://a/x.png'', pa_FileType = ''image'' \<rparr>])"
    by (simp add: media_eval trim_right_def trailingPunct_def media_type_eval replace_first_def)
  then show ?thesis by (simp add: extractMediaURLs_def trim_space_def)
qed

theorem media_only_posts_signature_witness:
  "hd (dispatch_plan ''http://a/x.png'' (zeroConfig \<lparr> MessageSignature := ''Bot'' \<rparr>)) = Post ''Bot'' []"
  using media_only_posts_signature [OF media_only_eval, of "zeroConfig \<lparr> MessageSignature := ''Bot'' \<rparr>"]
  by simp

theorem dispatch_authenticated_witness:
  "\<exists>es req. outcomes (Dispatch ok_env (NewDispatchEngine ''s'') [] 7 9 ''hi'' zeroConfig ''u'' ::
       (mem_redis, unit, go_error option) go) None es \<and> EvDo req \<in> set es \<and>
     header_get (hr_Headers req) ''X-Bot-Runtime-Secret'' = ''s''"
proof -
  let ?d = "Dispatch ok_env (NewDispatchEngine ''s'') [] 7 9 ''hi'' zeroConfig ''u'' ::
    (mem_redis, unit, go_error option) go"
  have "\<exists>es w'. run ?d (boot_world empty_redis ()) = (None, es, w')"
    by (rule run_Dispatch_ok) simp_all
  then obtain es w' where "run ?d (boot_world empty_redis ()) = (None, es, w')" by blast
  then have out: "outcomes ?d None es" by (rule run_outcomes)
  have "find_urls ''hi'' = []" by (simp add: media_eval)
  then have "extractMediaURLs ''hi'' = (''hi'', [])"
    by (simp add: extractMediaURLs_def trim_space_def runes.simps decode_rune_def is_space_def)
  then have "dispatch_plan ''hi'' zeroConfig = [Post ''hi'' []]"
    by (simp add: dispatch_plan_def dispatch_parts_def segmentContent_def signed_def zeroConfig_def)
  with Dispatch_follows [OF out] have
    acts: "actions es = [EvDo (post_request (NewDispatchEngine ''s'') ''u'' ''hi'' [])]"
    by (simp add: follows_def)
  let ?req = "post_request (NewDispatchEngine ''s'') ''u'' ''hi'' []"
  have "EvDo ?req \<in> set (actions es)" unfolding acts by simp
  then have mem: "EvDo ?req \<in> set es" by simp
  have "header_get (hr_Headers ?req) ''X-Bot-Runtime-Secret'' = ''s''"
    using dispatch_authenticated [OF out mem] by (simp add: NewDispatchEngine_def)
  with out mem show ?thesis by blast
qed

end
