(* ===== verification/Base64.thy ===== *)
theory Base64
  imports Go_Text
begin

text \<open>
  Package \<open>encoding/base64\<close>, the standard encoding with padding, and its inverse.
\<close>

definition b64_char :: "nat \<Rightarrow> char" where
  "b64_char n =
     (if n < 26 then char_of (65 + n)
      else if n < 52 then char_of (97 + (n - 26))
      else if n < 62 then char_of (48 + (n - 52))
      else if n = 62 then CHR ''+'' else CHR ''/'')"

definition b64_val :: "char \<Rightarrow> nat option" where
  "b64_val c =
     (let n = of_char c in
      if 65 \<le> n \<and> n \<le> 90 then Some (n - 65)
      else if 97 \<le> n \<and> n \<le> 122 then Some (n - 97 + 26)
      else if 48 \<le> n \<and> n \<le> 57 then Some (n - 48 + 52)
      else if c = CHR ''+'' then Some 62
      else if c = CHR ''/'' then Some 63
      else None)"

abbreviation pad :: char where "pad \<equiv> CHR ''=''"

fun b64_bytes :: "nat list \<Rightarrow> string" where
  "b64_bytes [] = []"
| "b64_bytes [a] = [b64_char (a div 4), b64_char (a mod 4 * 16), pad, pad]"
| "b64_bytes [a, b] =
     [b64_char (a div 4), b64_char (a mod 4 * 16 + b div 16), b64_char (b mod 16 * 4), pad]"
| "b64_bytes (a # b # c # bs) =
     b64_char (a div 4) # b64_char (a mod 4 * 16 + b div 16) #
     b64_char (b mod 16 * 4 + c div 64) # b64_char (c mod 64) # b64_bytes bs"

definition EncodeToString :: "string \<Rightarrow> string" where
  "EncodeToString s = b64_bytes (map of_char s)"

text \<open>The decoder a receiver runs.\<close>

fun b64_unbytes :: "string \<Rightarrow> nat list option" where
  "b64_unbytes [] = Some []"
| "b64_unbytes (w # x # y # z # s) =
     (case (b64_val w, b64_val x, b64_val y, b64_val z) of
        (Some p, Some q, Some r, Some t) \<Rightarrow>
          map_option (\<lambda>bs. (p * 4 + q div 16) # (q mod 16 * 16 + r div 4) # (r mod 4 * 64 + t) # bs)
            (b64_unbytes s)
      | (Some p, Some q, Some r, None) \<Rightarrow>
          if z = pad \<and> s = [] then Some [p * 4 + q div 16, q mod 16 * 16 + r div 4] else None
      | (Some p, Some q, None, None) \<Rightarrow>
          if y = pad \<and> z = pad \<and> s = [] then Some [p * 4 + q div 16] else None
      | _ \<Rightarrow> None)"
| "b64_unbytes _ = None"

definition DecodeString :: "string \<Rightarrow> string option" where
  "DecodeString s = map_option (map char_of) (b64_unbytes s)"

lemma b64_val_char [simp]: "n < 64 \<Longrightarrow> b64_val (b64_char n) = Some n"
  by (auto simp: b64_val_def b64_char_def Let_def)

lemma b64_val_pad [simp]: "b64_val pad = None"
  by (simp add: b64_val_def)

lemma b64_char_not_pad [simp]: "n < 64 \<Longrightarrow> b64_char n \<noteq> pad"
  by (metis b64_val_char b64_val_pad option.distinct(1))

lemma b64_roundtrip: "\<forall>b \<in> set bs. b < 256 \<Longrightarrow> b64_unbytes (b64_bytes bs) = Some bs"
proof (induction bs rule: b64_bytes.induct)
  case (2 a)
  then have "a div 4 < 64" "a mod 4 * 16 < 64" by auto
  then show ?case by simp
next
  case (3 a b)
  then have "a div 4 < 64" "a mod 4 * 16 + b div 16 < 64" "b mod 16 * 4 < 64" by auto
  moreover have "b div 16 div 16 = 0" "b div 16 mod 16 * 16 + b mod 16 = b"
    using 3 by (auto simp: mod_less)
  ultimately show ?case by simp
next
  case (4 a b c bs)
  then have "a div 4 < 64" "a mod 4 * 16 + b div 16 < 64" "b mod 16 * 4 + c div 64 < 64" "c mod 64 < 64"
    by auto
  moreover have "b div 16 div 16 = 0" "b div 16 mod 16 * 16 + (b mod 16 + c div 64 div 4) = b"
    "c div 64 mod 4 * 64 + c mod 64 = c"
    using 4 by auto
  ultimately show ?case using 4 by simp
qed simp

lemma of_char_lt_256: "of_char c < (256 :: nat)"
  by (metis of_char_mod_256 mod_less_divisor zero_less_numeral)

lemma DecodeString_EncodeToString: "DecodeString (EncodeToString s) = Some s"
  by (simp add: DecodeString_def EncodeToString_def b64_roundtrip of_char_lt_256 comp_def)

end
