(* ===== verification/Ai_Attachments.thy ===== *)
theory Ai_Attachments
  imports Http_Client Base64 "HOL-Library.Sublist"
begin

text \<open>
  Incoming media in \<open>pkg/ai/service/ai_adapter.go\<close>: which hosts may serve it, how a download
  is bounded in time and bytes, which type it is given and how the file parts of a call are
  built.
\<close>

section \<open>Bounds\<close>

abbreviation maxAttachmentBytes :: int where "maxAttachmentBytes \<equiv> 15728640"
abbreviation maxAttachmentsTotalBytes :: int where "maxAttachmentsTotalBytes \<equiv> 20971520"

abbreviation maxAttachmentDownload :: duration where "maxAttachmentDownload \<equiv> 10 * Second"
abbreviation attachmentsTotalTimeFactor :: duration where "attachmentsTotalTimeFactor \<equiv> 3"

definition mediaHostAllowlistEnv :: string where
  "mediaHostAllowlistEnv = ''MEDIA_HOST_ALLOWLIST''"

record aiAdapter =
  aa_timeoutSecs :: int64
  aa_maxRetries :: int64
  aa_retryBaseDelay :: duration

definition attachmentTimeout :: "aiAdapter \<Rightarrow> duration" where
  "attachmentTimeout a =
     (let d = maxAttachmentDownload; t = aa_timeoutSecs a * Second
      in if 0 <s t \<and> t <s d then t else d)"

section \<open>The allowlist\<close>

definition parse_hosts :: "string \<Rightarrow> string list" where
  "parse_hosts v =
     filter (\<lambda>h. h \<noteq> []) (map (\<lambda>h. to_lower (trim_space h)) (split_char v (CHR '','')))"

definition allowedMediaHosts :: "('r, 'n, string list) go" where
  "allowedMediaHosts = pbind (Getenv mediaHostAllowlistEnv) (\<lambda>v. Done (parse_hosts v))"

text \<open>\<open>%q\<close> is written as the text in double quotes; the escapes of \<open>strconv.Quote\<close> are left out.\<close>

definition quoted :: "string \<Rightarrow> string" where
  "quoted s = CHR 0x22 # s @ [CHR 0x22]"

definition checkMediaURL :: "'n http_env \<Rightarrow> string \<Rightarrow> string list \<Rightarrow> go_error option" where
  "checkMediaURL env rawURL hosts =
     (case he_Parse env rawURL of
        None \<Rightarrow> Some (Wrap ''unparseable media url'' (Errorf ''parse url''))
      | Some u \<Rightarrow>
          (let scheme = to_lower (u_Scheme u); host = to_lower (u_Hostname u)
           in if scheme \<noteq> ''http'' \<and> scheme \<noteq> ''https''
                then Some (Errorf (''scheme '' @ quoted (u_Scheme u) @ '' is not allowed for media''))
              else if host = [] then Some (Errorf ''media url has no host'')
              else if host \<notin> set hosts
                then Some (Errorf (''host '' @ quoted host
                       @ '' is not authorized to serve media for this event''))
              else None))"

text \<open>The \<open>CheckRedirect\<close> of \<open>mediaClient\<close>.\<close>

definition mediaClient :: "'n http_env \<Rightarrow> string list \<Rightarrow> redirect_policy" where
  "mediaClient env hosts req via =
     (if 10 \<le> via then Some (Errorf ''stopped after 10 redirects'')
      else checkMediaURL env (hr_URL req) hosts)"

section \<open>One download\<close>

text \<open>\<open>errors.As\<close> for \<open>httpStatusError\<close>: its status, or 0.\<close>

fun statusOf :: "go_error \<Rightarrow> int" where
  "statusOf (HttpStatusError n) = n"
| "statusOf (Wrap _ e) = statusOf e"
| "statusOf _ = 0"

text \<open>What a download makes of the answer to its request.\<close>

definition read_attachment ::
  "int \<Rightarrow> go_error + http_response \<Rightarrow> go_error + string \<times> string" where
  "read_attachment limit r =
     (case r of
        Inl err \<Rightarrow> Inl (Wrap ''do'' err)
      | Inr resp \<Rightarrow>
          if hs_Status resp \<noteq> 200 then Inl (HttpStatusError (hs_Status resp))
          else (case read_limited resp (nat (limit + 1)) of
                  Inl err \<Rightarrow> Inl (Wrap ''read'' err)
                | Inr data \<Rightarrow>
                    if limit < int (length data)
                    then Inl (Errorf (''attachment exceeds the '' @ itoa limit
                           @ '' bytes still available in this call''))
                    else Inr (data, header_get (hs_Headers resp) ''Content-Type'')))"

definition downloadAttachment ::
  "'n http_env \<Rightarrow> ctx \<Rightarrow> redirect_policy \<Rightarrow> string \<Rightarrow> duration \<Rightarrow> int \<Rightarrow>
     ('r, 'n, go_error + string \<times> string) go" where
  "downloadAttachment env ctx client url timeout limit =
     pbind (WithTimeout ctx timeout) (\<lambda>dlCtx.
     pbind (case NewRequest env ''GET'' url [] of
        Inl err \<Rightarrow> Done (Inl (Wrap ''new_request'' err))
      | Inr httpReq \<Rightarrow>
          pbind (Do env client dlCtx httpReq) (\<lambda>r. Done (read_attachment limit r)))
     (\<lambda>r. pbind (cancel dlCtx) (\<lambda>_. Done r)))"

lemma read_attachment_bound: "read_attachment limit r = Inr (data, ct) \<Longrightarrow> int (length data) \<le> limit"
  by (auto simp: read_attachment_def split: sum.splits if_splits)

section \<open>The type of an attachment\<close>

definition octetStream :: string where
  "octetStream = ''application/octet-stream''"

definition mediaTypeOf :: "'n http_env \<Rightarrow> string \<Rightarrow> string" where
  "mediaTypeOf env contentType =
     (if contentType = [] then []
      else case he_ParseMediaType env contentType of
             Some mt \<Rightarrow> mt
           | None \<Rightarrow> to_lower (trim_space (hd (split_char contentType (CHR '';'')))))"

definition isWebPage :: "string \<Rightarrow> bool" where
  "isWebPage mediaType \<longleftrightarrow> mediaType = ''text/html'' \<or> mediaType = ''application/xhtml+xml''"

text \<open>\<open>path.Ext\<close> and \<open>path.Base\<close>.\<close>

definition after_slash :: "string \<Rightarrow> string" where
  "after_slash p = (case last_index p (CHR ''/'') of None \<Rightarrow> p | Some i \<Rightarrow> drop (Suc i) p)"

definition path_Ext :: "string \<Rightarrow> string" where
  "path_Ext p = (let seg = after_slash p in
     case last_index seg (CHR ''.'') of None \<Rightarrow> [] | Some i \<Rightarrow> drop i seg)"

definition path_Base :: "string \<Rightarrow> string" where
  "path_Base p =
     (if p = [] then ''.''
      else let base = after_slash (trim_right p ''/'')
           in if base = [] then ''/'' else base)"

definition mimeFromURL :: "'n http_env \<Rightarrow> string \<Rightarrow> string" where
  "mimeFromURL env rawURL =
     (case he_Parse env rawURL of
        None \<Rightarrow> []
      | Some u \<Rightarrow> he_TypeByExtension env (path_Ext (u_Path u)))"

definition resolveMimeType :: "'n http_env \<Rightarrow> AiAttachment \<Rightarrow> string \<Rightarrow> string option" where
  "resolveMimeType env att respContentType =
     (let respType = mediaTypeOf env respContentType;
          declared = mediaTypeOf env (ai_ContentType att)
      in if isWebPage respType \<or> isWebPage declared then None
         else find (\<lambda>candidate. candidate \<noteq> [] \<and> candidate \<noteq> octetStream)
                [respType, declared, mediaTypeOf env (mimeFromURL env (ai_URL att))])"

definition attachmentName :: "'n http_env \<Rightarrow> string \<Rightarrow> string" where
  "attachmentName env rawURL =
     (case he_Parse env rawURL of
        None \<Rightarrow> ''file''
      | Some u \<Rightarrow>
          (let base = path_Base (u_Path u)
           in if base \<noteq> [] \<and> base \<noteq> ''.'' \<and> base \<noteq> ''/'' then base else ''file''))"

section \<open>buildFileParts\<close>

definition file_part :: "'n http_env \<Rightarrow> AiAttachment \<Rightarrow> string \<Rightarrow> string \<Rightarrow> JSONRPCPart" where
  "file_part env att mimeType data =
     \<lparr> part_Type = ''file'', part_Text = [],
       part_File = Some \<lparr> file_Name = attachmentName env (ai_URL att), file_MimeType = mimeType,
                          file_Bytes = EncodeToString data \<rparr> \<rparr>"

text \<open>The loop over the attachments: \<open>continue\<close> goes on with the rest, \<open>break\<close> ends it.\<close>

fun parts_loop ::
  "'n http_env \<Rightarrow> ctx \<Rightarrow> string list \<Rightarrow> duration \<Rightarrow> AiAttachment list \<Rightarrow> int \<Rightarrow>
     JSONRPCPart list \<Rightarrow> ('r, 'n, JSONRPCPart list) go" where
  "parts_loop env budgetCtx hosts perDownload [] remaining parts = Done parts"
| "parts_loop env budgetCtx hosts perDownload (att # atts) remaining parts =
     (if ai_URL att = [] \<or> checkMediaURL env (ai_URL att) hosts \<noteq> None
      then parts_loop env budgetCtx hosts perDownload atts remaining parts
      else
        pbind (is_done budgetCtx) (\<lambda>exhausted.
        if exhausted then Done parts
        else
          let limit = min maxAttachmentBytes remaining in
          if limit \<le> 0 then Done parts
          else
            pbind (downloadAttachment env budgetCtx (mediaClient env hosts) (ai_URL att)
                     perDownload limit) (\<lambda>r.
            case r of
              Inl _ \<Rightarrow> parts_loop env budgetCtx hosts perDownload atts remaining parts
            | Inr (data, respContentType) \<Rightarrow>
                (case resolveMimeType env att respContentType of
                   None \<Rightarrow> parts_loop env budgetCtx hosts perDownload atts remaining parts
                 | Some mimeType \<Rightarrow>
                     parts_loop env budgetCtx hosts perDownload atts
                       (remaining - int (length data)) (parts @ [file_part env att mimeType data])))))"

definition buildFileParts ::
  "'n http_env \<Rightarrow> aiAdapter \<Rightarrow> ctx \<Rightarrow> A2ARequest \<Rightarrow> ('r, 'n, JSONRPCPart list) go" where
  "buildFileParts env a ctx req =
     (if rq_Attachments req = [] then Done []
      else
        (let perDownload = attachmentTimeout a in
         pbind (WithTimeout ctx (attachmentsTotalTimeFactor * perDownload)) (\<lambda>budgetCtx.
         pbind allowedMediaHosts (\<lambda>hosts.
         pbind (parts_loop env budgetCtx hosts perDownload (rq_Attachments req)
                  maxAttachmentsTotalBytes []) (\<lambda>parts.
         pbind (cancel budgetCtx) (\<lambda>_. Done parts))))))"

section \<open>Lemmas\<close>

definition authorized :: "'n http_env \<Rightarrow> string list \<Rightarrow> string \<Rightarrow> bool" where
  "authorized env hosts rawURL \<longleftrightarrow> checkMediaURL env rawURL hosts = None"

lemma authorized_iff:
  "authorized env hosts rawURL \<longleftrightarrow>
     (\<exists>u. he_Parse env rawURL = Some u \<and> to_lower (u_Scheme u) \<in> {''http'', ''https''} \<and>
        to_lower (u_Hostname u) \<noteq> [] \<and> to_lower (u_Hostname u) \<in> set hosts)"
  by (auto simp: authorized_def checkMediaURL_def Let_def split: option.splits if_splits)

lemma mediaClient_stops: "stops_at_10 (mediaClient env hosts)"
  by (simp add: stops_at_10_def mediaClient_def)

lemma mediaClient_None: "mediaClient env hosts req via = None \<Longrightarrow> authorized env hosts (hr_URL req)"
  by (simp add: mediaClient_def authorized_def split: if_splits)

fun is_http :: "event \<Rightarrow> bool" where
  "is_http (EvHttp _) = True"
| "is_http _ = False"

lemma download_events:
  assumes "outcomes (downloadAttachment env ctx (mediaClient env hosts) url timeout limit ::
      ('r, 'n, go_error + string \<times> string) go) r es"
    and "authorized env hosts url" "0 \<le> limit"
  shows "(\<forall>h. EvHttp h \<in> set es \<longrightarrow> authorized env hosts (hr_URL h)) \<and>
    length (filter is_http es) \<le> 10 \<and>
    (\<forall>data ct. r = Inr (data, ct) \<longrightarrow> int (length data) \<le> limit)"
proof -
  let ?req = "\<lparr> hr_Method = ''GET'', hr_URL = url, hr_Headers = [], hr_Body = [] \<rparr>"
  let ?do = "\<lambda>dlCtx. Do env (mediaClient env hosts) dlCtx ?req ::
    ('r, 'n, go_error + http_response) go"
  from assms(2) obtain u where u: "he_Parse env url = Some u" by (auto simp: authorized_iff)
  have "outcomes (pbind (WithTimeout ctx timeout) (\<lambda>dlCtx.
      pbind (pbind (?do dlCtx) (\<lambda>r. Done (read_attachment limit r)))
        (\<lambda>r. pbind (cancel dlCtx) (\<lambda>_. Done r)))) r es"
    using assms(1) u by (simp add: downloadAttachment_def NewRequest_def)
  then obtain i where "outcomes (pbind (pbind (?do (i # ctx)) (\<lambda>r. Done (read_attachment limit r)))
        (\<lambda>r. pbind (cancel (i # ctx)) (\<lambda>_. Done r))) r es"
    by (rule outcomes_WithTimeoutE)
  then obtain es2 where "outcomes (pbind (?do (i # ctx)) (\<lambda>r. Done (read_attachment limit r))) r es2"
    and es: "es = es2 @ [EvCancel i]" by (rule outcomes_defer_cancelE)
  then obtain a where do_out: "outcomes (?do (i # ctx)) a es2" and r: "r = read_attachment limit a"
    unfolding outcomes_pbind_Done by blast
  from Do_events [OF do_out] obtain hops where hops: "es2 = EvDo ?req # map EvHttp hops"
    "length hops \<le> 10" "hops \<noteq> [] \<longrightarrow> hd hops = ?req"
    "\<forall>h \<in> set (tl hops). \<exists>v. mediaClient env hosts h v = None" by blast
  have "authorized env hosts (hr_URL h)" if "h \<in> set hops" for h
  proof (cases hops)
    case Nil
    with that show ?thesis by simp
  next
    case (Cons h0 hs)
    with that hops(3,4) assms(2) show ?thesis by (auto dest: mediaClient_None)
  qed
  moreover have "length (filter is_http es) = length hops"
    using es hops(1) by (simp add: comp_def)
  moreover have "int (length data) \<le> limit" if "r = Inr (data, ct)" for data ct
    using read_attachment_bound r that by blast
  ultimately show ?thesis using es hops by auto
qed

text \<open>What the loop adds: a subsequence of the attachments, each within the limits.\<close>

type_synonym forwarded = "AiAttachment \<times> string \<times> string"

definition forwarded_ok :: "'n http_env \<Rightarrow> string list \<Rightarrow> forwarded \<Rightarrow> bool" where
  "forwarded_ok env hosts x = (case x of (att, mimeType, data) \<Rightarrow>
     authorized env hosts (ai_URL att) \<and> int (length data) \<le> maxAttachmentBytes \<and>
     (\<exists>ct. resolveMimeType env att ct = Some mimeType))"

definition forwarded_part :: "'n http_env \<Rightarrow> forwarded \<Rightarrow> JSONRPCPart" where
  "forwarded_part env x = (case x of (att, mimeType, data) \<Rightarrow> file_part env att mimeType data)"

definition forwarded_bytes :: "forwarded list \<Rightarrow> int" where
  "forwarded_bytes xs = sum_list (map (\<lambda>x. int (length (snd (snd x)))) xs)"

definition parts_spec ::
  "'n http_env \<Rightarrow> string list \<Rightarrow> AiAttachment list \<Rightarrow> int \<Rightarrow> JSONRPCPart list \<Rightarrow> JSONRPCPart list \<Rightarrow>
     event list \<Rightarrow> bool" where
  "parts_spec env hosts atts remaining parts r es \<longleftrightarrow>
     (\<exists>xs. r = parts @ map (forwarded_part env) xs \<and> subseq (map fst xs) atts \<and>
        (\<forall>x \<in> set xs. forwarded_ok env hosts x) \<and> forwarded_bytes xs \<le> max 0 remaining) \<and>
     (\<forall>h. EvHttp h \<in> set es \<longrightarrow> authorized env hosts (hr_URL h)) \<and>
     length (filter is_http es) \<le> 10 * length atts"

lemma parts_spec_stop: "parts_spec env hosts atts remaining parts parts []"
  by (auto simp: parts_spec_def forwarded_bytes_def intro: exI [of _ "[]"])

lemma parts_spec_skip:
  assumes "parts_spec env hosts atts remaining parts r es2"
    and "\<forall>h. EvHttp h \<in> set es1 \<longrightarrow> authorized env hosts (hr_URL h)" "length (filter is_http es1) \<le> 10"
  shows "parts_spec env hosts (att # atts) remaining parts r (es1 @ es2)"
  using assms unfolding parts_spec_def by auto

lemma parts_spec_add:
  assumes "parts_spec env hosts atts (remaining - int (length data))
      (parts @ [file_part env att mimeType data]) r es2"
    and "\<forall>h. EvHttp h \<in> set es1 \<longrightarrow> authorized env hosts (hr_URL h)" "length (filter is_http es1) \<le> 10"
    and "forwarded_ok env hosts (att, mimeType, data)" "int (length data) \<le> remaining"
  shows "parts_spec env hosts (att # atts) remaining parts r (es1 @ es2)"
proof -
  obtain xs where xs: "r = (parts @ [file_part env att mimeType data]) @ map (forwarded_part env) xs"
    "subseq (map fst xs) atts" "\<forall>x \<in> set xs. forwarded_ok env hosts x"
    "forwarded_bytes xs \<le> max 0 (remaining - int (length data))"
    using assms(1) unfolding parts_spec_def by blast
  let ?ys = "(att, mimeType, data) # xs"
  have "r = parts @ map (forwarded_part env) ?ys" using xs(1) by (simp add: forwarded_part_def)
  moreover have "subseq (map fst ?ys) (att # atts)" using xs(2) by simp
  moreover have "\<forall>x \<in> set ?ys. forwarded_ok env hosts x" using xs(3) assms(4) by simp
  moreover have "forwarded_bytes ?ys \<le> max 0 remaining"
    using xs(4) assms(5) by (simp add: forwarded_bytes_def)
  ultimately have "\<exists>ys. r = parts @ map (forwarded_part env) ys \<and> subseq (map fst ys) (att # atts) \<and>
      (\<forall>x \<in> set ys. forwarded_ok env hosts x) \<and> forwarded_bytes ys \<le> max 0 remaining" by blast
  moreover have "\<forall>h. EvHttp h \<in> set (es1 @ es2) \<longrightarrow> authorized env hosts (hr_URL h)"
    using assms(1,2) unfolding parts_spec_def by auto
  moreover have "length (filter is_http (es1 @ es2)) \<le> 10 * length (att # atts)"
    using assms(1,3) unfolding parts_spec_def by simp
  ultimately show ?thesis unfolding parts_spec_def by blast
qed

lemma parts_loop_spec:
  assumes "outcomes (parts_loop env ctx hosts d atts remaining parts ::
      ('r, 'n, JSONRPCPart list) go) r es"
  shows "parts_spec env hosts atts remaining parts r es"
  using assms
proof (induction atts arbitrary: remaining parts es)
  case Nil
  then show ?case by (simp add: parts_spec_stop)
next
  case (Cons att atts)
  let ?loop = "\<lambda>rem ps. parts_loop env ctx hosts d atts rem ps :: ('r, 'n, JSONRPCPart list) go"
  let ?limit = "min maxAttachmentBytes remaining"
  let ?dl = "downloadAttachment env ctx (mediaClient env hosts) (ai_URL att) d ?limit ::
    ('r, 'n, go_error + string \<times> string) go"
  let ?after = "\<lambda>r. case r of
      Inl _ \<Rightarrow> ?loop remaining parts
    | Inr (data, respContentType) \<Rightarrow>
        (case resolveMimeType env att respContentType of
           None \<Rightarrow> ?loop remaining parts
         | Some mimeType \<Rightarrow>
             ?loop (remaining - int (length data)) (parts @ [file_part env att mimeType data]))"
  show ?case
  proof (cases "ai_URL att = [] \<or> checkMediaURL env (ai_URL att) hosts \<noteq> None")
    case True
    with Cons.prems have "outcomes (?loop remaining parts) r es" by (simp only: parts_loop.simps if_True)
    from parts_spec_skip [OF Cons.IH [OF this], of "[]" att] show ?thesis by simp
  next
    case live: False
    with Cons.prems have "outcomes (pbind (is_done ctx) (\<lambda>stopped. if stopped then Done parts
        else let limit = ?limit in if limit \<le> 0 then Done parts else pbind ?dl ?after)) r es"
      by (simp only: parts_loop.simps if_False Let_def)
    then obtain stopped where out: "outcomes (if stopped then Done parts
        else let limit = ?limit in if limit \<le> 0 then Done parts else pbind ?dl ?after) r es"
      by (rule outcomes_is_doneE)
    show ?thesis
    proof (cases "stopped \<or> ?limit \<le> 0")
      case True
      with out show ?thesis by (auto simp: parts_spec_stop Let_def split: if_splits)
    next
      case False
      then have go: "\<not> stopped" "\<not> ?limit \<le> 0" by blast+
      with out have "outcomes (pbind ?dl ?after) r es" by (simp only: if_False Let_def)
      then obtain q es1 es2 where dl: "outcomes ?dl q es1" and after: "outcomes (?after q) r es2"
        and es: "es = es1 @ es2" by (rule outcomes_bindE)
      have auth: "authorized env hosts (ai_URL att)" using live by (simp add: authorized_def)
      from download_events [OF dl auth] go have
        events: "\<forall>h. EvHttp h \<in> set es1 \<longrightarrow> authorized env hosts (hr_URL h)"
          "length (filter is_http es1) \<le> 10" and
        len: "\<forall>data ct. q = Inr (data, ct) \<longrightarrow> int (length data) \<le> ?limit" by simp_all
      show ?thesis
      proof (cases "\<exists>data ct m. q = Inr (data, ct) \<and> resolveMimeType env att ct = Some m")
        case True
        then obtain data ct m where q: "q = Inr (data, ct)" "resolveMimeType env att ct = Some m" by blast
        with after have "outcomes (?loop (remaining - int (length data))
            (parts @ [file_part env att m data])) r es2" by simp
        moreover have "forwarded_ok env hosts (att, m, data)" "int (length data) \<le> remaining"
          using q len auth by (auto simp: forwarded_ok_def)
        ultimately show ?thesis
          unfolding es using events by (intro parts_spec_add Cons.IH)
      next
        case False
        with after have "outcomes (?loop remaining parts) r es2"
          by (auto split: sum.splits option.splits)
        then show ?thesis unfolding es using events by (intro parts_spec_skip Cons.IH)
      qed
    qed
  qed
qed

lemma timeout_bounds:
  "0 < sint (attachmentTimeout a) \<and> sint (attachmentTimeout a) \<le> 10 * 10 ^ 9 \<and>
   sint (attachmentsTotalTimeFactor * attachmentTimeout a) = 3 * sint (attachmentTimeout a)"
proof -
  define t where "t = attachmentTimeout a"
  have b: "0 < sint t" "sint t \<le> 10 * 10 ^ 9"
    unfolding t_def by (auto simp: attachmentTimeout_def Let_def word_sless_alt word_sle_eq)
  then show ?thesis unfolding t_def [symmetric] using sint_scale [of t 3] by simp
qed

section \<open>Media hosts that serve\<close>

text \<open>Every GET is answered with 200 and the body and type of its URL.\<close>

definition serves :: "'n http_env \<Rightarrow> (string \<Rightarrow> string) \<Rightarrow> (string \<Rightarrow> string) \<Rightarrow> bool" where
  "serves env body ct \<longleftrightarrow> (\<forall>u n.
     he_RoundTrip env False \<lparr> hr_Method = ''GET'', hr_URL = u, hr_Headers = [], hr_Body = [] \<rparr> n
       = (Inr \<lparr> hs_Status = 200, hs_Headers = [(''Content-Type'', ct u)], hs_Body = body u,
               hs_ReadErr = False \<rparr>, n))"

lemma run_download_ok:
  assumes "serves env body ct" "authorized env hosts u" "live w ctx" "0 < sint timeout"
    and "int (length (body u)) \<le> limit"
  shows "\<exists>es w'. run (downloadAttachment env ctx client u timeout limit) w
      = (Inr (body u, ct u), es, w') \<and> live w' ctx"
proof -
  let ?c = "w_next_ctx w # ctx"
  let ?w1 = "w \<lparr> w_next_ctx := Suc (w_next_ctx w) \<rparr>"
  let ?req = "\<lparr> hr_Method = ''GET'', hr_URL = u, hr_Headers = [], hr_Body = [] \<rparr>"
  let ?resp = "\<lparr> hs_Status = 200, hs_Headers = [(''Content-Type'', ct u)], hs_Body = body u,
               hs_ReadErr = False \<rparr>"
  have timeout: "run (WithTimeout ctx timeout) w = (?c, [], ?w1)"
    using assms(4) by (simp add: WithTimeout_def run_atomic Let_def)
  have nd: "\<not> ctx_done ?w1 ?c" using assms(3) by (auto simp: live_def ctx_done_iff)
  have "\<not> is_redirect ?resp" by (simp add: is_redirect_def)
  then have do_run: "run (Do env client ?c ?req) ?w1 = (Inr ?resp, [EvDo ?req, EvHttp ?req], ?w1)"
    using assms(1) nd
    by (simp add: Do_def eval_nat_numeral run_bind run_emit round_trip_def run_atomic serves_def)
  have lim: "take (nat (limit + 1)) (body u) = body u" using assms(5) by simp
  have read: "read_attachment limit (Inr ?resp) = Inr (body u, ct u)"
    using assms(5) by (simp add: read_attachment_def read_limited_def lim header_get_def)
  obtain x where "he_Parse env u = Some x" using assms(2) by (auto simp: authorized_iff)
  then have "run (downloadAttachment env ctx client u timeout limit) w
      = (Inr (body u, ct u), [EvDo ?req, EvHttp ?req, EvCancel (w_next_ctx w)],
         finish_ctx Canceled ?c ?w1)"
    by (simp add: downloadAttachment_def NewRequest_def run_bind timeout do_run read cancel_def run_Step)
  moreover have "live (finish_ctx Canceled ?c ?w1) ctx"
    using assms(3) by (rule live_finish_child)
  ultimately show ?thesis by blast
qed

lemma run_parts_loop_ok:
  assumes "serves env body ct" "0 < sint d"
    and "\<forall>att \<in> set atts. authorized env hosts (ai_URL att) \<and> ai_URL att \<noteq> [] \<and>
       0 < length (body (ai_URL att)) \<and> int (length (body (ai_URL att))) \<le> maxAttachmentBytes \<and>
       resolveMimeType env att (ct (ai_URL att)) = Some (mime att)"
    and "live w ctx"
    and "sum_list (map (\<lambda>att. int (length (body (ai_URL att)))) atts) \<le> remaining"
  shows "\<exists>es w'. run (parts_loop env ctx hosts d atts remaining parts) w =
    (parts @ map (\<lambda>att. file_part env att (mime att) (body (ai_URL att))) atts, es, w')"
  using assms(3-)
proof (induction atts arbitrary: remaining parts w)
  case (Cons att atts)
  let ?n = "int (length (body (ai_URL att)))"
  let ?limit = "min maxAttachmentBytes remaining"
  have nonneg: "0 \<le> sum_list (map (\<lambda>att. int (length (body (ai_URL att)))) atts)"
    by (rule sum_list_nonneg) auto
  have "?n \<le> maxAttachmentBytes" "0 < ?n"
    "?n + sum_list (map (\<lambda>att. int (length (body (ai_URL att)))) atts) \<le> remaining"
    using Cons.prems(1,3) by simp_all
  then have n: "?n \<le> remaining" "?n \<le> maxAttachmentBytes" "0 < ?n" using nonneg by linarith+
  then have lim1: "?n \<le> ?limit" by (simp only: min.bounded_iff)
  with n(3) have "\<not> ?limit \<le> 0" by linarith
  note lim = lim1 this
  from Cons.prems have auth: "authorized env hosts (ai_URL att)" by simp
  obtain es1 w1 where dl: "run (downloadAttachment env ctx (mediaClient env hosts) (ai_URL att) d ?limit) w
      = (Inr (body (ai_URL att), ct (ai_URL att)), es1, w1)" "live w1 ctx"
    using run_download_ok [OF assms(1) auth Cons.prems(2) assms(2) lim(1)] by blast
  have rest_ok: "\<forall>att \<in> set atts. authorized env hosts (ai_URL att) \<and> ai_URL att \<noteq> [] \<and>
       0 < length (body (ai_URL att)) \<and> int (length (body (ai_URL att))) \<le> maxAttachmentBytes \<and>
       resolveMimeType env att (ct (ai_URL att)) = Some (mime att)"
    using Cons.prems(1) by simp
  have fits: "sum_list (map (\<lambda>att. int (length (body (ai_URL att)))) atts) \<le> remaining - ?n"
    using Cons.prems(3) by simp
  obtain es2 w2 where rest: "run (parts_loop env ctx hosts d atts (remaining - ?n)
        (parts @ [file_part env att (mime att) (body (ai_URL att))])) w1
      = ((parts @ [file_part env att (mime att) (body (ai_URL att))])
         @ map (\<lambda>att. file_part env att (mime att) (body (ai_URL att))) atts, es2, w2)"
    using Cons.IH [OF rest_ok dl(2) fits] by blast
  have step: "\<not> ctx_done w ctx" "checkMediaURL env (ai_URL att) hosts = None" "ai_URL att \<noteq> []"
    using Cons.prems auth by (auto simp: live_def authorized_def)
  have res: "resolveMimeType env att (ct (ai_URL att)) = Some (mime att)" using Cons.prems(1) by simp
  show ?case
    using dl(1) rest lim step res by (simp add: run_bind is_done_def run_get Let_def)
qed simp

section \<open>Building parts leaves a finished context finished\<close>

lemma keeps_done_download [keeps_done]:
  "preserves (done_in c) (downloadAttachment env q client url timeout limit ::
     ('r, 'n, go_error + string \<times> string) go)"
  by (auto simp: downloadAttachment_def intro!: keeps_done split: sum.splits)

lemma keeps_done_parts_loop [keeps_done]:
  "preserves (done_in c) (parts_loop env q hosts d atts remaining parts :: ('r, 'n, JSONRPCPart list) go)"
proof (induction atts arbitrary: remaining parts)
  case (Cons att atts)
  show ?case
    by (auto simp: Let_def Cons.IH intro!: keeps_done split: sum.splits option.splits)
qed simp

lemma keeps_done_buildFileParts [keeps_done]:
  "preserves (done_in c) (buildFileParts env a q req :: ('r, 'n, JSONRPCPart list) go)"
  by (auto simp: buildFileParts_def allowedMediaHosts_def Let_def intro!: keeps_done)

section \<open>Properties\<close>

text \<open>The environment of the process does not change.\<close>

definition keeps_env :: "('r, 'n) world interference \<Rightarrow> bool" where
  "keeps_env I \<longleftrightarrow> (\<forall>n w. w_env (I n w) = w_env w)"

definition env_hosts :: "('r, 'n) world \<Rightarrow> string list" where
  "env_hosts w =
     parse_hosts (case w_env w mediaHostAllowlistEnv of None \<Rightarrow> [] | Some v \<Rightarrow> v)"

lemma finish_ctx_env [simp]: "w_env (finish_ctx e c w) = w_env w"
  by (simp add: finish_ctx_def)

lemma buildFileParts_spec:
  assumes "keeps_env I" "exec I (buildFileParts env a ctx req) n w = (parts, es, w', m)"
  shows "parts_spec env (env_hosts w) (rq_Attachments req) maxAttachmentsTotalBytes [] parts es"
proof (cases "rq_Attachments req = []")
  case True
  with assms(2) show ?thesis by (simp add: buildFileParts_def exec_Done parts_spec_stop)
next
  case False
  obtain c w1 where 1: "exec I (WithTimeout ctx (attachmentsTotalTimeFactor * attachmentTimeout a)) n w
      = (c, [], w1, Suc n)" "w_env w1 = w_env w"
    using assms(1) by (simp add: WithTimeout_def exec_atomic Let_def keeps_env_def)
  have 2: "exec I allowedMediaHosts (Suc n) w1 = (env_hosts w, [], I (Suc n) w1, Suc (Suc n))"
    using assms(1) 1(2)
    by (simp add: allowedMediaHosts_def Getenv_def exec_bind exec_get exec_Done keeps_env_def env_hosts_def)
  obtain parts2 es2 w2 m2 where 3: "exec I (parts_loop env c (env_hosts w) (attachmentTimeout a)
      (rq_Attachments req) maxAttachmentsTotalBytes []) (Suc (Suc n)) (I (Suc n) w1) = (parts2, es2, w2, m2)"
    by (metis prod_cases4)
  obtain es3 w3 m3 where 4: "exec I (cancel c) m2 w2 = ((), es3, w3, m3)"
    by (metis (full_types) prod_cases4 unit.exhaust)
  have es3: "outcomes (cancel c :: ('a, 'b, unit) go) () es3" using exec_outcomes [OF 4] .
  have res: "parts = parts2" "es = es2 @ es3"
    using assms(2) False 1 2 3 4 by (auto simp: buildFileParts_def Let_def exec_bind exec_Done)
  have "parts_spec env (env_hosts w) (rq_Attachments req) maxAttachmentsTotalBytes [] parts2 es2"
    by (rule parts_loop_spec [OF exec_outcomes [OF 3]])
  with es3 show ?thesis unfolding res by (auto simp: parts_spec_def)
qed

lemma buildFileParts_all:
  assumes "serves env body ct" "live w ctx"
    and "\<forall>att \<in> set (rq_Attachments req). authorized env (env_hosts w) (ai_URL att) \<and> ai_URL att \<noteq> [] \<and>
       0 < length (body (ai_URL att)) \<and> int (length (body (ai_URL att))) \<le> 15 * 2 ^ 20 \<and>
       resolveMimeType env att (ct (ai_URL att)) = Some (mime att)"
    and "sum_list (map (\<lambda>att. int (length (body (ai_URL att)))) (rq_Attachments req)) \<le> 20 * 2 ^ 20"
  shows "fst (run (buildFileParts env a ctx req) w)
    = map (\<lambda>att. file_part env att (mime att) (body (ai_URL att))) (rq_Attachments req)"
proof (cases "rq_Attachments req = []")
  case True
  then show ?thesis by (simp add: buildFileParts_def)
next
  case False
  let ?d = "attachmentTimeout a" and ?c = "w_next_ctx w # ctx"
  let ?w1 = "w \<lparr> w_next_ctx := Suc (w_next_ctx w) \<rparr>"
  have pos: "0 < sint ?d" "0 < sint (attachmentsTotalTimeFactor * ?d)"
    using timeout_bounds [of a] by simp_all
  then have 1: "run (WithTimeout ctx (attachmentsTotalTimeFactor * ?d)) w = (?c, [], ?w1)"
    by (simp add: WithTimeout_def run_atomic Let_def)
  have 2: "run allowedMediaHosts ?w1 = (env_hosts w, [], ?w1)"
    by (simp add: allowedMediaHosts_def Getenv_def run_bind run_get env_hosts_def)
  have lv: "live ?w1 ?c" using assms(2) by (rule live_child)
  obtain es w' where 3: "run (parts_loop env ?c (env_hosts w) ?d (rq_Attachments req)
      maxAttachmentsTotalBytes []) ?w1
      = (map (\<lambda>att. file_part env att (mime att) (body (ai_URL att))) (rq_Attachments req), es, w')"
    using run_parts_loop_ok [OF assms(1) pos(1) _ lv, of "rq_Attachments req" "env_hosts w" mime
        maxAttachmentsTotalBytes "[]"] assms(3,4) by auto
  show ?thesis
    using False 1 2 3 by (simp add: buildFileParts_def Let_def run_bind cancel_def run_Step)
qed

text \<open>A network with one media host, and a call with one attachment on it.\<close>

definition cdn_env :: "unit http_env" where
  "cdn_env = \<lparr> he_Parse = (\<lambda>u. Some \<lparr> u_Scheme = ''https'', u_Hostname = ''cdn'', u_Path = ''/a.html'' \<rparr>),
     he_Resolve = (\<lambda>base loc. Some loc),
     he_RoundTrip = (\<lambda>done req n. (if done then Inl (Errorf ''context canceled'')
        else Inr \<lparr> hs_Status = 200, hs_Headers = [(''Content-Type'', ''image/png'')], hs_Body = ''x'',
                   hs_ReadErr = False \<rparr>, n)),
     he_ParseMediaType = (\<lambda>s. Some s), he_TypeByExtension = (\<lambda>s. ''text/html'') \<rparr>"

definition cdn_att :: AiAttachment where
  "cdn_att = \<lparr> ai_URL = ''https://cdn/a'', ai_ContentType = [], ai_FileType = ''image'' \<rparr>"

definition cdn_req :: A2ARequest where
  "cdn_req = \<lparr> rq_OutgoingURL = ''u'', rq_ContactID = 7, rq_ConversationID = 9, rq_ApiKey = ''k'',
     rq_Message = ''hi'', rq_Metadata = None, rq_Attachments = [cdn_att] \<rparr>"

definition cdn_world :: "(unit, unit) world" where
  "cdn_world = boot_world () () \<lparr> w_env := (\<lambda>k. if k = mediaHostAllowlistEnv then Some ''cdn'' else None) \<rparr>"

definition cdn_adapter :: aiAdapter where
  "cdn_adapter = \<lparr> aa_timeoutSecs = 90, aa_maxRetries = 2, aa_retryBaseDelay = 200 * Millisecond \<rparr>"

lemma to_lower_plain:
  "\<forall>c \<in> set s. of_char c < (128 :: nat) \<and> \<not> (65 \<le> (of_char c :: nat) \<and> of_char c \<le> (90 :: nat)) \<Longrightarrow>
     to_lower s = s"
proof (induction s)
  case (Cons c s)
  then have "encode_rune (of_char c) = [c]" "lower_rune (of_char c) = of_char c"
    "of_char c < (0x80 :: nat)"
    by (auto simp: encode_rune_def encode_bytes_def lower_rune_ascii)
  with Cons show ?case by (simp add: to_lower_def runes_ascii)
qed (simp add: to_lower_def)

lemma cdn_hosts: "env_hosts cdn_world = [''cdn'']"
  by (simp add: env_hosts_def cdn_world_def parse_hosts_def split_char_def trim_space_def
      to_lower_plain runes.simps decode_rune_def is_space_def)

lemma cdn_authorized: "authorized cdn_env [''cdn''] u"
  by (simp add: authorized_iff cdn_env_def to_lower_plain)

lemma cdn_facts:
  "serves cdn_env (\<lambda>_. ''x'') (\<lambda>_. ''image/png'')" "live cdn_world []"
  "resolveMimeType cdn_env cdn_att ''image/png'' = Some ''image/png''"
  by (simp_all add: serves_def cdn_env_def live_def cdn_world_def boot_world_def ctx_done_iff
      resolveMimeType_def mediaTypeOf_def cdn_att_def isWebPage_def octetStream_def Let_def)

lemma cdn_run: "\<exists>es w' m. exec calm (buildFileParts cdn_env cdn_adapter [] cdn_req) 0 cdn_world
    = ([file_part cdn_env cdn_att ''image/png'' ''x''], es, w', m)"
proof -
  have "fst (run (buildFileParts cdn_env cdn_adapter [] cdn_req) cdn_world)
      = map (\<lambda>att. file_part cdn_env att ''image/png'' ''x'') (rq_Attachments cdn_req)"
    by (rule buildFileParts_all [OF cdn_facts(1,2)])
      (simp_all add: cdn_req_def cdn_hosts cdn_authorized cdn_facts(3), simp add: cdn_att_def)
  then show ?thesis by (simp add: cdn_req_def run_def split: prod.splits)
qed

lemma calm_keeps_env: "keeps_env calm"
  by (simp add: keeps_env_def calm_def)

text \<open>
  C27 (media_hosts_authorized). Whatever redirects the media hosts send and whatever happens
  meanwhile, every HTTP request made while building the file parts, hops included, goes to a
  parseable http or https URL whose host is in \<open>MEDIA_HOST_ALLOWLIST\<close>; with the variable
  unset there is none. At most ten requests are made per attachment.
\<close>

theorem media_hosts_authorized:
  assumes "keeps_env I" "exec I (buildFileParts env a ctx req) n w = (parts, es, w', m)"
  shows "(\<forall>h. EvHttp h \<in> set es \<longrightarrow>
      (\<exists>u. he_Parse env (hr_URL h) = Some u \<and> to_lower (u_Scheme u) \<in> {''http'', ''https''} \<and>
         to_lower (u_Hostname u) \<in> set (env_hosts w))) \<and>
    length (filter is_http es) \<le> 10 * length (rq_Attachments req)"
  using buildFileParts_spec [OF assms] unfolding parts_spec_def authorized_iff by blast

theorem media_hosts_authorized_witness:
  "\<exists>parts es w' m. exec calm (buildFileParts cdn_env cdn_adapter [] cdn_req) 0 cdn_world
     = (parts, es, w', m) \<and> parts \<noteq> [] \<and>
     (\<forall>h. EvHttp h \<in> set es \<longrightarrow>
      (\<exists>u. he_Parse cdn_env (hr_URL h) = Some u \<and> to_lower (u_Scheme u) \<in> {''http'', ''https''} \<and>
         to_lower (u_Hostname u) \<in> {''cdn''}))"
proof -
  obtain es w' m where run: "exec calm (buildFileParts cdn_env cdn_adapter [] cdn_req) 0 cdn_world
    = ([file_part cdn_env cdn_att ''image/png'' ''x''], es, w', m)" using cdn_run by blast
  from media_hosts_authorized [OF calm_keeps_env run] cdn_hosts run show ?thesis by auto
qed

text \<open>
  C28 (file_parts_within_budget). The file parts stand for a subsequence of the attachments, in
  order, each from an authorized URL, with a resolved type and with the exact bytes that were
  downloaded (the receiver's base64 decoder gives them back): at most 15 MiB each and 20 MiB
  together.
\<close>

theorem file_parts_within_budget:
  assumes "keeps_env I" "exec I (buildFileParts env a ctx req) n w = (parts, es, w', m)"
  shows "\<exists>xs. parts = map (\<lambda>(att, mimeType, data). file_part env att mimeType data) xs \<and>
    subseq (map fst xs) (rq_Attachments req) \<and>
    (\<forall>(att, mimeType, data) \<in> set xs.
       DecodeString (EncodeToString data) = Some data \<and> int (length data) \<le> 15 * 2 ^ 20 \<and>
       authorized env (env_hosts w) (ai_URL att) \<and>
       (\<exists>ct. resolveMimeType env att ct = Some mimeType)) \<and>
    sum_list (map (\<lambda>(att, mimeType, data). int (length data)) xs) \<le> 20 * 2 ^ 20"
proof -
  obtain xs where "parts = map (forwarded_part env) xs" "subseq (map fst xs) (rq_Attachments req)"
    "\<forall>x \<in> set xs. forwarded_ok env (env_hosts w) x" "forwarded_bytes xs \<le> maxAttachmentsTotalBytes"
    using buildFileParts_spec [OF assms] unfolding parts_spec_def by auto
  then show ?thesis
    by (intro exI [of _ xs])
      (auto simp: forwarded_part_def forwarded_ok_def forwarded_bytes_def split_def
        DecodeString_EncodeToString [simplified])
qed

theorem file_parts_within_budget_witness:
  "\<exists>parts xs. fst (exec calm (buildFileParts cdn_env cdn_adapter [] cdn_req) 0 cdn_world) = parts \<and>
     parts \<noteq> [] \<and> parts = map (\<lambda>(att, mimeType, data). file_part cdn_env att mimeType data) xs \<and>
     sum_list (map (\<lambda>(att, mimeType, data). int (length data)) xs) \<le> 20 * 2 ^ 20"
proof -
  obtain es w' m where run: "exec calm (buildFileParts cdn_env cdn_adapter [] cdn_req) 0 cdn_world
    = ([file_part cdn_env cdn_att ''image/png'' ''x''], es, w', m)" using cdn_run by blast
  obtain xs where "[file_part cdn_env cdn_att ''image/png'' ''x'']
      = map (\<lambda>(att, mimeType, data). file_part cdn_env att mimeType data) xs"
    "sum_list (map (\<lambda>(att, mimeType, data). int (length data)) xs) \<le> 20 * 2 ^ 20"
    using file_parts_within_budget [OF calm_keeps_env run] by (elim exE conjE)
  with run show ?thesis by (metis fst_conv list.distinct(1))
qed

text \<open>
  C29 (media_forwarded). Media that the policy allows does arrive: when every attachment is on
  an authorized host that answers with a body and a type, and the bodies fit the budget, all
  of them are forwarded, in order.
\<close>

theorem media_forwarded:
  assumes "serves env body ct" "live w ctx"
    and "\<forall>att \<in> set (rq_Attachments req). authorized env (env_hosts w) (ai_URL att) \<and> ai_URL att \<noteq> [] \<and>
       0 < length (body (ai_URL att)) \<and> int (length (body (ai_URL att))) \<le> 15 * 2 ^ 20 \<and>
       resolveMimeType env att (ct (ai_URL att)) = Some (mime att)"
    and "sum_list (map (\<lambda>att. int (length (body (ai_URL att)))) (rq_Attachments req)) \<le> 20 * 2 ^ 20"
  shows "fst (run (buildFileParts env a ctx req) w)
    = map (\<lambda>att. file_part env att (mime att) (body (ai_URL att))) (rq_Attachments req)"
  using assms by (rule buildFileParts_all)

theorem media_forwarded_witness:
  "fst (run (buildFileParts cdn_env cdn_adapter [] cdn_req) cdn_world)
    = map (\<lambda>att. file_part cdn_env att ''image/png'' ''x'') [cdn_att]"
  using media_forwarded [OF cdn_facts(1,2), of cdn_req "\<lambda>_. ''image/png''"]
  by (simp add: cdn_req_def cdn_hosts cdn_authorized cdn_facts(3)) (simp add: cdn_att_def)

text \<open>
  The type of a part is the first of: the type of the response, the
  declared type, the type of the URL's extension, that is neither empty nor opaque; a response
  or a declaration that is a web page is refused.
\<close>

theorem mime_type_choice:
  "resolveMimeType env att ct = Some m \<longleftrightarrow>
     \<not> isWebPage (mediaTypeOf env ct) \<and> \<not> isWebPage (mediaTypeOf env (ai_ContentType att)) \<and>
     m \<noteq> [] \<and> m \<noteq> octetStream \<and>
     (let opaque = (\<lambda>t. t = [] \<or> t = octetStream) in
        m = mediaTypeOf env ct \<or>
        opaque (mediaTypeOf env ct) \<and> m = mediaTypeOf env (ai_ContentType att) \<or>
        opaque (mediaTypeOf env ct) \<and> opaque (mediaTypeOf env (ai_ContentType att)) \<and>
          m = mediaTypeOf env (mimeFromURL env (ai_URL att)))"
  by (auto simp: resolveMimeType_def Let_def)

text \<open>
  The check for web pages does not look at the type guessed from
  the URL: a download without a Content-Type from an \<open>.html\<close> URL is forwarded as text/html.
\<close>

theorem web_page_by_extension:
  assumes "ai_ContentType att = []" "mediaTypeOf env (mimeFromURL env (ai_URL att)) = ''text/html''"
  shows "resolveMimeType env att [] = Some ''text/html''"
  using assms by (simp add: resolveMimeType_def mediaTypeOf_def isWebPage_def octetStream_def)

theorem web_page_by_extension_witness:
  "resolveMimeType cdn_env cdn_att [] = Some ''text/html''"
  by (rule web_page_by_extension) (simp_all add: cdn_att_def cdn_env_def mimeFromURL_def mediaTypeOf_def)

text \<open>
  A download gets at least a nanosecond and at most ten
  seconds, and the budget of the whole set, three times that, does not wrap around.
\<close>

theorem attachment_timeout_bounds:
  "0 < sint (attachmentTimeout a) \<and> sint (attachmentTimeout a) \<le> 10 * 10 ^ 9 \<and>
   sint (attachmentsTotalTimeFactor * attachmentTimeout a) = 3 * sint (attachmentTimeout a)"
  by (rule timeout_bounds)

end
