(* ===== verification/Ai_Response.thy ===== *)
theory Ai_Response
  imports Bot_Codec
begin

text \<open>
  The pure parts of \<open>pkg/ai/service/ai_adapter.go\<close>: reading the reply out of an A2A response,
  and the identifiers of a call, taken from the CRM's metadata with the numeric IDs as a
  fallback.
\<close>

section \<open>The text of a response\<close>

fun first_text :: "A2APart list \<Rightarrow> string option" where
  "first_text [] = None"
| "first_text (part # parts) = (if apart_Text part \<noteq> [] then Some (apart_Text part) else first_text parts)"

fun artifact_text :: "A2AArtifact list \<Rightarrow> string option" where
  "artifact_text [] = None"
| "artifact_text (artifact # artifacts) =
     (case first_text (art_Parts artifact) of
        Some t \<Rightarrow> Some t
      | None \<Rightarrow> artifact_text artifacts)"

definition extractResponseText :: "A2AResponse \<Rightarrow> string" where
  "extractResponseText resp =
     (case resp_Result resp of
        None \<Rightarrow> []
      | Some result \<Rightarrow>
          (case artifact_text (res_Artifacts result) of
             Some t \<Rightarrow> t
           | None \<Rightarrow>
               (case res_Message result of
                  None \<Rightarrow> []
                | Some m \<Rightarrow> (case first_text (amsg_Parts m) of Some t \<Rightarrow> t | None \<Rightarrow> []))))"

section \<open>Metadata\<close>

definition nonNilMetadata :: "metadata \<Rightarrow> metadata" where
  "nonNilMetadata m = (case m of None \<Rightarrow> Some [] | Some kvs \<Rightarrow> Some kvs)"

text \<open>The type assertions \<open>v.(map[string]any)\<close> and \<open>v.(string)\<close> on a value that may be absent.\<close>

fun as_map :: "json option \<Rightarrow> metadata option" where
  "as_map (Some (JObj kvs)) = Some (Some kvs)"
| "as_map _ = None"

fun as_string :: "json option \<Rightarrow> string option" where
  "as_string (Some (JStr s)) = Some s"
| "as_string _ = None"

definition extractConversationUUID :: "metadata \<Rightarrow> string" where
  "extractConversationUUID metadata =
     (case as_map (meta_get metadata ''evoai_crm_data'') of
        None \<Rightarrow> []
      | Some crmData \<Rightarrow>
          (case as_map (meta_get crmData ''conversation'') of
             None \<Rightarrow> []
           | Some conversation \<Rightarrow>
               (case as_string (meta_get conversation ''id'') of None \<Rightarrow> [] | Some i \<Rightarrow> i)))"

definition conversationContextID :: "metadata \<Rightarrow> int64 \<Rightarrow> string" where
  "conversationContextID metadata conversationID =
     (let uuid = extractConversationUUID metadata
      in if uuid \<noteq> [] then uuid else itoa (sint conversationID))"

definition extractContactUUID :: "metadata \<Rightarrow> string" where
  "extractContactUUID metadata =
     (case as_map (meta_get metadata ''evoai_crm_data'') of
        None \<Rightarrow> []
      | Some crmData \<Rightarrow>
          (case as_map (meta_get crmData ''contact'') of
             None \<Rightarrow> []
           | Some contact \<Rightarrow>
               (case as_string (meta_get contact ''id'') of None \<Rightarrow> [] | Some i \<Rightarrow> i)))"

definition contactUserID :: "metadata \<Rightarrow> int64 \<Rightarrow> string" where
  "contactUserID metadata contactID =
     (let uuid = extractContactUUID metadata
      in if uuid \<noteq> [] then uuid else itoa (sint contactID))"

section \<open>Properties\<close>

text \<open>All texts of a response, in the order of the fallback: artifacts, then message.\<close>

definition response_texts :: "A2AResponse \<Rightarrow> string list" where
  "response_texts resp =
     (case resp_Result resp of
        None \<Rightarrow> []
      | Some r \<Rightarrow> map apart_Text (concat (map art_Parts (res_Artifacts r)))
          @ (case res_Message r of None \<Rightarrow> [] | Some m \<Rightarrow> map apart_Text (amsg_Parts m)))"

lemma first_text_find: "first_text ps = find (\<lambda>t. t \<noteq> []) (map apart_Text ps)"
  by (induction ps) auto

lemma find_append: "find P (xs @ ys) = (case find P xs of Some x \<Rightarrow> Some x | None \<Rightarrow> find P ys)"
  by (induction xs) auto

lemma artifact_text_find:
  "artifact_text as = find (\<lambda>t. t \<noteq> []) (map apart_Text (concat (map art_Parts as)))"
  by (induction as) (auto simp: first_text_find find_append split: option.splits)

text \<open>
  The reply is the first non-empty text of the response, over all
  parts of all artifacts and then of the message; the empty text when there is none.
\<close>

theorem reply_is_first_text:
  "extractResponseText resp =
     (case find (\<lambda>t. t \<noteq> []) (response_texts resp) of Some t \<Rightarrow> t | None \<Rightarrow> [])"
  by (simp add: extractResponseText_def response_texts_def artifact_text_find first_text_find
      find_append split: option.splits)

text \<open>
  The contextId and userId are never empty: a UUID of the metadata
  when it is a non-empty string, and otherwise the decimal of the numeric ID, from which
  \<open>ParseInt\<close> reads the ID back.
\<close>

theorem identifiers_fall_back:
  "conversationContextID md conv \<noteq> [] \<and> contactUserID md contact \<noteq> [] \<and>
   (conversationContextID md conv = extractConversationUUID md \<or>
    ParseInt (conversationContextID md conv) = (conv, None)) \<and>
   (contactUserID md contact = extractContactUUID md \<or>
    ParseInt (contactUserID md contact) = (contact, None))"
proof -
  have "itoa i \<noteq> []" for i by (simp add: itoa_def)
  then show ?thesis
    by (auto simp: conversationContextID_def contactUserID_def Let_def ParseInt_itoa)
qed

end
