(* ===== verification/Ai_Adapter.thy ===== *)
theory Ai_Adapter
  imports Ai_Attachments Ai_Response
begin

text \<open>
  The call of the AI processor in \<open>pkg/ai/service/ai_adapter.go\<close>: the JSON-RPC request, one
  attempt with its timeout and classification of failures, the backoff between attempts and
  the bounded retry loop.
\<close>

section \<open>The adapter\<close>

abbreviation maxBackoff :: duration where "maxBackoff \<equiv> 5 * Second"
abbreviation maxResponseBytes :: nat where "maxResponseBytes \<equiv> 1048576"

definition NewAIAdapter :: "int64 \<Rightarrow> int64 \<Rightarrow> int64 \<Rightarrow> aiAdapter" where
  "NewAIAdapter timeoutSecs maxRetries retryBaseMs =
     (let maxRetries = (if maxRetries <s 0 then 0 else maxRetries);
          retryBaseMs = (if retryBaseMs \<le>s 0 then 200 else retryBaseMs)
      in \<lparr> aa_timeoutSecs = timeoutSecs, aa_maxRetries = maxRetries,
           aa_retryBaseDelay = retryBaseMs * Millisecond \<rparr>)"

definition isRetryableStatus :: "int \<Rightarrow> bool" where
  "isRetryableStatus code \<longleftrightarrow> code \<in> {429, 500, 502, 503, 504}"

section \<open>One attempt\<close>

text \<open>A failed attempt tells whether it is worth another.\<close>

type_synonym attempt = "bool \<times> go_error + NormalizedResponse"

definition decode_response :: "http_response \<Rightarrow> A2AResponse option" where
  "decode_response resp =
     Option.bind (json_decode_first (take maxResponseBytes (hs_Body resp))) response_of"

definition read_reply :: "http_response \<Rightarrow> attempt" where
  "read_reply resp =
     (if hs_Status resp \<noteq> 200
      then Inl (isRetryableStatus (hs_Status resp),
                Errorf (''pipeline.ai.status: unexpected '' @ itoa (hs_Status resp)
                        @ '' from AI Processor''))
      else (case decode_response resp of
              None \<Rightarrow> Inl (False, Wrap ''pipeline.ai.decode'' (Errorf ''invalid JSON''))
            | Some a2aResp \<Rightarrow> Inr \<lparr> nr_Content = extractResponseText a2aResp \<rparr>))"

definition call_headers :: "string \<Rightarrow> (string \<times> string) list" where
  "call_headers apiKey =
     header_set (header_set [] ''Content-Type'' ''application/json'') ''X-API-Key'' apiKey"

definition doOnce ::
  "'n http_env \<Rightarrow> aiAdapter \<Rightarrow> ctx \<Rightarrow> string \<Rightarrow> string \<Rightarrow> string \<Rightarrow> ('r, 'n, attempt) go" where
  "doOnce env a ctx url body apiKey =
     pbind (WithTimeout ctx (aa_timeoutSecs a * Second)) (\<lambda>timeoutCtx.
     pbind (case NewRequest env ''POST'' url body of
        Inl err \<Rightarrow> Done (Inl (False, Wrap ''pipeline.ai.new_request'' err))
      | Inr req0 \<Rightarrow>
          pbind (Do env defaultCheckRedirect timeoutCtx (req0 \<lparr> hr_Headers := call_headers apiKey \<rparr>)) (\<lambda>r.
          case r of
            Inl err \<Rightarrow>
              pbind (is_done ctx) (\<lambda>cancelled.
              if cancelled then Done (Inl (False, ErrPipelineCancelled))
              else pbind (get_Err timeoutCtx) (\<lambda>e.
                   if e = Some DeadlineExceeded then Done (Inl (False, ErrAITimeout))
                   else Done (Inl (True, Wrap ''pipeline.ai.http'' err))))
          | Inr resp \<Rightarrow> Done (read_reply resp)))
     (\<lambda>r. pbind (cancel timeoutCtx) (\<lambda>_. Done r)))"

section \<open>Backoff\<close>

definition cappedBackoff :: "aiAdapter \<Rightarrow> nat \<Rightarrow> duration" where
  "cappedBackoff a attempt =
     (let d = push_bit (attempt - 1) (aa_retryBaseDelay a)
      in if d \<le>s 0 \<or> maxBackoff <s d then maxBackoff else d)"

definition backoffDelay :: "aiAdapter \<Rightarrow> nat \<Rightarrow> ('r, 'n, duration) go" where
  "backoffDelay a attempt =
     (let half = sint (cappedBackoff a attempt) div 2
      in pbind (Int63n (half + 1)) (\<lambda>jitter. Done (word_of_int half + word_of_int jitter)))"

section \<open>Call\<close>

definition rpc_request :: "A2ARequest \<Rightarrow> JSONRPCPart list \<Rightarrow> JSONRPCRequest" where
  "rpc_request req fileParts =
     \<lparr> rpc_JSONRPC = ''2.0'',
       rpc_ID = itoa (sint (rq_ContactID req)) @ '':'' @ itoa (sint (rq_ConversationID req)),
       rpc_Method = ''message/send'',
       rpc_Params = \<lparr> par_ContextID = conversationContextID (rq_Metadata req) (rq_ConversationID req),
         par_UserID = contactUserID (rq_Metadata req) (rq_ContactID req),
         par_Message = \<lparr> msg_Role = ''user'',
           msg_Parts = \<lparr> part_Type = ''text'', part_Text = rq_Message req, part_File = None \<rparr> # fileParts \<rparr>,
         par_Metadata = nonNilMetadata (rq_Metadata req) \<rparr> \<rparr>"

text \<open>
  The loop \<open>for attempt := 0; attempt < attempts; attempt++\<close>, on the number of attempts left.
  Returning after the last one without an error is returning \<open>nil, nil\<close>: no response.
\<close>

fun retry_loop ::
  "'n http_env \<Rightarrow> aiAdapter \<Rightarrow> ctx \<Rightarrow> string \<Rightarrow> string \<Rightarrow> string \<Rightarrow> nat \<Rightarrow> nat \<Rightarrow> go_error option \<Rightarrow>
     ('r, 'n, go_error + NormalizedResponse option) go" where
  "retry_loop env a ctx url body apiKey 0 attempt lastErr =
     Done (case lastErr of None \<Rightarrow> Inr None | Some err \<Rightarrow> Inl err)"
| "retry_loop env a ctx url body apiKey (Suc left) attempt lastErr =
     pbind (if 0 < attempt then pbind (backoffDelay a attempt) (Sleep ctx) else Done True) (\<lambda>elapsed.
     if \<not> elapsed then Done (Inl ErrPipelineCancelled)
     else
       pbind (doOnce env a ctx url body apiKey) (\<lambda>r.
       case r of
         Inr resp \<Rightarrow> Done (Inr (Some resp))
       | Inl (retryable, err) \<Rightarrow>
           if \<not> retryable then Done (Inl err)
           else retry_loop env a ctx url body apiKey left (Suc attempt) (Some err)))"

definition ceiling_of :: "aiAdapter \<Rightarrow> duration" where
  "ceiling_of a =
     (aa_maxRetries a + 1 + 1) * (aa_timeoutSecs a * Second) + aa_maxRetries a * maxBackoff"

definition Call ::
  "'n http_env \<Rightarrow> aiAdapter \<Rightarrow> ctx \<Rightarrow> A2ARequest \<Rightarrow> ('r, 'n, go_error + NormalizedResponse option) go" where
  "Call env a ctx req =
     pbind (buildFileParts env a ctx req) (\<lambda>fileParts.
       let body = json_text (request_json (rpc_request req fileParts));
           attempts = aa_maxRetries a + 1;
           perAttempt = aa_timeoutSecs a * Second;
           loop = (\<lambda>overallCtx. retry_loop env a overallCtx (rq_OutgoingURL req) body (rq_ApiKey req)
                     (nat (sint attempts)) 0 None)
       in if 0 <s perAttempt
          then pbind (WithTimeout ctx (ceiling_of a)) (\<lambda>overallCtx.
               pbind (loop overallCtx) (\<lambda>r. pbind (cancel overallCtx) (\<lambda>_. Done r)))
          else loop ctx)"

section \<open>Backoff stays in its bounds\<close>

lemma cappedBackoff_bounds: "0 < sint (cappedBackoff a n) \<and> sint (cappedBackoff a n) \<le> 5 * 10 ^ 9"
  by (auto simp: cappedBackoff_def Let_def word_sless_alt word_sle_eq not_le not_less)

lemma outcomes_Int63n:
  assumes "0 < n" "outcomes (Int63n n :: ('r, 'n, int) go) x es"
  shows "0 \<le> x \<and> x < n \<and> es = []"
proof -
  obtain w :: "('r, 'n) world" where
    x: "x = fst (case w_draws w of [] \<Rightarrow> (0, w) | y # ys \<Rightarrow> (y mod n, w \<lparr> w_draws := ys \<rparr>))"
    and es: "es = []"
    using assms(2) unfolding Int63n_def outcomes_atomic by blast
  from x es assms(1) show ?thesis by (cases "w_draws w") simp_all
qed

lemma outcomes_backoff:
  assumes "outcomes (backoffDelay a n :: ('r, 'n, duration) go) d es"
  shows "es = [] \<and> sint (cappedBackoff a n) div 2 \<le> sint d \<and> sint d \<le> sint (cappedBackoff a n)"
proof -
  let ?c = "sint (cappedBackoff a n)"
  have c: "0 < ?c" "?c \<le> 5 * 10 ^ 9" using cappedBackoff_bounds by blast+
  from assms obtain x where x: "outcomes (Int63n (?c div 2 + 1) :: ('r, 'n, int) go) x es"
    and d: "d = word_of_int (?c div 2) + word_of_int x"
    by (auto simp: backoffDelay_def Let_def outcomes_bind)
  have "0 \<le> x" "x < ?c div 2 + 1" "es = []" using outcomes_Int63n [OF _ x] c by auto
  moreover have "d = word_of_int (?c div 2 + x)" by (simp add: d)
  moreover have "sint (word_of_int (?c div 2 + x) :: int64) = ?c div 2 + x"
    using calculation(1,2) c by (intro sint64_of_int) auto
  ultimately show ?thesis by simp
qed

section \<open>What an attempt does\<close>

definition call_post :: "string \<Rightarrow> string \<Rightarrow> string \<Rightarrow> http_request" where
  "call_post url body apiKey =
     \<lparr> hr_Method = ''POST'', hr_URL = url, hr_Headers = call_headers apiKey, hr_Body = body \<rparr>"

fun is_do :: "event \<Rightarrow> bool" where
  "is_do (EvDo _) = True"
| "is_do _ = False"

text \<open>The failures worth another attempt, and all failures of an attempt.\<close>

definition transient :: "go_error \<Rightarrow> bool" where
  "transient e \<longleftrightarrow> (\<exists>e'. e = Wrap ''pipeline.ai.http'' e') \<or>
     (\<exists>c. isRetryableStatus c \<and>
        e = Errorf (''pipeline.ai.status: unexpected '' @ itoa c @ '' from AI Processor''))"

definition permanent :: "go_error \<Rightarrow> bool" where
  "permanent e \<longleftrightarrow> e = ErrPipelineCancelled \<or> e = ErrAITimeout \<or>
     (\<exists>e'. e = Wrap ''pipeline.ai.new_request'' e' \<or> e = Wrap ''pipeline.ai.decode'' e') \<or>
     (\<exists>c. c \<noteq> 200 \<and> \<not> isRetryableStatus c \<and>
        e = Errorf (''pipeline.ai.status: unexpected '' @ itoa c @ '' from AI Processor''))"

definition attempt_ok :: "attempt \<Rightarrow> bool" where
  "attempt_ok r = (case r of Inr _ \<Rightarrow> True | Inl (True, e) \<Rightarrow> transient e | Inl (False, e) \<Rightarrow> permanent e)"

lemma read_reply_ok: "attempt_ok (read_reply resp)"
  by (auto simp: read_reply_def attempt_ok_def transient_def permanent_def split: option.splits bool.splits)

lemma doOnce_outcome:
  assumes "outcomes (doOnce env a ctx url body apiKey :: ('r, 'n, attempt) go) r es"
  shows "attempt_ok r \<and> (filter is_do es = [EvDo (call_post url body apiKey)] \<or>
    (filter is_do es = [] \<and> he_Parse env url = None))"
proof -
  let ?req = "call_post url body apiKey"
  let ?do = "\<lambda>c. Do env defaultCheckRedirect c ?req :: ('r, 'n, go_error + http_response) go"
  let ?classify = "\<lambda>c err. pbind (is_done ctx) (\<lambda>cancelled.
        if cancelled then Done (Inl (False, ErrPipelineCancelled))
        else pbind (get_Err c) (\<lambda>e.
             if e = Some DeadlineExceeded then Done (Inl (False, ErrAITimeout))
             else Done (Inl (True, Wrap ''pipeline.ai.http'' err)))) :: ('r, 'n, attempt) go"
  let ?next = "\<lambda>c r. case r of Inl err \<Rightarrow> ?classify c err | Inr resp \<Rightarrow> Done (read_reply resp)"
  let ?tried = "\<lambda>c. case he_Parse env url of
      None \<Rightarrow> Done (Inl (False, Wrap ''pipeline.ai.new_request'' (Errorf ''parse url'')))
    | Some _ \<Rightarrow> pbind (?do c) (?next c)"
  have classify: "attempt_ok q \<and> es' = []" if "outcomes (?classify c err) q es'" for c err q es'
    using that
    by (auto simp: is_done_def get_Err_def outcomes_bind attempt_ok_def transient_def permanent_def
        split: if_splits)
  have "outcomes (pbind (WithTimeout ctx (aa_timeoutSecs a * Second)) (\<lambda>c.
      pbind (?tried c) (\<lambda>r. pbind (cancel c) (\<lambda>_. Done r)))) r es"
    using assms
    by (cases "he_Parse env url") (simp_all add: doOnce_def NewRequest_def call_post_def)
  then obtain i where "outcomes (pbind (?tried (i # ctx)) (\<lambda>r. pbind (cancel (i # ctx)) (\<lambda>_. Done r))) r es"
    by (rule outcomes_WithTimeoutE)
  then obtain es1 where tried: "outcomes (?tried (i # ctx)) r es1" and es: "es = es1 @ [EvCancel i]"
    by (rule outcomes_defer_cancelE)
  show ?thesis
  proof (cases "he_Parse env url")
    case None
    with tried es show ?thesis by (simp add: attempt_ok_def permanent_def)
  next
    case (Some x)
    with tried have "outcomes (pbind (?do (i # ctx)) (?next (i # ctx))) r es1" by simp
    then obtain q es2 es3 where do_out: "outcomes (?do (i # ctx)) q es2"
      and rest: "outcomes (?next (i # ctx) q) r es3" and es1: "es1 = es2 @ es3"
      by (rule outcomes_bindE)
    have "filter is_do es2 = [EvDo ?req]" using Do_events [OF do_out] by (auto simp: filter_empty_conv)
    moreover have "attempt_ok r \<and> es3 = []"
    proof (cases q)
      case (Inl err)
      with rest show ?thesis using classify by simp
    next
      case (Inr resp)
      with rest show ?thesis by (simp add: read_reply_ok)
    qed
    ultimately show ?thesis using es es1 by simp
  qed
qed

text \<open>The loop: how often it posts, what, and what it may report.\<close>

definition call_result_ok :: "go_error + NormalizedResponse option \<Rightarrow> bool" where
  "call_result_ok r = (case r of Inr _ \<Rightarrow> True | Inl e \<Rightarrow> transient e \<or> permanent e)"

lemma retry_wait_outcome:
  assumes "outcomes (if 0 < n then pbind (backoffDelay a n) (Sleep ctx) else Done True ::
      ('r, 'n, bool) go) ok es"
  shows "filter is_do es = []"
  using assms
  by (auto simp: Sleep_def outcomes_bind split: if_splits dest: outcomes_backoff)

lemma retry_loop_outcome:
  assumes "outcomes (retry_loop env a ctx url body apiKey left n lastErr ::
      ('r, 'n, go_error + NormalizedResponse option) go) r es"
    and "\<forall>e. lastErr = Some e \<longrightarrow> transient e"
  shows "(\<exists>k \<le> left. filter is_do es = replicate k (EvDo (call_post url body apiKey))) \<and>
    call_result_ok r \<and> (r = Inr None \<longrightarrow> left = 0 \<and> lastErr = None)"
  using assms
proof (induction left arbitrary: n lastErr es)
  case 0
  then show ?case by (auto simp: call_result_ok_def split: option.splits)
next
  case (Suc left)
  let ?wait = "if 0 < n then pbind (backoffDelay a n) (Sleep ctx) else Done True :: ('r, 'n, bool) go"
  let ?once = "doOnce env a ctx url body apiKey :: ('r, 'n, attempt) go"
  let ?again = "\<lambda>err. retry_loop env a ctx url body apiKey left (Suc n) (Some err) ::
      ('r, 'n, go_error + NormalizedResponse option) go"
  let ?after = "\<lambda>r. case r of
      Inr resp \<Rightarrow> Done (Inr (Some resp))
    | Inl (retryable, err) \<Rightarrow> if \<not> retryable then Done (Inl err) else ?again err"
  have "outcomes (pbind ?wait (\<lambda>elapsed. if \<not> elapsed then Done (Inl ErrPipelineCancelled)
      else pbind ?once ?after)) r es"
    using Suc.prems(1) by simp
  then obtain ok es1 es2 where wait: "outcomes ?wait ok es1" and
    rest: "outcomes (if \<not> ok then Done (Inl ErrPipelineCancelled) else pbind ?once ?after) r es2"
    and es: "es = es1 @ es2" by (rule outcomes_bindE)
  note quiet = retry_wait_outcome [OF wait]
  show ?case
  proof (cases ok)
    case False
    with rest es quiet show ?thesis
      by (auto simp: call_result_ok_def permanent_def intro: exI [of _ 0])
  next
    case True
    with rest have "outcomes (pbind ?once ?after) r es2" by simp
    then obtain q es3 es4 where once: "outcomes ?once q es3" and after: "outcomes (?after q) r es4"
      and es2: "es2 = es3 @ es4" by (rule outcomes_bindE)
    from doOnce_outcome [OF once] obtain j where q: "attempt_ok q"
      and posts: "filter is_do es3 = replicate j (EvDo (call_post url body apiKey))" "j \<le> 1"
      by (metis le_numeral_extra(4) replicate_0 replicate_Suc One_nat_def zero_le)
    show ?thesis
    proof (cases "\<exists>err. q = Inl (True, err)")
      case True
      then obtain err where err: "q = Inl (True, err)" by blast
      with after have "outcomes (?again err) r es4" by simp
      moreover have "transient err" using q err by (simp add: attempt_ok_def)
      ultimately obtain k where "k \<le> left" "filter is_do es4 = replicate k (EvDo (call_post url body apiKey))"
        "call_result_ok r" "r \<noteq> Inr None"
        using Suc.IH [of "Suc n" "Some err" es4] by auto
      with posts quiet es es2 show ?thesis
        by (auto simp: replicate_add [symmetric] intro!: exI [of _ "j + k"])
    next
      case False
      with after q have "es4 = [] \<and> call_result_ok r \<and> r \<noteq> Inr None"
        by (auto simp: call_result_ok_def attempt_ok_def split: sum.splits prod.splits bool.splits)
      with posts quiet es es2 show ?thesis
        by (auto intro!: exI [of _ j])
    qed
  qed
qed

text \<open>The loop of a call, with its overall ceiling.\<close>

definition call_loop ::
  "'n http_env \<Rightarrow> aiAdapter \<Rightarrow> ctx \<Rightarrow> A2ARequest \<Rightarrow> string \<Rightarrow>
     ('r, 'n, go_error + NormalizedResponse option) go" where
  "call_loop env a ctx req body =
     (let loop = (\<lambda>overallCtx. retry_loop env a overallCtx (rq_OutgoingURL req) body (rq_ApiKey req)
                     (nat (sint (aa_maxRetries a + 1))) 0 None)
      in if 0 <s aa_timeoutSecs a * Second
         then pbind (WithTimeout ctx (ceiling_of a)) (\<lambda>overallCtx.
              pbind (loop overallCtx) (\<lambda>r. pbind (cancel overallCtx) (\<lambda>_. Done r)))
         else loop ctx)"

lemma Call_split:
  "Call env a ctx req = pbind (buildFileParts env a ctx req)
     (\<lambda>fileParts. call_loop env a ctx req (json_text (request_json (rpc_request req fileParts))))"
  by (simp add: Call_def call_loop_def Let_def)

lemma attempts_eq:
  "0 \<le> sint m \<Longrightarrow> sint m < 2 ^ 63 - 1 \<Longrightarrow> sint (m + 1 :: int64) = sint m + 1"
  using sint64_of_int [of "sint m + 1"] by (simp add: of_int_add)

lemma call_loop_outcome:
  assumes "outcomes (call_loop env a ctx req body ::
      ('r, 'n, go_error + NormalizedResponse option) go) r es"
    and "0 \<le> sint (aa_maxRetries a)" "sint (aa_maxRetries a) < 2 ^ 63 - 1"
  shows "(\<exists>k. int k \<le> sint (aa_maxRetries a) + 1 \<and> filter is_do es
      = replicate k (EvDo (call_post (rq_OutgoingURL req) body (rq_ApiKey req)))) \<and>
    call_result_ok r \<and> r \<noteq> Inr None"
proof -
  let ?n = "nat (sint (aa_maxRetries a + 1))"
  let ?loop = "\<lambda>c. retry_loop env a c (rq_OutgoingURL req) body (rq_ApiKey req) ?n 0 None ::
    ('r, 'n, go_error + NormalizedResponse option) go"
  have n: "int ?n = sint (aa_maxRetries a) + 1" "?n \<noteq> 0"
    using attempts_eq [OF assms(2,3)] assms(2) by auto
  have "\<exists>c es1 es2. outcomes (?loop c) r es1 \<and> es = es1 @ es2 \<and> filter is_do es2 = []"
  proof (cases "0 <s aa_timeoutSecs a * Second")
    case True
    with assms(1) have "outcomes (pbind (WithTimeout ctx (ceiling_of a)) (\<lambda>overallCtx.
        pbind (?loop overallCtx) (\<lambda>r. pbind (cancel overallCtx) (\<lambda>_. Done r)))) r es"
      by (simp add: call_loop_def Let_def)
    then obtain i where "outcomes (pbind (?loop (i # ctx)) (\<lambda>r. pbind (cancel (i # ctx)) (\<lambda>_. Done r))) r es"
      by (rule outcomes_WithTimeoutE)
    then obtain es1 where "outcomes (?loop (i # ctx)) r es1" "es = es1 @ [EvCancel i]"
      by (rule outcomes_defer_cancelE)
    then show ?thesis by (intro exI conjI) auto
  next
    case False
    with assms(1) have "outcomes (?loop ctx) r es" by (simp add: call_loop_def Let_def)
    then show ?thesis by (intro exI [of _ ctx] exI [of _ es] exI [of _ "[]"]) simp
  qed
  then obtain c es1 es2 where loop: "outcomes (?loop c) r es1" and es: "es = es1 @ es2" "filter is_do es2 = []"
    by blast
  from retry_loop_outcome [OF loop] n(2) obtain k where
    "k \<le> ?n" "filter is_do es1 = replicate k (EvDo (call_post (rq_OutgoingURL req) body (rq_ApiKey req)))"
    "call_result_ok r" "r \<noteq> Inr None" by auto
  moreover have "int k \<le> sint (aa_maxRetries a) + 1" using calculation(1) n(1) by linarith
  ultimately show ?thesis using es by (intro conjI exI [of _ k]) simp_all
qed

section \<open>A network that recovers\<close>

text \<open>The first \<open>k\<close> posts are answered 503, the next one 200 with a reply.\<close>

definition recovers :: "nat http_env \<Rightarrow> nat \<Rightarrow> string \<Rightarrow> bool" where
  "recovers env k reply \<longleftrightarrow> (\<forall>req n. he_RoundTrip env False req n =
     (if n < k then (Inr \<lparr> hs_Status = 503, hs_Headers = [], hs_Body = [], hs_ReadErr = False \<rparr>, Suc n)
      else (Inr \<lparr> hs_Status = 200, hs_Headers = [], hs_Body = reply, hs_ReadErr = False \<rparr>, Suc n)))"

lemma run_backoff_live:
  assumes "live w c"
  shows "\<exists>d es w'. run (backoffDelay a n) w = (d, es, w') \<and> live w' c \<and> w_net w' = w_net w"
  using assms by (auto simp: backoffDelay_def Let_def Int63n_def run_bind run_atomic live_def
      ctx_done_iff split: list.splits)

abbreviation reply_resp :: "string \<Rightarrow> http_response" where
  "reply_resp reply \<equiv> \<lparr> hs_Status = 200, hs_Headers = [], hs_Body = reply, hs_ReadErr = False \<rparr>"

abbreviation busy_resp :: http_response where
  "busy_resp \<equiv> \<lparr> hs_Status = 503, hs_Headers = [], hs_Body = [], hs_ReadErr = False \<rparr>"

lemma run_doOnce_live:
  assumes "recovers env k reply" "he_Parse env url \<noteq> None" "live w c"
    and "0 < sint (aa_timeoutSecs a * Second)"
  shows "\<exists>es w'. run (doOnce env a c url body apiKey) w =
      (read_reply (if w_net w < k then busy_resp else reply_resp reply), es, w') \<and>
    live w' c \<and> w_net w' = Suc (w_net w)"
proof -
  let ?c = "w_next_ctx w # c" and ?resp = "if w_net w < k then busy_resp else reply_resp reply"
  let ?w1 = "w \<lparr> w_next_ctx := Suc (w_next_ctx w) \<rparr>" and ?n = "Suc (w_net w)"
  obtain x where x: "he_Parse env url = Some x" using assms(2) by blast
  have timeout: "run (WithTimeout c (aa_timeoutSecs a * Second)) w = (?c, [], ?w1)"
    using assms(4) by (simp add: WithTimeout_def run_atomic Let_def)
  have nd: "\<not> ctx_done ?w1 ?c" using live_child [OF assms(3)] by (simp add: live_def)
  have rt: "he_RoundTrip env False req (w_net w) = (Inr ?resp, ?n)" for req
    using assms(1) by (simp add: recovers_def)
  have nr: "\<not> is_redirect ?resp" by (simp add: is_redirect_def)
  have do_run: "run (Do env defaultCheckRedirect ?c (call_post url body apiKey)) ?w1
      = (Inr ?resp, [EvDo (call_post url body apiKey), EvHttp (call_post url body apiKey)], ?w1 \<lparr> w_net := ?n \<rparr>)"
    using nd rt nr by (simp add: Do_def eval_nat_numeral run_bind run_emit round_trip_def run_atomic)
  have lv: "live (w \<lparr> w_net := ?n \<rparr>) c" using assms(3) by (simp add: live_def ctx_done_iff)
  have swap: "w \<lparr> w_net := ?n, w_next_ctx := Suc (w_next_ctx w) \<rparr> = ?w1 \<lparr> w_net := ?n \<rparr>" by (cases w) simp
  have "live (finish_ctx Canceled ?c (?w1 \<lparr> w_net := ?n \<rparr>)) c"
    using live_finish_child [OF lv, of Canceled] unfolding world.select_convs swap [symmetric] by simp
  moreover have "w_net (finish_ctx Canceled ?c (?w1 \<lparr> w_net := ?n \<rparr>)) = ?n"
    by (simp add: finish_ctx_def)
  moreover have "run (doOnce env a c url body apiKey) w = (read_reply ?resp,
      [EvDo (call_post url body apiKey), EvHttp (call_post url body apiKey), EvCancel (w_next_ctx w)],
      finish_ctx Canceled ?c (?w1 \<lparr> w_net := ?n \<rparr>))"
    using x timeout do_run
    by (simp add: doOnce_def NewRequest_def call_post_def run_bind cancel_def run_Step)
  ultimately show ?thesis by blast
qed

lemma read_reply_busy: "read_reply busy_resp =
    Inl (True, Errorf (''pipeline.ai.status: unexpected '' @ itoa 503 @ '' from AI Processor''))"
  by (simp add: read_reply_def isRetryableStatus_def)

lemma run_retry_recovers:
  assumes "recovers env k reply" "he_Parse env url \<noteq> None" "0 < sint (aa_timeoutSecs a * Second)"
    and "read_reply (reply_resp reply) = Inr resp"
    and "live w c" "k < w_net w + left" "w_net w \<le> k"
  shows "\<exists>es w'. run (retry_loop env a c url body apiKey left n lastErr) w = (Inr (Some resp), es, w') \<and>
    k < w_net w'"
  using assms(5-)
proof (induction left arbitrary: w n lastErr)
  case (Suc left)
  obtain ok es1 w1 where wait: "run (if 0 < n then pbind (backoffDelay a n) (Sleep c) else Done True) w
      = (ok, es1, w1)" and w1: "ok" "live w1 c" "w_net w1 = w_net w"
  proof (cases "0 < n")
    case True
    obtain d es w1 where *: "run (backoffDelay a n) w = (d, es, w1)" "live w1 c" "w_net w1 = w_net w"
      using run_backoff_live [OF Suc.prems(1)] by blast
    then have "run (pbind (backoffDelay a n) (Sleep c)) w = (True, es @ [EvSleep d], w1)"
      by (simp add: Sleep_def run_bind run_emit run_get live_def)
    with * True that show ?thesis by simp
  next
    case False
    with Suc.prems that show ?thesis by simp
  qed
  obtain es2 w2 where once: "run (doOnce env a c url body apiKey) w1 =
      (read_reply (if w_net w1 < k then busy_resp else reply_resp reply), es2, w2)"
    and w2: "live w2 c" "w_net w2 = Suc (w_net w1)"
    using run_doOnce_live [OF assms(1,2) w1(2) assms(3)] by blast
  show ?case
  proof (cases "w_net w < k")
    case True
    with Suc.prems w1 w2 have "k < w_net w2 + left" "w_net w2 \<le> k" by auto
    from Suc.IH [OF w2(1) this] obtain es3 w3 where
      "run (retry_loop env a c url body apiKey left (Suc n)
        (Some (Errorf (''pipeline.ai.status: unexpected '' @ itoa 503 @ '' from AI Processor'')))) w2
        = (Inr (Some resp), es3, w3)" "k < w_net w3" by blast
    with wait w1 once True show ?thesis by (simp add: run_bind read_reply_busy)
  next
    case False
    with wait w1 w2 once assms(4) Suc.prems show ?thesis by (simp add: run_bind)
  qed
qed simp

section \<open>A cancelled call\<close>

lemma keeps_done_doOnce [keeps_done]:
  "preserves (done_in c) (doOnce env a q url body apiKey :: ('r, 'n, attempt) go)"
  by (auto simp: doOnce_def intro!: keeps_done split: sum.splits)

lemma keeps_done_retry_loop [keeps_done]:
  "preserves (done_in c) (retry_loop env a q url body apiKey left n lastErr ::
     ('r, 'n, go_error + NormalizedResponse option) go)"
proof (induction left arbitrary: n lastErr)
  case (Suc left)
  show ?case
    by (auto simp: backoffDelay_def Let_def Suc.IH intro!: keeps_done split: sum.splits)
qed simp

lemma keeps_done_call_loop [keeps_done]:
  "preserves (done_in c) (call_loop env a q req body :: ('r, 'n, go_error + NormalizedResponse option) go)"
  by (auto simp: call_loop_def Let_def intro!: keeps_done)

lemma keeps_done_Call [keeps_done]:
  "preserves (done_in c) (Call env a q req :: ('r, 'n, go_error + NormalizedResponse option) go)"
  by (auto simp: Call_split intro!: keeps_done)

lemma outs_doOnce_done:
  assumes "respects_ctx env" "he_Parse env url \<noteq> None" "q \<noteq> []" "set q \<subseteq> set c"
    and "outs (done_in q) (doOnce env a c url body apiKey :: ('r, 'n, attempt) go) r es"
  shows "r = Inl (False, ErrPipelineCancelled)"
proof -
  obtain x where x: "he_Parse env url = Some x" using assms(2) by blast
  let ?do = "\<lambda>c. Do env defaultCheckRedirect c (call_post url body apiKey) ::
    ('r, 'n, go_error + http_response) go"
  let ?classify = "\<lambda>t err. pbind (is_done c) (\<lambda>cancelled.
        if cancelled then Done (Inl (False, ErrPipelineCancelled))
        else pbind (get_Err t) (\<lambda>e.
             if e = Some DeadlineExceeded then Done (Inl (False, ErrAITimeout))
             else Done (Inl (True, Wrap ''pipeline.ai.http'' err)))) :: ('r, 'n, attempt) go"
  let ?next = "\<lambda>t r. case r of Inl err \<Rightarrow> ?classify t err | Inr resp \<Rightarrow> Done (read_reply resp)"
  have "outs (done_in q) (pbind (WithTimeout c (aa_timeoutSecs a * Second)) (\<lambda>t.
      pbind (pbind (?do t) (?next t)) (\<lambda>r. pbind (cancel t) (\<lambda>_. Done r)))) r es"
    using assms(5) x by (simp add: doOnce_def NewRequest_def call_post_def)
  then obtain i where
    out: "outs (done_in q) (pbind (pbind (?do (i # c)) (?next (i # c)))
      (\<lambda>r. pbind (cancel (i # c)) (\<lambda>_. Done r))) r es"
    by (rule outs_WithTimeoutE)
  define t where t: "t = i # c"
  from out t obtain es3 where "outs (done_in q) (pbind (?do t) (?next t)) r es3"
    by (auto simp: outs_bind)
  then obtain b es4 es5 where do_out: "outs (done_in q) (?do t) b es4"
    and rest: "outs (done_in q) (?next t b) r es5" by (rule outs_bindE)
  have "set q \<subseteq> set t" using assms(4) t by auto
  from outs_Do_done [OF assms(1) this do_out] obtain err where "b = Inl err" by (auto simp: isl_iff)
  with rest have "outs (done_in q) (?classify t err) r es5" by simp
  then obtain d es6 es7 where d: "outs (done_in q) (is_done c :: ('r, 'n, bool) go) d es6"
    and last: "outs (done_in q) (if d then Done (Inl (False, ErrPipelineCancelled))
        else pbind (get_Err t) (\<lambda>e.
             if e = Some DeadlineExceeded then Done (Inl (False, ErrAITimeout))
             else Done (Inl (True, Wrap ''pipeline.ai.http'' err))) :: ('r, 'n, attempt) go) r es7"
    by (rule outs_bindE)
  have "c \<noteq> []" using assms(3,4) by auto
  then have d using outs_is_done [OF _ d assms(4)] by blast
  with last show ?thesis by simp
qed

lemma outs_call_loop_done:
  assumes "respects_ctx env" "he_Parse env (rq_OutgoingURL req) \<noteq> None" "ctx \<noteq> []"
    and "0 \<le> sint (aa_maxRetries a)" "sint (aa_maxRetries a) < 2 ^ 63 - 1"
    and "outs (done_in ctx) (call_loop env a ctx req body ::
      ('r, 'n, go_error + NormalizedResponse option) go) r es"
  shows "r = Inl ErrPipelineCancelled"
proof -
  let ?url = "rq_OutgoingURL req" and ?key = "rq_ApiKey req"
  let ?n = "nat (sint (aa_maxRetries a + 1))"
  let ?loop = "\<lambda>c. retry_loop env a c ?url body ?key ?n 0 None ::
    ('r, 'n, go_error + NormalizedResponse option) go"
  obtain m where m: "?n = Suc m"
    using attempts_eq [OF assms(4,5)] assms(4) by (metis Suc_nat_eq_nat_zadd1 add.commute)
  have loop: "r' = Inl ErrPipelineCancelled"
    if c: "set ctx \<subseteq> set c" and out: "outs (done_in ctx) (?loop c) r' es'" for c r' es'
  proof -
    from out m obtain q es1 es2 where
      once: "outs (done_in ctx) (doOnce env a c ?url body ?key :: ('r, 'n, attempt) go) q es1"
      and rest: "outs (done_in ctx) (case q of
         Inr resp \<Rightarrow> Done (Inr (Some resp))
       | Inl (retryable, err) \<Rightarrow>
           if \<not> retryable then Done (Inl err)
           else (retry_loop env a c ?url body ?key m (Suc 0) (Some err) ::
             ('r, 'n, go_error + NormalizedResponse option) go)) r' es2"
      by (auto elim: outs_bindE)
    from outs_doOnce_done [OF assms(1,2,3) c once] rest show ?thesis by simp
  qed
  show ?thesis
  proof (cases "0 <s aa_timeoutSecs a * Second")
    case True
    with assms(6) have "outs (done_in ctx) (pbind (WithTimeout ctx (ceiling_of a)) (\<lambda>overallCtx.
        pbind (?loop overallCtx) (\<lambda>r. pbind (cancel overallCtx) (\<lambda>_. Done r)))) r es"
      by (simp add: call_loop_def Let_def)
    then obtain i where
      "outs (done_in ctx) (pbind (?loop (i # ctx)) (\<lambda>r. pbind (cancel (i # ctx)) (\<lambda>_. Done r))) r es"
      by (rule outs_WithTimeoutE)
    then obtain es3 where "outs (done_in ctx) (?loop (i # ctx)) r es3" by (auto simp: outs_bind)
    then show ?thesis by (intro loop) auto
  next
    case False
    with assms(6) have "outs (done_in ctx) (?loop ctx) r es" by (simp add: call_loop_def Let_def)
    with loop show ?thesis by blast
  qed
qed

end
