(* ===== verification/Ai_Calls.thy ===== *)
theory Ai_Calls
  imports Ai_Adapter Redis_Repository
begin

text \<open>
  What a whole call of the AI processor guarantees: how often it posts and what, when it
  recovers, what a cancellation and a broken reply come out as, and the backoff in between.
\<close>

section \<open>Lemmas about whole calls\<close>

lemma ceiling_value:
  assumes "0 \<le> sint (aa_maxRetries a)" "sint (aa_maxRetries a) \<le> 1000"
    and "0 < sint (aa_timeoutSecs a)" "sint (aa_timeoutSecs a) \<le> 86400"
  shows "sint (aa_timeoutSecs a * Second) = sint (aa_timeoutSecs a) * 10 ^ 9"
    and "sint (ceiling_of a) = (sint (aa_maxRetries a) + 2) * (sint (aa_timeoutSecs a) * 10 ^ 9)
      + sint (aa_maxRetries a) * (5 * 10 ^ 9)"
proof -
  define r t where "r = sint (aa_maxRetries a)" and "t = sint (aa_timeoutSecs a)"
  have b: "0 \<le> r" "r \<le> 1000" "0 < t" "t \<le> 86400" using assms by (simp_all add: r_def t_def)
  have t: "sint (aa_timeoutSecs a * Second) = t * 10 ^ 9"
    using b sint64_mult [of "aa_timeoutSecs a" Second] by (simp add: t_def)
  then show "sint (aa_timeoutSecs a * Second) = sint (aa_timeoutSecs a) * 10 ^ 9"
    by (simp add: t_def)
  have "sint (aa_maxRetries a + 1) = r + 1" using b sint64_add [of "aa_maxRetries a" 1] by (simp add: r_def)
  then have r2: "sint (aa_maxRetries a + 1 + 1) = r + 2"
    using b sint64_add [of "aa_maxRetries a + 1" 1] by simp
  have m: "(r + 2) * (t * 10 ^ 9) \<le> 1002 * (86400 * 10 ^ 9)" "0 \<le> (r + 2) * (t * 10 ^ 9)"
    using b by (intro mult_mono mult_nonneg_nonneg; simp)+
  then have p: "sint ((aa_maxRetries a + 1 + 1) * (aa_timeoutSecs a * Second)) = (r + 2) * (t * 10 ^ 9)"
    using sint64_mult [of "aa_maxRetries a + 1 + 1" "aa_timeoutSecs a * Second"] unfolding t r2 by simp
  have five: "sint (5 * Second :: int64) = 5 * 10 ^ 9" by simp
  then have q: "sint (aa_maxRetries a * (5 * Second)) = r * (5 * 10 ^ 9)"
    using b sint64_mult [of "aa_maxRetries a" "5 * Second"] by (simp add: r_def)
  have fits: "0 \<le> x + r * (5 * 10 ^ 9) \<and> x + r * (5 * 10 ^ 9) < 2 ^ 63"
    if "x \<le> 1002 * (86400 * 10 ^ 9)" "0 \<le> x" for x using that b by simp
  have "sint (ceiling_of a) = (r + 2) * (t * 10 ^ 9) + r * (5 * 10 ^ 9)"
    unfolding ceiling_of_def p [symmetric] q [symmetric] 
    using fits [OF m] by (intro sint64_add) (simp_all only: p q, linarith+)
  then show "sint (ceiling_of a) = (sint (aa_maxRetries a) + 2) * (sint (aa_timeoutSecs a) * 10 ^ 9)
      + sint (aa_maxRetries a) * (5 * 10 ^ 9)" by (simp add: r_def t_def)
qed

lemma call_ceiling_pos:
  assumes "0 \<le> sint (aa_maxRetries a)" "sint (aa_maxRetries a) \<le> 1000"
    and "0 < sint (aa_timeoutSecs a)" "sint (aa_timeoutSecs a) \<le> 86400"
  shows "0 < sint (aa_timeoutSecs a * Second) \<and> 0 < sint (ceiling_of a)"
  unfolding ceiling_value [OF assms] using assms by (auto intro!: add_pos_nonneg)

lemma run_Call_recovers:
  assumes "recovers env k reply" "he_Parse env (rq_OutgoingURL req) \<noteq> None"
    and "read_reply (reply_resp reply) = Inr resp" "live w c" "w_net w \<le> k"
    and "int k \<le> int (w_net w) + sint (aa_maxRetries a)" "sint (aa_maxRetries a) \<le> 1000"
    and "0 < sint (aa_timeoutSecs a)" "sint (aa_timeoutSecs a) \<le> 86400"
    and "rq_Attachments req = []"
  shows "\<exists>es w'. run (Call env a c req) w = (Inr (Some resp), es, w') \<and> k < w_net w'"
proof -
  let ?body = "json_text (request_json (rpc_request req []))"
  let ?left = "nat (sint (aa_maxRetries a + 1))"
  let ?c = "w_next_ctx w # c" and ?w1 = "w \<lparr> w_next_ctx := Suc (w_next_ctx w) \<rparr>"
  have r: "0 \<le> sint (aa_maxRetries a)" using assms(5,6) by simp
  note pos = call_ceiling_pos [OF r assms(7-9)]
  have left: "int ?left = sint (aa_maxRetries a) + 1" using attempts_eq [OF r] assms(7) r by simp
  have timeout: "run (WithTimeout c (ceiling_of a)) w = (?c, [], ?w1)"
    using pos by (simp add: WithTimeout_def run_atomic Let_def)
  have "k < w_net w + ?left" using assms(6) left by linarith
  then have "k < w_net ?w1 + ?left" "w_net ?w1 \<le> k" using assms(5) by simp_all
  from run_retry_recovers [OF assms(1,2) conjunct1 [OF pos] assms(3) live_child [OF assms(4)] this]
  obtain es w2 where loop: "run (retry_loop env a ?c (rq_OutgoingURL req) ?body (rq_ApiKey req) ?left 0 None) ?w1
      = (Inr (Some resp), es, w2)" "k < w_net w2" by blast
  have "0 <s aa_timeoutSecs a * Second" using pos by (simp add: word_sless_alt)
  then show ?thesis
    using timeout loop
    by (simp add: Call_split buildFileParts_def assms(10) call_loop_def Let_def run_bind cancel_def run_Step)
qed

lemma exec_Call_done:
  assumes "respects_ctx env" "he_Parse env (rq_OutgoingURL req) \<noteq> None" "ctx \<noteq> []"
    and "0 \<le> sint (aa_maxRetries a)" "sint (aa_maxRetries a) < 2 ^ 63 - 1"
    and "stable (done_in ctx) I" "ctx_done w ctx"
    and "exec I (Call env a ctx req :: ('r, 'n, go_error + NormalizedResponse option) go) n w = (r, es, w', m)"
  shows "r = Inl ErrPipelineCancelled"
proof -
  have "outs (done_in ctx) (Call env a ctx req :: ('r, 'n, go_error + NormalizedResponse option) go) r es"
    using exec_outs [OF assms(6) keeps_done_Call assms(7,8)] by blast
  then obtain parts es2 where
    "outs (done_in ctx) (call_loop env a ctx req (json_text (request_json (rpc_request req parts))) ::
      ('r, 'n, go_error + NormalizedResponse option) go) r es2"
    unfolding Call_split by (rule outs_bindE)
  then show ?thesis by (rule outs_call_loop_done [OF assms(1-5)])
qed

section \<open>Properties\<close>

text \<open>The reply of a processor that answers with one message of one text part.\<close>

definition text_reply :: "string \<Rightarrow> string" where
  "text_reply t = json_text (JObj [(''jsonrpc'', JStr ''2.0''), (''result'', JObj [(''message'',
     JObj [(''parts'', JArr [JObj [(''type'', JStr ''text''), (''text'', JStr t)]])])])])"

lemma read_text_reply:
  assumes "length (text_reply t) \<le> maxResponseBytes"
  shows "read_reply (reply_resp (text_reply t)) = Inr \<lparr> nr_Content = coerce t \<rparr>"
proof -
  have "json_decode_first (text_reply t @ []) = Some (jnorm (JObj [(''jsonrpc'', JStr ''2.0''),
      (''result'', JObj [(''message'',
        JObj [(''parts'', JArr [JObj [(''type'', JStr ''text''), (''text'', JStr t)]])])])]))"
    unfolding text_reply_def by (rule json_decode_first_text) (simp add: delim_def)
  then have "decode_response (reply_resp (text_reply t)) = Some \<lparr> resp_Result = Some
      \<lparr> res_Artifacts = [], res_Message = Some \<lparr> amsg_Parts =
          [\<lparr> apart_Type = ''text'', apart_Text = coerce t \<rparr>] \<rparr> \<rparr> \<rparr>"
    using assms by (simp add: decode_response_def codec_simps coerce_ascii)
  then show ?thesis by (cases "coerce t") (simp_all add: read_reply_def extractResponseText_def)
qed

text \<open>
  A processor that is busy for its first answer, and a call on it.
\<close>

definition busy_once :: "nat http_env" where
  "busy_once = \<lparr> he_Parse = (\<lambda>u. Some \<lparr> u_Scheme = ''https'', u_Hostname = ''ai'', u_Path = ''/'' \<rparr>),
     he_Resolve = (\<lambda>base loc. Some loc),
     he_RoundTrip = (\<lambda>done req n. (if done then Inl (Errorf ''context canceled'')
        else if n < 1 then Inr busy_resp else Inr (reply_resp (text_reply ''ok'')), Suc n)),
     he_ParseMediaType = (\<lambda>s. Some s), he_TypeByExtension = (\<lambda>s. []) \<rparr>"

definition text_req :: A2ARequest where
  "text_req = \<lparr> rq_OutgoingURL = ''u'', rq_ContactID = 7, rq_ConversationID = 9, rq_ApiKey = ''k'',
     rq_Message = ''hi'', rq_Metadata = None, rq_Attachments = [] \<rparr>"

lemma busy_once_facts:
  "recovers busy_once 1 (text_reply ''ok'')" "he_Parse busy_once u \<noteq> None" "respects_ctx busy_once"
  by (simp_all add: recovers_def busy_once_def respects_ctx_def)

lemma adapter_eval:
  "sint (aa_maxRetries (NewAIAdapter 90 2 200)) = 2" "sint (aa_timeoutSecs (NewAIAdapter 90 2 200)) = 90"
  by (simp_all add: NewAIAdapter_def Let_def word_sless_alt word_sle_eq)

lemma ok_reply: "read_reply (reply_resp (text_reply ''ok'')) = Inr \<lparr> nr_Content = ''ok'' \<rparr>"
proof -
  have "length (text_reply ''ok'') \<le> maxResponseBytes"
    by (simp add: text_reply_def json_string_def runes.simps decode_rune_def escape_piece_def)
  from read_text_reply [OF this] show ?thesis by (simp add: coerce_ascii)
qed

text \<open>
  C21 (call_bounded_identical). Under every schedule and every behaviour of the network, a
  call builds the file parts once and then posts at most \<open>maxRetries + 1\<close> times, each time
  the same request: the same URL, key and body. It reports an error of a known kind or a
  response, and never neither.
\<close>

theorem call_bounded_identical:
  assumes "outcomes (Call env a ctx req :: ('r, 'n, go_error + NormalizedResponse option) go) r es"
    and "0 \<le> sint (aa_maxRetries a)" "sint (aa_maxRetries a) < 2 ^ 63 - 1"
  shows "\<exists>parts es1 es2 k.
    outcomes (buildFileParts env a ctx req :: ('r, 'n, JSONRPCPart list) go) parts es1 \<and>
    es = es1 @ es2 \<and> int k \<le> sint (aa_maxRetries a) + 1 \<and>
    filter is_do es2 = replicate k (EvDo (call_post (rq_OutgoingURL req)
      (json_text (request_json (rpc_request req parts))) (rq_ApiKey req))) \<and>
    call_result_ok r \<and> r \<noteq> Inr None"
proof -
  obtain parts es1 es2 where "outcomes (buildFileParts env a ctx req :: ('r, 'n, JSONRPCPart list) go) parts es1"
    and loop: "outcomes (call_loop env a ctx req (json_text (request_json (rpc_request req parts))) ::
      ('r, 'n, go_error + NormalizedResponse option) go) r es2" and "es = es1 @ es2"
    using assms(1) unfolding Call_split by (rule outcomes_bindE)
  with call_loop_outcome [OF loop assms(2,3)] show ?thesis by blast
qed

theorem call_bounded_identical_witness:
  "\<exists>r es k. outcomes (Call busy_once (NewAIAdapter 90 2 200) [] text_req ::
       (mem_redis, nat, go_error + NormalizedResponse option) go) r es \<and> k \<le> (3 :: int) \<and> r \<noteq> Inr None"
proof -
  obtain r es w' where run: "run (Call busy_once (NewAIAdapter 90 2 200) [] text_req)
      (boot_world empty_redis 0) = (r, es, w')" by (metis prod_cases3)
  have "0 \<le> sint (aa_maxRetries (NewAIAdapter 90 2 200))"
    "sint (aa_maxRetries (NewAIAdapter 90 2 200)) < 2 ^ 63 - 1" by (simp_all add: adapter_eval)
  from call_bounded_identical [OF run_outcomes [OF run] this] obtain k :: nat where
    "int k \<le> 3" "r \<noteq> Inr None" by (auto simp: adapter_eval)
  with run_outcomes [OF run] show ?thesis by blast
qed

text \<open>
  C22 (call_recovers). When the processor answers the first \<open>k\<close> posts with 503 and the next
  with a reply, a call with at least \<open>k\<close> retries returns that reply, as long as nobody cancels
  it. The limits keep the time ceiling within 64 bits.
\<close>

theorem call_recovers:
  assumes "recovers env k reply" "he_Parse env (rq_OutgoingURL req) \<noteq> None"
    and "read_reply (reply_resp reply) = Inr resp" "live w c" "w_net w \<le> k"
    and "int k \<le> int (w_net w) + sint (aa_maxRetries a)" "sint (aa_maxRetries a) \<le> 1000"
    and "0 < sint (aa_timeoutSecs a)" "sint (aa_timeoutSecs a) \<le> 86400"
    and "rq_Attachments req = []"
  shows "\<exists>es w'. run (Call env a c req) w = (Inr (Some resp), es, w')"
  using run_Call_recovers [OF assms] by blast

theorem call_recovers_witness:
  "\<exists>es w'. run (Call busy_once (NewAIAdapter 90 2 200) [] text_req)
    (boot_world empty_redis 0) = (Inr (Some \<lparr> nr_Content = ''ok'' \<rparr>), es, w')"
  by (rule call_recovers [OF busy_once_facts(1,2) ok_reply live_boot])
    (simp_all add: adapter_eval text_req_def boot_world_def)

text \<open>
  A call whose context is done reports \<open>ErrPipelineCancelled\<close>, whatever
  else happens, when the transport refuses requests on a finished context.
\<close>

theorem call_cancelled:
  assumes "respects_ctx env" "he_Parse env (rq_OutgoingURL req) \<noteq> None" "ctx \<noteq> []"
    and "0 \<le> sint (aa_maxRetries a)" "sint (aa_maxRetries a) < 2 ^ 63 - 1"
    and "stable (done_in ctx) I" "ctx_done w ctx"
    and "exec I (Call env a ctx req :: ('r, 'n, go_error + NormalizedResponse option) go) n w = (r, es, w', m)"
  shows "r = Inl ErrPipelineCancelled"
  using assms by (rule exec_Call_done)

theorem call_cancelled_witness:
  "\<exists>es w' m. exec calm (Call busy_once (NewAIAdapter 90 2 200) [1] text_req) 0
       (finish_ctx Canceled [1] (boot_world empty_redis 0)) = (Inl ErrPipelineCancelled, es, w', m)"
proof -
  let ?w = "finish_ctx Canceled [1] (boot_world empty_redis 0)"
  obtain r es w' m where ex: "exec calm (Call busy_once (NewAIAdapter 90 2 200) [1] text_req) 0 ?w
      = (r, es, w', m)" by (metis prod_cases4)
  have w: "ctx_done ?w [1]" by (simp add: finish_ctx_done)
  have "r = Inl ErrPipelineCancelled"
    by (rule call_cancelled [OF busy_once_facts(3,2) _ _ _ stable_calm w ex]) (simp_all add: adapter_eval)
  with ex show ?thesis by blast
qed

lemma doOnce_reply:
  assumes "outcomes (doOnce env a ctx url body apiKey :: ('r, 'n, attempt) go) r es"
    and "he_Parse env url \<noteq> None"
  obtains c q es2 where "outcomes (Do env defaultCheckRedirect c (call_post url body apiKey) ::
      ('r, 'n, go_error + http_response) go) q es2" "\<forall>resp. q = Inr resp \<longrightarrow> r = read_reply resp"
proof -
  let ?do = "\<lambda>c. Do env defaultCheckRedirect c (call_post url body apiKey) ::
    ('r, 'n, go_error + http_response) go"
  let ?next = "\<lambda>c r. case r of
      Inl err \<Rightarrow> pbind (is_done ctx) (\<lambda>cancelled.
        if cancelled then Done (Inl (False, ErrPipelineCancelled))
        else pbind (get_Err c) (\<lambda>e.
             if e = Some DeadlineExceeded then Done (Inl (False, ErrAITimeout))
             else Done (Inl (True, Wrap ''pipeline.ai.http'' err))))
    | Inr resp \<Rightarrow> (Done (read_reply resp) :: ('r, 'n, attempt) go)"
  have "outcomes (pbind (WithTimeout ctx (aa_timeoutSecs a * Second)) (\<lambda>c.
      pbind (pbind (?do c) (?next c)) (\<lambda>r. pbind (cancel c) (\<lambda>_. Done r)))) r es"
    using assms by (auto simp: doOnce_def NewRequest_def call_post_def)
  then obtain i where "outcomes (pbind (pbind (?do (i # ctx)) (?next (i # ctx)))
      (\<lambda>r. pbind (cancel (i # ctx)) (\<lambda>_. Done r))) r es"
    by (rule outcomes_WithTimeoutE)
  then obtain es1 where "outcomes (pbind (?do (i # ctx)) (?next (i # ctx))) r es1"
    by (rule outcomes_defer_cancelE)
  then obtain q es2 es3 where do_out: "outcomes (?do (i # ctx)) q es2"
    and rest: "outcomes (?next (i # ctx) q) r es3" by (rule outcomes_bindE)
  from rest have "\<forall>resp. q = Inr resp \<longrightarrow> r = read_reply resp" by auto
  with do_out show ?thesis by (rule that)
qed

lemma decode_truncated: "json_decode_first (take maxResponseBytes []) = None"
  by (simp add: json_decode_first_def Let_def skip_ws_def parse_number_def parse_int_part_def has_prefix_def)


definition cut_env :: "unit http_env" where
  "cut_env = \<lparr> he_Parse = (\<lambda>u. Some \<lparr> u_Scheme = ''https'', u_Hostname = ''ai'', u_Path = ''/'' \<rparr>),
     he_Resolve = (\<lambda>base loc. Some loc),
     he_RoundTrip = (\<lambda>d req n. (Inr \<lparr> hs_Status = 200, hs_Headers = [], hs_Body = [], hs_ReadErr = True \<rparr>, n)),
     he_ParseMediaType = (\<lambda>s. Some s), he_TypeByExtension = (\<lambda>s. []) \<rparr>"

definition cancel_midway :: "('r, 'n) world interference" where
  "cancel_midway n w = (if n = 1 then finish_ctx Canceled [1] w else w)"


text \<open>The delay, as a number.\<close>

lemma shifted_base:
  fixes ms :: int64
  assumes "0 < sint ms" "sint ms \<le> 5000"
  shows "sint (push_bit k (ms * Millisecond)) =
    signed_take_bit 63 (sint ms * 10 ^ 6 * 2 ^ k)"
proof -
  have "push_bit k (ms * Millisecond) = word_of_int (sint ms * 10 ^ 6 * 2 ^ k)"
    by (simp add: push_bit_eq_mult of_int_mult of_int_power)
  then show ?thesis by (simp only: signed_of_int) simp
qed

lemma big_shift:
  fixes x :: int
  assumes "2 ^ 36 dvd x"
  shows "signed_take_bit 63 x \<le> 0 \<or> 5 * 10 ^ 9 < signed_take_bit 63 x"
proof -
  have "(2 :: int) ^ 36 dvd 2 ^ 64" by (rule le_imp_power_dvd) simp
  moreover obtain q where "signed_take_bit 63 x = x - q * 2 ^ 64"
  proof -
    have "take_bit 64 (signed_take_bit 63 x) = take_bit 64 x" by (simp add: take_bit_signed_take_bit)
    then have "signed_take_bit 63 x mod 2 ^ 64 = x mod 2 ^ 64" by (simp only: take_bit_eq_mod)
    then have "2 ^ 64 dvd x - signed_take_bit 63 x" by (metis mod_eq_dvd_iff)
    then obtain q where "x - signed_take_bit 63 x = 2 ^ 64 * q" ..
    then show ?thesis by (intro that [of q]) simp
  qed
  ultimately have "2 ^ 36 dvd signed_take_bit 63 x" using assms by simp
  then show ?thesis by (auto dest!: zdvd_imp_le)
qed

lemma backoff_value:
  assumes "0 < sint ms" "sint ms \<le> 5000" "1 \<le> n"
  shows "sint (cappedBackoff (NewAIAdapter t r ms) n) = min (5 * 10 ^ 9) (sint ms * 10 ^ 6 * 2 ^ (n - 1))"
proof -
  let ?x = "sint ms * 10 ^ 6 * 2 ^ (n - 1)" and ?d = "push_bit (n - 1) (ms * Millisecond)"
  have base: "aa_retryBaseDelay (NewAIAdapter t r ms) = ms * Millisecond"
    using assms(1) by (simp add: NewAIAdapter_def Let_def word_sle_eq)
  have d: "sint ?d = signed_take_bit 63 ?x" using assms(1,2) by (rule shifted_base)
  have cap: "sint (cappedBackoff (NewAIAdapter t r ms) n) =
      (if sint ?d \<le> 0 \<or> 5 * 10 ^ 9 < sint ?d then 5 * 10 ^ 9 else sint ?d)"
    by (simp add: cappedBackoff_def base Let_def word_sle_eq word_sless_alt)
  show ?thesis
  proof (cases "n - 1 < 30")
    case True
    then have "(2 :: int) ^ (n - 1) \<le> 2 ^ 29" by (intro power_increasing) simp_all
    then have "?x \<le> 5000 * 10 ^ 6 * 2 ^ 29" using assms by (intro mult_mono) simp_all
    moreover have pos: "0 < ?x" using assms by simp
    ultimately have "signed_take_bit 63 ?x = ?x" by (intro signed_take_bit_int_eq_self) simp_all
    with pos show ?thesis unfolding cap d by simp
  next
    case False
    then have "(2 :: int) ^ 30 dvd 2 ^ (n - 1)" by (intro le_imp_power_dvd) simp
    moreover have "(2 :: int) ^ 6 dvd sint ms * 10 ^ 6" by (rule dvd_mult) simp
    ultimately have "(2 :: int) ^ 6 * 2 ^ 30 dvd ?x" by (intro mult_dvd_mono)
    then have "2 ^ 36 dvd ?x" by simp
    from big_shift [OF this] have "sint (cappedBackoff (NewAIAdapter t r ms) n) = 5 * 10 ^ 9"
      unfolding cap d by auto
    moreover have "(2 :: int) ^ 30 \<le> 2 ^ (n - 1)" using False by (intro power_increasing) simp_all
    then have "1 * 10 ^ 6 * 2 ^ 30 \<le> ?x" using assms by (intro mult_mono) simp_all
    ultimately show ?thesis by simp
  qed
qed

text \<open>
  C23 (backoff_reference). For a base of at most five seconds the delay before a retry is
  exponential and capped at five seconds, for every attempt number: the shift of 64 bits may
  overflow, but the cap hides it. The jitter keeps at least half of the delay.
\<close>

theorem backoff_reference:
  assumes "0 < sint ms" "sint ms \<le> 5000" "1 \<le> n"
    and "outcomes (backoffDelay (NewAIAdapter t r ms) n :: ('r, 'n, duration) go) d es"
  shows "let full = min (5 * 10 ^ 9) (sint ms * 10 ^ 6 * 2 ^ (n - 1))
    in full div 2 \<le> sint d \<and> sint d \<le> full"
  using outcomes_backoff [OF assms(4)] by (simp add: backoff_value [OF assms(1-3)] Let_def)

theorem backoff_reference_witness:
  "\<exists>d es. outcomes (backoffDelay (NewAIAdapter 90 2 200) 80 :: (unit, unit, duration) go) d es \<and>
     2500000000 \<le> sint d \<and> sint d \<le> 5000000000"
proof -
  obtain d es w' where "run (backoffDelay (NewAIAdapter 90 2 200) 80) (boot_world () ()) = (d, es, w')"
    by (metis prod_cases3)
  then have out: "outcomes (backoffDelay (NewAIAdapter 90 2 200) 80 :: (unit, unit, duration) go) d es"
    by (rule run_outcomes)
  from backoff_reference [OF _ _ _ out] have "2500000000 \<le> sint d" "sint d \<le> 5000000000"
    by (simp_all add: Let_def)
  with out show ?thesis by blast
qed

end
