(* ===== verification/Debounce_Engine.thy ===== *)
theory Debounce_Engine
  imports Redis_Repository
begin

text \<open>
  \<open>pkg/debounce/service/debounce_engine.go\<close>: the buffers and the timer of a pair, over any
  repository. The interface is a record of operations, its contract a locale on the abstract
  store; that the engine keeps the contract over every repository is a \<open>sublocale\<close>.
\<close>

section \<open>The interface\<close>

record ('r, 'n) DebounceEngine =
  deb_Start :: "ctx \<Rightarrow> int64 \<Rightarrow> int64 \<Rightarrow> string \<Rightarrow> Attachment list \<Rightarrow> BotConfig \<Rightarrow>
     ('r, 'n, go_error option) go"
  deb_Reset :: "ctx \<Rightarrow> int64 \<Rightarrow> int64 \<Rightarrow> string \<Rightarrow> Attachment list \<Rightarrow> BotConfig \<Rightarrow>
     ('r, 'n, go_error option) go"
  deb_GetBuffer :: "ctx \<Rightarrow> int64 \<Rightarrow> int64 \<Rightarrow> ('r, 'n, go_error + string) go"
  deb_GetAttachments :: "ctx \<Rightarrow> int64 \<Rightarrow> int64 \<Rightarrow> ('r, 'n, go_error + Attachment list) go"
  deb_TimerExists :: "ctx \<Rightarrow> int64 \<Rightarrow> int64 \<Rightarrow> ('r, 'n, go_error + bool) go"

section \<open>The engine\<close>

definition Start ::
  "('r, 'n) PipelineRepository \<Rightarrow> ctx \<Rightarrow> int64 \<Rightarrow> int64 \<Rightarrow> string \<Rightarrow> Attachment list \<Rightarrow> BotConfig \<Rightarrow>
     ('r, 'n, go_error option) go" where
  "Start repo ctx contactID conversationID content atts cfg =
     pbind (repo_AppendToBuffer repo ctx contactID conversationID content) (\<lambda>e.
     case e of Some err \<Rightarrow> Done (Some (Wrap ''debounce.start.append'' err)) | None \<Rightarrow>
     pbind (repo_AppendAttachments repo ctx contactID conversationID atts) (\<lambda>e.
     case e of Some err \<Rightarrow> Done (Some (Wrap ''debounce.start.append_attachments'' err)) | None \<Rightarrow>
     if 0 <s DebounceTime cfg
     then (let ttl = DebounceTime cfg * Second in
           pbind (repo_SetTimer repo ctx contactID conversationID ttl) (\<lambda>e.
           case e of Some err \<Rightarrow> Done (Some (Wrap ''debounce.start.set_timer'' err)) | None \<Rightarrow> Done None))
     else Done None))"

definition Reset ::
  "('r, 'n) PipelineRepository \<Rightarrow> ctx \<Rightarrow> int64 \<Rightarrow> int64 \<Rightarrow> string \<Rightarrow> Attachment list \<Rightarrow> BotConfig \<Rightarrow>
     ('r, 'n, go_error option) go" where
  "Reset repo ctx contactID conversationID content atts cfg =
     pbind (repo_AppendToBuffer repo ctx contactID conversationID content) (\<lambda>e.
     case e of Some err \<Rightarrow> Done (Some (Wrap ''debounce.reset.append'' err)) | None \<Rightarrow>
     pbind (repo_AppendAttachments repo ctx contactID conversationID atts) (\<lambda>e.
     case e of Some err \<Rightarrow> Done (Some (Wrap ''debounce.reset.append_attachments'' err)) | None \<Rightarrow>
     if 0 <s DebounceTime cfg
     then (let ttl = DebounceTime cfg * Second in
           pbind (repo_SetTimer repo ctx contactID conversationID ttl) (\<lambda>e.
           case e of Some err \<Rightarrow> Done (Some (Wrap ''debounce.reset.set_timer'' err)) | None \<Rightarrow> Done None))
     else Done None))"

definition GetBuffer ::
  "('r, 'n) PipelineRepository \<Rightarrow> ctx \<Rightarrow> int64 \<Rightarrow> int64 \<Rightarrow> ('r, 'n, go_error + string) go" where
  "GetBuffer repo ctx contactID conversationID =
     pbind (repo_GetBuffer repo ctx contactID conversationID) (\<lambda>r.
     case r of
       Inl err \<Rightarrow> Done (Inl (Wrap ''debounce.get_buffer'' err))
     | Inr entries \<Rightarrow> Done (Inr (join entries [CHR 0x0A, CHR 0x0A])))"

definition GetAttachments ::
  "('r, 'n) PipelineRepository \<Rightarrow> ctx \<Rightarrow> int64 \<Rightarrow> int64 \<Rightarrow> ('r, 'n, go_error + Attachment list) go" where
  "GetAttachments repo ctx contactID conversationID =
     repo_GetAttachments repo ctx contactID conversationID"

definition TimerExists ::
  "('r, 'n) PipelineRepository \<Rightarrow> ctx \<Rightarrow> int64 \<Rightarrow> int64 \<Rightarrow> ('r, 'n, go_error + bool) go" where
  "TimerExists repo ctx contactID conversationID =
     repo_TimerExists repo ctx contactID conversationID"

definition NewDebounceEngine :: "('r, 'n) PipelineRepository \<Rightarrow> ('r, 'n) DebounceEngine" where
  "NewDebounceEngine repo = \<lparr> deb_Start = Start repo, deb_Reset = Reset repo,
     deb_GetBuffer = GetBuffer repo, deb_GetAttachments = GetAttachments repo,
     deb_TimerExists = TimerExists repo \<rparr>"

section \<open>The contract\<close>

text \<open>A message that is buffered, and what reading the buffer gives.\<close>

definition buffered :: "string \<Rightarrow> Attachment list \<Rightarrow> BotConfig \<Rightarrow> pair_view \<Rightarrow> pair_view" where
  "buffered content atts cfg pv = pv \<lparr> pv_buffer := pv_buffer pv @ [content],
     pv_atts := pv_atts pv @ map norm_attachment atts,
     pv_timer := (pv_timer pv \<or> 0 <s DebounceTime cfg) \<rparr>"

definition aggregated :: "pair_view \<Rightarrow> string" where
  "aggregated pv = join (pv_buffer pv) [CHR 0x0A, CHR 0x0A]"

text \<open>A failed call leaves the stage and every other pair alone.\<close>

definition only_buffers :: "pair \<Rightarrow> store \<Rightarrow> store \<Rightarrow> bool" where
  "only_buffers p s s' \<longleftrightarrow> (\<forall>q. q \<noteq> p \<longrightarrow> s' q = s q) \<and> pv_state (s' p) = pv_state (s p)"

locale debounce_engine =
  fixes deb :: "('r, 'n) DebounceEngine"
    and view :: "('r, 'n) world \<Rightarrow> store"
    and sound :: "('r, 'n) world \<Rightarrow> bool"
  assumes Start: "sound w \<Longrightarrow> run (deb_Start deb c a b content atts cfg) w = (e, es, w') \<Longrightarrow>
      sound w' \<and> redis_only w w' \<and> only_buffers (a, b) (view w) (view w') \<and>
      (e = None \<longrightarrow> view w' = (view w)((a, b) := buffered content atts cfg (view w (a, b))))"
    and Reset: "sound w \<Longrightarrow> run (deb_Reset deb c a b content atts cfg) w = (e, es, w') \<Longrightarrow>
      sound w' \<and> redis_only w w' \<and> only_buffers (a, b) (view w) (view w') \<and>
      (e = None \<longrightarrow> view w' = (view w)((a, b) := buffered content atts cfg (view w (a, b))))"
    and GetBuffer: "sound w \<Longrightarrow> run (deb_GetBuffer deb c a b) w = (rb, es, w') \<Longrightarrow>
      sound w' \<and> redis_only w w' \<and> view w' = view w \<and>
      (\<forall>s. rb = Inr s \<longrightarrow> s = aggregated (view w (a, b)))"
    and GetAttachments: "sound w \<Longrightarrow> run (deb_GetAttachments deb c a b) w = (ra, es, w') \<Longrightarrow>
      sound w' \<and> redis_only w w' \<and> view w' = view w \<and>
      (\<forall>as. ra = Inr as \<longrightarrow> as = pv_atts (view w (a, b)))"
    and TimerExists: "sound w \<Longrightarrow> run (deb_TimerExists deb c a b) w = (rt, es, w') \<Longrightarrow>
      sound w' \<and> redis_only w w' \<and> view w' = view w \<and>
      (\<forall>x. rt = Inr x \<longrightarrow> x = pv_timer (view w (a, b)))"

lemma only_buffers_refl [simp]: "only_buffers p s s"
  by (simp add: only_buffers_def)

lemma only_buffers_trans: "only_buffers p s s1 \<Longrightarrow> only_buffers p s1 s2 \<Longrightarrow> only_buffers p s s2"
  by (simp add: only_buffers_def)

lemma changed_only_buffers:
  "changed e p f s s' \<Longrightarrow> (\<And>pv. pv_state (f pv) = pv_state pv) \<Longrightarrow> only_buffers p s s'"
  by (auto simp: changed_def only_buffers_def split: option.splits)

section \<open>The engine keeps the contract\<close>

lemma deb_sel [simp]:
  "deb_Start (NewDebounceEngine repo) = Start repo"
  "deb_Reset (NewDebounceEngine repo) = Reset repo"
  "deb_GetBuffer (NewDebounceEngine repo) = GetBuffer repo"
  "deb_GetAttachments (NewDebounceEngine repo) = GetAttachments repo"
  "deb_TimerExists (NewDebounceEngine repo) = TimerExists repo"
  by (simp_all add: NewDebounceEngine_def)

text \<open>Both ways of buffering a message are one program, up to the prefixes of their errors.\<close>

definition buffer_message ::
  "string \<Rightarrow> string \<Rightarrow> string \<Rightarrow> ('r, 'n) PipelineRepository \<Rightarrow> ctx \<Rightarrow> int64 \<Rightarrow> int64 \<Rightarrow> string \<Rightarrow>
     Attachment list \<Rightarrow> BotConfig \<Rightarrow> ('r, 'n, go_error option) go" where
  "buffer_message m1 m2 m3 repo ctx a b content atts cfg =
     pbind (repo_AppendToBuffer repo ctx a b content) (\<lambda>e.
     case e of Some err \<Rightarrow> Done (Some (Wrap m1 err)) | None \<Rightarrow>
     pbind (repo_AppendAttachments repo ctx a b atts) (\<lambda>e.
     case e of Some err \<Rightarrow> Done (Some (Wrap m2 err)) | None \<Rightarrow>
     if 0 <s DebounceTime cfg
     then pbind (repo_SetTimer repo ctx a b (DebounceTime cfg * Second)) (\<lambda>e.
          case e of Some err \<Rightarrow> Done (Some (Wrap m3 err)) | None \<Rightarrow> Done None)
     else Done None))"

lemma Start_buffer_message: "Start = buffer_message ''debounce.start.append''
    ''debounce.start.append_attachments'' ''debounce.start.set_timer''"
  by (intro ext) (simp only: Start_def buffer_message_def Let_def)

lemma Reset_buffer_message: "Reset = buffer_message ''debounce.reset.append''
    ''debounce.reset.append_attachments'' ''debounce.reset.set_timer''"
  by (intro ext) (simp only: Reset_def buffer_message_def Let_def)

context pipeline_repository
begin

lemma buffer_message_contract:
  assumes "sound w" "run (buffer_message m1 m2 m3 repo c a b content atts cfg) w = (e, es, w')"
  shows "sound w' \<and> redis_only w w' \<and> only_buffers (a, b) (view w) (view w') \<and>
    (e = None \<longrightarrow> view w' = (view w)((a, b) := buffered content atts cfg (view w (a, b))))"
proof -
  obtain e1 es1 w1 where r1: "run (repo_AppendToBuffer repo c a b content) w = (e1, es1, w1)"
    by (rule prod_cases3)
  note 1 = AppendToBuffer [OF assms(1) r1]
  have b1: "only_buffers (a, b) (view w) (view w1)"
    using 1 by (auto intro: changed_only_buffers [of e1])
  show ?thesis
  proof (cases e1)
    case (Some err)
    with assms(2) r1 1 b1 show ?thesis by (auto simp: buffer_message_def run_bind)
  next
    case None
    obtain e2 es2 w2 where r2: "run (repo_AppendAttachments repo c a b atts) w1 = (e2, es2, w2)"
      by (rule prod_cases3)
    note 2 = AppendAttachments [OF conjunct1 [OF 1] r2]
    have "only_buffers (a, b) (view w1) (view w2)"
      using 2 by (auto intro: changed_only_buffers [of e2])
    then have b2: "only_buffers (a, b) (view w) (view w2)" by (rule only_buffers_trans [OF b1])
    have ro2: "redis_only w w2" using 1 2 by (blast intro: redis_only_trans)
    show ?thesis
    proof (cases "e2 = None \<and> 0 <s DebounceTime cfg")
      case False
      with assms(2) r1 r2 None 1 2 b2 ro2 show ?thesis
        by (auto simp: buffer_message_def run_bind buffered_def split: option.splits)
    next
      case True
      obtain e3 es3 w3 where r3: "run (repo_SetTimer repo c a b (DebounceTime cfg * Second)) w2 = (e3, es3, w3)"
        by (rule prod_cases3)
      note 3 = SetTimer [OF conjunct1 [OF 2] r3]
      have "only_buffers (a, b) (view w2) (view w3)"
        using 3 by (auto intro: changed_only_buffers [of e3])
      then have b3: "only_buffers (a, b) (view w) (view w3)" by (rule only_buffers_trans [OF b2])
      have ro3: "redis_only w w3" using ro2 3 by (blast intro: redis_only_trans)
      from assms(2) r1 r2 r3 None True have e: "w' = w3" "e = map_option (Wrap m3) e3"
        by (auto simp: buffer_message_def run_bind split: option.splits)
      show ?thesis
      proof (cases e3)
        case None
        with 1 2 3 \<open>e1 = None\<close> True have "view w3 = (view w)((a, b) := buffered content atts cfg (view w (a, b)))"
          by (cases "view w (a, b)") (simp add: buffered_def)
        with 3 b3 ro3 e show ?thesis by simp
      qed (use 3 b3 ro3 e in simp)
    qed
  qed
qed

end

sublocale pipeline_repository \<subseteq> debounce: debounce_engine "NewDebounceEngine repo" view sound
proof (unfold_locales; unfold deb_sel)
  fix w w' :: "('r, 'n) world" and c a b content atts cfg e es
  assume s: "sound w"
  show "sound w' \<and> redis_only w w' \<and> only_buffers (a, b) (view w) (view w') \<and>
      (e = None \<longrightarrow> view w' = (view w)((a, b) := buffered content atts cfg (view w (a, b))))"
    if "run (Start repo c a b content atts cfg) w = (e, es, w')"
    using buffer_message_contract [OF s] that unfolding Start_buffer_message by blast
  show "sound w' \<and> redis_only w w' \<and> only_buffers (a, b) (view w) (view w') \<and>
      (e = None \<longrightarrow> view w' = (view w)((a, b) := buffered content atts cfg (view w (a, b))))"
    if "run (Reset repo c a b content atts cfg) w = (e, es, w')"
    using buffer_message_contract [OF s] that unfolding Reset_buffer_message by blast
next
  fix w w' :: "('r, 'n) world" and c a b rb es
  assume s: "sound w" and r: "run (GetBuffer repo c a b) w = (rb, es, w')"
  obtain x es1 w1 where r1: "run (repo_GetBuffer repo c a b) w = (x, es1, w1)" by (rule prod_cases3)
  from GetBuffer [OF s r1] r r1
  show "sound w' \<and> redis_only w w' \<and> view w' = view w \<and>
      (\<forall>s. rb = Inr s \<longrightarrow> s = aggregated (view w (a, b)))"
    by (auto simp: GetBuffer_def run_bind aggregated_def split: sum.splits)
qed (unfold GetAttachments_def TimerExists_def, erule (1) GetAttachments, erule (1) TimerExists)

section \<open>A debounce window\<close>

text \<open>The messages of one window: the first starts it, every later one resets it.\<close>

type_synonym message = "string \<times> Attachment list"

fun reset_all :: "('r, 'n) DebounceEngine \<Rightarrow> ctx \<Rightarrow> int64 \<Rightarrow> int64 \<Rightarrow> BotConfig \<Rightarrow> message list \<Rightarrow>
     ('r, 'n, go_error option) go" where
  "reset_all deb c a b cfg [] = Done None"
| "reset_all deb c a b cfg ((content, atts) # ms) =
     pbind (deb_Reset deb c a b content atts cfg) (\<lambda>e.
       case e of Some err \<Rightarrow> Done (Some err) | None \<Rightarrow> reset_all deb c a b cfg ms)"

definition window :: "('r, 'n) DebounceEngine \<Rightarrow> ctx \<Rightarrow> int64 \<Rightarrow> int64 \<Rightarrow> BotConfig \<Rightarrow> message \<Rightarrow>
     message list \<Rightarrow> ('r, 'n, go_error option) go" where
  "window deb c a b cfg m ms =
     pbind (deb_Start deb c a b (fst m) (snd m) cfg) (\<lambda>e.
       case e of Some err \<Rightarrow> Done (Some err) | None \<Rightarrow> reset_all deb c a b cfg ms)"

definition collected :: "BotConfig \<Rightarrow> message list \<Rightarrow> pair_view \<Rightarrow> pair_view" where
  "collected cfg ms pv = pv \<lparr> pv_buffer := pv_buffer pv @ map fst ms,
     pv_atts := pv_atts pv @ map norm_attachment (concat (map snd ms)),
     pv_timer := (pv_timer pv \<or> ms \<noteq> [] \<and> 0 <s DebounceTime cfg) \<rparr>"

lemma collected_Nil [simp]: "collected cfg [] pv = pv"
  by (cases pv) (simp add: collected_def)

lemma collected_Cons [simp]:
  "collected cfg ms (buffered content atts cfg pv) = collected cfg ((content, atts) # ms) pv"
  by (cases pv) (auto simp: collected_def buffered_def)

context debounce_engine
begin

lemma reset_all_contract:
  assumes "sound w" "run (reset_all deb c a b cfg ms) w = (None, es, w')"
  shows "sound w' \<and> redis_only w w' \<and>
    view w' = (view w)((a, b) := collected cfg ms (view w (a, b)))"
  using assms
proof (induction ms arbitrary: w es)
  case (Cons m ms)
  obtain content atts where m: "m = (content, atts)" by fastforce
  obtain e1 es1 w1 where r1: "run (deb_Reset deb c a b content atts cfg) w = (e1, es1, w1)"
    by (rule prod_cases3)
  with Cons.prems(2) m have e1: "e1 = None" by (cases e1) (auto simp: run_bind)
  with Cons.prems(2) m r1 obtain es2 where "run (reset_all deb c a b cfg ms) w1 = (None, es2, w')"
    by (auto simp: run_bind split: prod.splits)
  with Cons.IH Reset [OF Cons.prems(1) r1] e1 m show ?case
    by (auto intro: redis_only_trans)
qed simp

lemma window_contract:
  assumes "sound w" "run (window deb c a b cfg m ms) w = (None, es, w')"
  shows "sound w' \<and> redis_only w w' \<and>
    view w' = (view w)((a, b) := collected cfg (m # ms) (view w (a, b)))"
proof -
  obtain e1 es1 w1 where r1: "run (deb_Start deb c a b (fst m) (snd m) cfg) w = (e1, es1, w1)"
    by (rule prod_cases3)
  with assms(2) have e1: "e1 = None" by (cases e1) (auto simp: window_def run_bind)
  with assms(2) r1 obtain es2 where r2: "run (reset_all deb c a b cfg ms) w1 = (None, es2, w')"
    by (auto simp: window_def run_bind split: prod.splits)
  from Start [OF assms(1) r1] e1 have 1: "sound w1" "redis_only w w1"
    "view w1 = (view w)((a, b) := buffered (fst m) (snd m) cfg (view w (a, b)))" by auto
  from reset_all_contract [OF 1(1) r2] 1 show ?thesis
    by (cases m) (auto intro: redis_only_trans)
qed

end

section \<open>Properties\<close>

text \<open>
  C30 (debounce_aggregates). The messages of a window, started by the first and reset by every
  later one, are read back as one text: joined by blank lines, in the order they came, after
  what was already buffered. Their attachments are collected in the same order, and the timer
  runs exactly when a debounce time is configured or it was running before.
\<close>

theorem debounce_aggregates:
  fixes rc :: "'r redis_client" and w :: "('r, 'n) world"
  assumes "redis_sound rc v w"
    and "run (window (NewDebounceEngine (NewPipelineRepository rc fuel)) c a b cfg m ms) w = (None, es, w1)"
    and "run (GetBuffer (NewPipelineRepository rc fuel) c' a b) w1 = (Inr joined, es', w2)"
    and "run (GetAttachments (NewPipelineRepository rc fuel) c' a b) w2 = (Inr atts, es'', w3)"
    and "run (TimerExists (NewPipelineRepository rc fuel) c' a b) w3 = (Inr timer, es''', w4)"
  shows "joined = join (pv_buffer (redis_view v w (a, b)) @ map fst (m # ms)) [CHR 0x0A, CHR 0x0A] \<and>
    atts = pv_atts (redis_view v w (a, b)) @ map norm_attachment (concat (map snd (m # ms))) \<and>
    timer = (pv_timer (redis_view v w (a, b)) \<or> 0 <s DebounceTime cfg)"
proof -
  note 1 = redis_repo.debounce.window_contract [OF assms(1,2)]
  note 2 = redis_repo.debounce.GetBuffer [unfolded deb_sel, OF conjunct1 [OF 1] assms(3)]
  note 3 = redis_repo.debounce.GetAttachments [unfolded deb_sel, OF conjunct1 [OF 2] assms(4)]
  note 4 = redis_repo.debounce.TimerExists [unfolded deb_sel, OF conjunct1 [OF 3] assms(5)]
  from 1 2 3 4 show ?thesis by (simp add: aggregated_def collected_def)
qed

theorem debounce_aggregates_witness:
  "\<exists>es w1 es' w2 joined. run (window (NewDebounceEngine (NewPipelineRepository mem_client 1)) [] 7 9
       (zeroConfig \<lparr> DebounceTime := 5 \<rparr>) (''hello'', []) [(''world'', [])])
       (boot_world empty_redis ()) = (None, es, w1) \<and>
     run (GetBuffer (NewPipelineRepository mem_client 1) [] 7 9) w1 = (Inr joined, es', w2) \<and>
     joined = ''hello'' @ [CHR 0x0A, CHR 0x0A] @ ''world''"
proof -
  let ?cfg = "zeroConfig \<lparr> DebounceTime := 5 \<rparr>" and ?repo = "NewPipelineRepository mem_client 1"
  obtain es w1 where 1: "run (window (NewDebounceEngine ?repo) [] 7 9 ?cfg (''hello'', []) [(''world'', [])])
      (boot_world empty_redis ()) = (None, es, w1)" and
    w1: "\<not> ctx_done w1 []" "is_list (mem_view (w_redis w1)) (bufferKey 7 9)"
      "is_list (mem_view (w_redis w1)) (attachBufferKey 7 9)"
    by (simp add: window_def Start_def Reset_def AppendToBuffer_def AppendAttachments_def SetTimer_def
        word_sless_alt zeroConfig_def mem_eval is_list_def list_at_def mem_view_def [of "\<lparr> mr_db = [], mr_token = 0 \<rparr>"])
  obtain joined es' where 2: "run (GetBuffer ?repo [] 7 9) w1 = (Inr joined, es', w1)"
    using w1 by (simp add: GetBuffer_def Redis_Repository.GetBuffer_def Let_def run_bind run_redis_op mem_client_def)
  obtain atts es'' where 3: "run (GetAttachments ?repo [] 7 9) w1 = (Inr atts, es'', w1)"
    using w1 by (simp add: GetAttachments_def Redis_Repository.GetAttachments_def Let_def run_bind run_redis_op mem_client_def)
  obtain timer es''' where 4: "run (TimerExists ?repo [] 7 9) w1 = (Inr timer, es''', w1)"
    using w1 by (simp add: TimerExists_def Redis_Repository.TimerExists_def Let_def run_bind run_redis_op mem_client_def)
  have "pv_buffer (redis_view mem_view (boot_world empty_redis ()) (7, 9)) = []"
    by (simp add: redis_view_def db_pair_def list_at_def boot_world_def empty_redis_def mem_view_def)
  with debounce_aggregates [OF empty_sound 1 2 3 4]
  have "joined = ''hello'' @ [CHR 0x0A, CHR 0x0A] @ ''world''" by simp
  with 1 2 show ?thesis by blast
qed

text \<open>
  Buffering a message, even one that fails half-way, never touches the
  stage of the pair nor anything of another pair.
\<close>

theorem debounce_isolated:
  assumes "redis_sound rc v w"
    and "run (Start (NewPipelineRepository rc fuel) c a b content atts cfg) w = (e, es, w') \<or>
      run (Reset (NewPipelineRepository rc fuel) c a b content atts cfg) w = (e, es, w')"
  shows "pv_state (redis_view v w' (a, b)) = pv_state (redis_view v w (a, b)) \<and>
    (\<forall>q. q \<noteq> (a, b) \<longrightarrow> redis_view v w' q = redis_view v w q)"
  using assms(2)
proof
  assume "run (Start (NewPipelineRepository rc fuel) c a b content atts cfg) w = (e, es, w')"
  from redis_repo.debounce.Start [unfolded deb_sel, OF assms(1) this] show ?thesis
    by (simp add: only_buffers_def)
next
  assume "run (Reset (NewPipelineRepository rc fuel) c a b content atts cfg) w = (e, es, w')"
  from redis_repo.debounce.Reset [unfolded deb_sel, OF assms(1) this] show ?thesis
    by (simp add: only_buffers_def)
qed

theorem debounce_isolated_witness:
  "\<exists>e es w'. run (Start (NewPipelineRepository mem_client 1) [] 7 9 ''hi'' [] zeroConfig)
       (boot_world empty_redis ()) = (e, es, w') \<and>
     (\<forall>q. q \<noteq> (7, 9) \<longrightarrow> redis_view mem_view w' q = redis_view mem_view (boot_world empty_redis ()) q)"
proof -
  obtain e es w' where r: "run (Start (NewPipelineRepository mem_client 1) [] 7 9 ''hi'' [] zeroConfig)
      (boot_world empty_redis ()) = (e, es, w')" by (rule prod_cases3)
  from debounce_isolated [OF empty_sound disjI1, OF r] r show ?thesis by blast
qed

end
