(* ===== verification/Pipeline_Service.thy ===== *)
theory Pipeline_Service
  imports Debounce_Engine
begin

text \<open>
  \<open>pkg/pipeline/service/pipeline_service.go\<close>: the state machine of a contact and conversation.
  The service holds its four parts as records of operations; its entries, its stop channel and
  the goroutines it launches are part of the shared state of \<^theory_text>\<open>Runtime\<close>. What is only
  logged is left out.
\<close>

section \<open>The parts of the service\<close>

record ('r, 'n) AIAdapter =
  ai_Call :: "ctx \<Rightarrow> A2ARequest \<Rightarrow> ('r, 'n, go_error + NormalizedResponse option) go"

record ('r, 'n) DispatchEngine =
  dsp_Dispatch :: "ctx \<Rightarrow> int64 \<Rightarrow> int64 \<Rightarrow> string \<Rightarrow> BotConfig \<Rightarrow> string \<Rightarrow>
     ('r, 'n, go_error option) go"

record ('r, 'n) pipelineService =
  ps_repo :: "('r, 'n) PipelineRepository"
  ps_debounce :: "('r, 'n) DebounceEngine"
  ps_aiAdapter :: "('r, 'n) AIAdapter"
  ps_dispatchEng :: "('r, 'n) DispatchEngine"

definition NewPipelineService ::
  "('r, 'n) PipelineRepository \<Rightarrow> ('r, 'n) DebounceEngine \<Rightarrow> ('r, 'n) AIAdapter \<Rightarrow>
     ('r, 'n) DispatchEngine \<Rightarrow> ('r, 'n) pipelineService" where
  "NewPipelineService repo debounce aiAdapter dispatchEng =
     \<lparr> ps_repo = repo, ps_debounce = debounce, ps_aiAdapter = aiAdapter, ps_dispatchEng = dispatchEng \<rparr>"

section \<open>Keys, contexts, cleanup\<close>

definition pairKey :: "int64 \<Rightarrow> int64 \<Rightarrow> string" where
  "pairKey contactID conversationID = itoa (sint contactID) @ CHR '':'' # itoa (sint conversationID)"

definition parsePairKey :: "string \<Rightarrow> int64 \<times> int64" where
  "parsePairKey key =
     (case split2 key (CHR '':'') of
        [c, d] \<Rightarrow> (fst (ParseInt c), fst (ParseInt d))
      | _ \<Rightarrow> (0, 0))"

definition cleanupCtx :: "('r, 'n, ctx) go" where
  "cleanupCtx = WithTimeout Background (5 * Second)"

definition noticeCtx :: "('r, 'n, ctx) go" where
  "noticeCtx = WithTimeout Background (30 * Second)"

definition clearStateWithLog :: "('r, 'n) pipelineService \<Rightarrow> int64 \<Rightarrow> int64 \<Rightarrow> ('r, 'n, unit) go" where
  "clearStateWithLog s contactID conversationID =
     pbind cleanupCtx (\<lambda>ctx.
     pbind (repo_ClearState (ps_repo s) ctx contactID conversationID) (\<lambda>_.
     cancel ctx))"

definition cancelPair :: "('r, 'n) pipelineService \<Rightarrow> int64 \<Rightarrow> int64 \<Rightarrow> ('r, 'n, unit) go" where
  "cancelPair s contactID conversationID =
     pbind (LoadAndDelete (pairKey contactID conversationID)) (\<lambda>v.
     case v of None \<Rightarrow> Done () | Some entry \<Rightarrow> cancel (en_ctx entry))"

definition Cancel :: "('r, 'n) pipelineService \<Rightarrow> int64 \<Rightarrow> int64 \<Rightarrow> ('r, 'n, go_error option) go" where
  "Cancel s contactID conversationID =
     pbind (cancelPair s contactID conversationID) (\<lambda>_.
     pbind (clearStateWithLog s contactID conversationID) (\<lambda>_. Done None))"

text \<open>The deferred recovery: the argument tells whether the goroutine panicked.\<close>

definition recoverPipeline ::
  "('r, 'n) pipelineService \<Rightarrow> int64 \<Rightarrow> int64 \<Rightarrow> bool \<Rightarrow> ('r, 'n, unit) go" where
  "recoverPipeline s contactID conversationID panicked =
     (if panicked
      then pbind (clearStateWithLog s contactID conversationID) (\<lambda>_.
           Delete (pairKey contactID conversationID))
      else Done ())"

section \<open>The AI stage\<close>

definition launchAIStage ::
  "('r, 'n) pipelineService \<Rightarrow> int64 \<Rightarrow> int64 \<Rightarrow> string \<Rightarrow> Attachment list \<Rightarrow> ('r, 'n, unit) go" where
  "launchAIStage s contactID conversationID buffer atts =
     pbind (Load (pairKey contactID conversationID)) (\<lambda>v.
     case v of
       None \<Rightarrow> Done ()
     | Some entry \<Rightarrow> go_launch (GoAI (en_ctx entry) contactID conversationID buffer atts
                        (en_cfg entry) (en_postbackURL entry)))"

definition aiFailureNoticeEnv :: string where
  "aiFailureNoticeEnv = ''AI_FAILURE_NOTICE''"

definition defaultAIFailureNotice :: string where
  "defaultAIFailureNotice = ''We are having a temporary issue and could not answer right now. We will get back to you shortly.''"

definition sendAIFailureNotice ::
  "('r, 'n) pipelineService \<Rightarrow> int64 \<Rightarrow> int64 \<Rightarrow> BotConfig \<Rightarrow> string \<Rightarrow> go_error \<Rightarrow> ('r, 'n, unit) go" where
  "sendAIFailureNotice s contactID conversationID cfg postbackURL cause =
     pbind (LookupEnv aiFailureNoticeEnv) (\<lambda>v.
     let send = (\<lambda>notice.
           if postbackURL = [] then Done ()
           else
             pbind noticeCtx (\<lambda>ctx.
             pbind (dsp_Dispatch (ps_dispatchEng s) ctx contactID conversationID notice cfg postbackURL) (\<lambda>_.
             pbind (recoverPipeline s contactID conversationID False) (\<lambda>_.
             cancel ctx))))
     in case v of
          None \<Rightarrow> send defaultAIFailureNotice
        | Some notice \<Rightarrow> if trim_space notice = [] then Done () else send notice)"

definition launchDispatchStage ::
  "('r, 'n) pipelineService \<Rightarrow> ctx \<Rightarrow> int64 \<Rightarrow> int64 \<Rightarrow> NormalizedResponse option \<Rightarrow> BotConfig \<Rightarrow>
     string \<Rightarrow> ('r, 'n, bool) go" where
  "launchDispatchStage s ctx contactID conversationID resp cfg postbackURL =
     (case resp of
        None \<Rightarrow> Done True
      | Some r \<Rightarrow>
          pbind (go_launch (GoDispatch ctx contactID conversationID (nr_Content r) cfg postbackURL))
            (\<lambda>_. Done False))"

text \<open>\<open>launchDispatchStage\<close> tells whether it panicked: it reads a field of a response that may be nil.\<close>

definition ai_attachment :: "Attachment \<Rightarrow> AiAttachment" where
  "ai_attachment a = \<lparr> ai_URL = at_URL a, ai_ContentType = at_ContentType a, ai_FileType = at_FileType a \<rparr>"

definition a2a_request ::
  "int64 \<Rightarrow> int64 \<Rightarrow> string \<Rightarrow> Attachment list \<Rightarrow> pipelineEntry option \<Rightarrow> A2ARequest" where
  "a2a_request contactID conversationID buffer atts v =
     (let (outgoingURL, apiKey, metadata) =
            (case v of None \<Rightarrow> ([], [], None)
             | Some entry \<Rightarrow> (en_outgoingURL entry, en_apiKey entry, en_metadata entry))
      in \<lparr> rq_OutgoingURL = outgoingURL, rq_ContactID = contactID, rq_ConversationID = conversationID,
           rq_ApiKey = apiKey, rq_Message = buffer, rq_Metadata = metadata,
           rq_Attachments = map ai_attachment atts \<rparr>)"

text \<open>What the AI stage does with the result of the call.\<close>

definition ai_failed ::
  "('r, 'n) pipelineService \<Rightarrow> int64 \<Rightarrow> int64 \<Rightarrow> BotConfig \<Rightarrow> string \<Rightarrow> go_error \<Rightarrow> ('r, 'n, bool) go" where
  "ai_failed s contactID conversationID cfg postbackURL err =
     (if error_Is err ErrPipelineCancelled then Done False
      else if error_Is err ErrAITimeout
        then pbind (clearStateWithLog s contactID conversationID) (\<lambda>_.
             pbind (sendAIFailureNotice s contactID conversationID cfg postbackURL err) (\<lambda>_. Done False))
      else pbind (clearStateWithLog s contactID conversationID) (\<lambda>_.
           pbind (sendAIFailureNotice s contactID conversationID cfg postbackURL err) (\<lambda>_. Done False)))"

definition ai_succeeded ::
  "('r, 'n) pipelineService \<Rightarrow> ctx \<Rightarrow> int64 \<Rightarrow> int64 \<Rightarrow> BotConfig \<Rightarrow> string \<Rightarrow> NormalizedResponse option \<Rightarrow>
     ('r, 'n, bool) go" where
  "ai_succeeded s ctx contactID conversationID cfg postbackURL resp =
     pbind Now (\<lambda>now.
     pbind cleanupCtx (\<lambda>setCtx.
     pbind (repo_SetState (ps_repo s) setCtx contactID conversationID (stageState StageDispatch now)) (\<lambda>setErr.
     pbind (cancel setCtx) (\<lambda>_.
     if setErr \<noteq> None
     then pbind (clearStateWithLog s contactID conversationID) (\<lambda>_. Done False)
     else launchDispatchStage s ctx contactID conversationID resp cfg postbackURL))))"

definition runAIStage ::
  "('r, 'n) pipelineService \<Rightarrow> ctx \<Rightarrow> int64 \<Rightarrow> int64 \<Rightarrow> string \<Rightarrow> Attachment list \<Rightarrow> BotConfig \<Rightarrow>
     string \<Rightarrow> ('r, 'n, unit) go" where
  "runAIStage s ctx contactID conversationID buffer atts cfg postbackURL =
     pbind (pbind (Load (pairKey contactID conversationID)) (\<lambda>v.
            pbind (ai_Call (ps_aiAdapter s) ctx (a2a_request contactID conversationID buffer atts v)) (\<lambda>r.
            case r of
              Inl err \<Rightarrow> ai_failed s contactID conversationID cfg postbackURL err
            | Inr resp \<Rightarrow> ai_succeeded s ctx contactID conversationID cfg postbackURL resp)))
       (recoverPipeline s contactID conversationID)"

section \<open>The dispatch stage\<close>

definition runDispatchStage ::
  "('r, 'n) pipelineService \<Rightarrow> ctx \<Rightarrow> int64 \<Rightarrow> int64 \<Rightarrow> string \<Rightarrow> BotConfig \<Rightarrow> string \<Rightarrow>
     ('r, 'n, unit) go" where
  "runDispatchStage s ctx contactID conversationID content cfg postbackURL =
     pbind (pbind (dsp_Dispatch (ps_dispatchEng s) ctx contactID conversationID content cfg postbackURL) (\<lambda>e.
            case e of
              Some err \<Rightarrow>
                if error_Is err ErrDispatchInterrupted then Done False
                else pbind (clearStateWithLog s contactID conversationID) (\<lambda>_. Done False)
            | None \<Rightarrow>
                pbind Now (\<lambda>now.
                pbind cleanupCtx (\<lambda>doneCtx.
                pbind (repo_SetState (ps_repo s) doneCtx contactID conversationID (stageState StageDone now)) (\<lambda>_.
                pbind (cancel doneCtx) (\<lambda>_.
                pbind (clearStateWithLog s contactID conversationID) (\<lambda>_.
                pbind (Delete (pairKey contactID conversationID)) (\<lambda>_. Done False))))))))
       (recoverPipeline s contactID conversationID)"

section \<open>Incoming messages\<close>

definition newEntry :: "ctx \<Rightarrow> MessageEvent \<Rightarrow> pipelineEntry" where
  "newEntry pipelineCtx event = \<lparr> en_ctx = pipelineCtx, en_cfg = ev_BotConfig event,
     en_postbackURL = ev_PostbackURL event, en_outgoingURL = ev_OutgoingURL event,
     en_apiKey = ev_ApiKey event, en_metadata = ev_Metadata event \<rparr>"

definition debounceState :: "MessageEvent \<Rightarrow> string \<Rightarrow> PipelineState" where
  "debounceState event now = (stageState StageDebounce now) \<lparr> st_BotConfig := ev_BotConfig event,
     st_PostbackURL := ev_PostbackURL event, st_OutgoingURL := ev_OutgoingURL event,
     st_ApiKey := ev_ApiKey event, st_Metadata := ev_Metadata event \<rparr>"

text \<open>The cleanup of a start that failed: the context and the entry go.\<close>

definition abandon :: "ctx \<Rightarrow> string \<Rightarrow> 'a \<Rightarrow> ('r, 'n, 'a) go" where
  "abandon pipelineCtx key r =
     pbind (cancel pipelineCtx) (\<lambda>_. pbind (Delete key) (\<lambda>_. Done r))"

definition startDebounce ::
  "('r, 'n) pipelineService \<Rightarrow> ctx \<Rightarrow> MessageEvent \<Rightarrow> ('r, 'n, go_error option) go" where
  "startDebounce s ctx event =
     pbind (WithCancel Background) (\<lambda>pipelineCtx.
     let key = pairKey (ev_ContactID event) (ev_ConversationID event) in
     pbind (Store key (newEntry pipelineCtx event)) (\<lambda>_.
     pbind (deb_Start (ps_debounce s) ctx (ev_ContactID event) (ev_ConversationID event)
              (ev_MessageContent event) (ev_Attachments event) (ev_BotConfig event)) (\<lambda>e.
     case e of
       Some err \<Rightarrow> abandon pipelineCtx key (Some (Wrap ''pipeline.debounce.start'' err))
     | None \<Rightarrow>
         pbind Now (\<lambda>now.
         pbind (repo_SetState (ps_repo s) ctx (ev_ContactID event) (ev_ConversationID event)
                  (debounceState event now)) (\<lambda>e.
         case e of
           Some err \<Rightarrow> abandon pipelineCtx key (Some (Wrap ''pipeline.state.set'' err))
         | None \<Rightarrow> Done None)))))"

definition skipDebounce ::
  "('r, 'n) pipelineService \<Rightarrow> ctx \<Rightarrow> MessageEvent \<Rightarrow> ('r, 'n, go_error option) go" where
  "skipDebounce s ctx event =
     pbind (WithCancel Background) (\<lambda>pipelineCtx.
     let key = pairKey (ev_ContactID event) (ev_ConversationID event) in
     pbind (Store key (newEntry pipelineCtx event)) (\<lambda>_.
     pbind (deb_Start (ps_debounce s) ctx (ev_ContactID event) (ev_ConversationID event)
              (ev_MessageContent event) (ev_Attachments event) (ev_BotConfig event)) (\<lambda>e.
     case e of
       Some err \<Rightarrow> abandon pipelineCtx key (Some (Wrap ''pipeline.skip_debounce.start'' err))
     | None \<Rightarrow>
         pbind (deb_GetBuffer (ps_debounce s) ctx (ev_ContactID event) (ev_ConversationID event)) (\<lambda>r.
         case r of
           Inl err \<Rightarrow> abandon pipelineCtx key (Some (Wrap ''pipeline.skip_debounce.get_buffer'' err))
         | Inr buffer \<Rightarrow>
             pbind (deb_GetAttachments (ps_debounce s) ctx (ev_ContactID event) (ev_ConversationID event)) (\<lambda>r.
             let atts = (case r of Inl _ \<Rightarrow> [] | Inr as \<Rightarrow> as) in
             pbind Now (\<lambda>now.
             pbind (repo_SetState (ps_repo s) ctx (ev_ContactID event) (ev_ConversationID event)
                      (stageState StageAI now)) (\<lambda>e.
             case e of
               Some err \<Rightarrow> abandon pipelineCtx key (Some (Wrap ''pipeline.skip_debounce.set_state'' err))
             | None \<Rightarrow>
                 pbind (launchAIStage s (ev_ContactID event) (ev_ConversationID event) buffer atts)
                   (\<lambda>_. Done None))))))))"

definition resetDebounce ::
  "('r, 'n) pipelineService \<Rightarrow> ctx \<Rightarrow> MessageEvent \<Rightarrow> ('r, 'n, go_error option) go" where
  "resetDebounce s ctx event =
     pbind (deb_Reset (ps_debounce s) ctx (ev_ContactID event) (ev_ConversationID event)
              (ev_MessageContent event) (ev_Attachments event) (ev_BotConfig event)) (\<lambda>e.
     case e of
       Some err \<Rightarrow> Done (Some (Wrap ''pipeline.debounce.reset'' err))
     | None \<Rightarrow> Done None)"

text \<open>A fresh pipeline for the event, with or without a debounce window.\<close>

definition begin_pipeline ::
  "('r, 'n) pipelineService \<Rightarrow> ctx \<Rightarrow> MessageEvent \<Rightarrow> ('r, 'n, go_error option) go" where
  "begin_pipeline s ctx event =
     (if DebounceTime (ev_BotConfig event) = 0 then skipDebounce s ctx event
      else startDebounce s ctx event)"

text \<open>The \<open>switch\<close> of \<open>Process\<close> on the stored state.\<close>

definition process_state ::
  "('r, 'n) pipelineService \<Rightarrow> ctx \<Rightarrow> MessageEvent \<Rightarrow> PipelineState option \<Rightarrow>
     ('r, 'n, go_error option) go" where
  "process_state s ctx event st =
     (let a = ev_ContactID event; b = ev_ConversationID event;
          stage = map_option st_Stage st
      in if stage = None \<or> stage = Some StageIncoming
         then pbind (cancelPair s a b) (\<lambda>_. begin_pipeline s ctx event)
         else if stage = Some StageDebounce then resetDebounce s ctx event
         else if stage = Some StageAI \<or> stage = Some StageDispatch
         then pbind (cancelPair s a b) (\<lambda>_.
              pbind (repo_ClearState (ps_repo s) ctx a b) (\<lambda>e.
              case e of
                Some err \<Rightarrow> Done (Some (Wrap ''pipeline.process.clear'' err))
              | None \<Rightarrow> begin_pipeline s ctx event))
         else Done None)"

definition Process ::
  "('r, 'n) pipelineService \<Rightarrow> ctx \<Rightarrow> MessageEvent \<Rightarrow> ('r, 'n, go_error option) go" where
  "Process s ctx event =
     pbind (repo_AcquireLock (ps_repo s) ctx (ev_ContactID event) (ev_ConversationID event)) (\<lambda>r.
     case r of
       Inl _ \<Rightarrow> Done (Some ErrLockFailed)
     | Inr mu \<Rightarrow>
         pbind (pbind (repo_GetState (ps_repo s) ctx (ev_ContactID event) (ev_ConversationID event)) (\<lambda>r.
                case r of
                  Inl err \<Rightarrow> Done (Some (Wrap ''pipeline.process.get_state'' err))
                | Inr st \<Rightarrow> process_state s ctx event st))
           (\<lambda>e. pbind (repo_Unlock (ps_repo s) mu) (\<lambda>_. Done e)))"

section \<open>Expired windows\<close>

text \<open>The part of \<open>advanceToAI\<close> under the lock.\<close>

definition advance_locked :: "('r, 'n) pipelineService \<Rightarrow> int64 \<Rightarrow> int64 \<Rightarrow> ('r, 'n, unit) go" where
  "advance_locked s contactID conversationID =
     pbind (repo_GetState (ps_repo s) Background contactID conversationID) (\<lambda>r.
     if \<not> (\<exists>st. r = Inr (Some st) \<and> st_Stage st = StageDebounce) then Done ()
     else pbind (repo_TimerExists (ps_repo s) Background contactID conversationID) (\<lambda>r.
     if r \<noteq> Inr False then Done ()
     else pbind (deb_GetBuffer (ps_debounce s) Background contactID conversationID) (\<lambda>r.
     case r of
       Inl _ \<Rightarrow> Done ()
     | Inr buffer \<Rightarrow>
         pbind (deb_GetAttachments (ps_debounce s) Background contactID conversationID) (\<lambda>r.
         let atts = (case r of Inl _ \<Rightarrow> [] | Inr as \<Rightarrow> as) in
         pbind Now (\<lambda>now.
         pbind (repo_SetState (ps_repo s) Background contactID conversationID (stageState StageAI now)) (\<lambda>e.
         if e \<noteq> None then Done ()
         else launchAIStage s contactID conversationID buffer atts))))))"

definition advanceToAI :: "('r, 'n) pipelineService \<Rightarrow> int64 \<Rightarrow> int64 \<Rightarrow> ('r, 'n, unit) go" where
  "advanceToAI s contactID conversationID =
     pbind (repo_AcquireLock (ps_repo s) Background contactID conversationID) (\<lambda>r.
     case r of
       Inl _ \<Rightarrow> Done ()
     | Inr mu \<Rightarrow>
         pbind (advance_locked s contactID conversationID) (\<lambda>_.
         pbind (repo_Unlock (ps_repo s) mu) (\<lambda>_. Done ())))"

text \<open>
  \<open>sync.Map.Range\<close>: the keys present at the start are visited once each; a key that is gone
  by then is skipped. A key stored meanwhile is not visited, as the package permits.
\<close>

fun visit_keys :: "(pipelineEntry \<Rightarrow> string \<Rightarrow> ('r, 'n, unit) go) \<Rightarrow> string list \<Rightarrow> ('r, 'n, unit) go" where
  "visit_keys f [] = Done ()"
| "visit_keys f (k # ks) =
     pbind (Load k) (\<lambda>v.
     pbind (case v of None \<Rightarrow> Done () | Some entry \<Rightarrow> f entry k) (\<lambda>_. visit_keys f ks))"

definition Range :: "(pipelineEntry \<Rightarrow> string \<Rightarrow> ('r, 'n, unit) go) \<Rightarrow> ('r, 'n, unit) go" where
  "Range f = pbind (get_state (\<lambda>w. remdups (map fst (w_entries w)))) (visit_keys f)"

definition poll_entry :: "('r, 'n) pipelineService \<Rightarrow> pipelineEntry \<Rightarrow> string \<Rightarrow> ('r, 'n, unit) go" where
  "poll_entry s entry key =
     pbind (is_done (en_ctx entry)) (\<lambda>cancelled.
     if cancelled then Done ()
     else
       (case parsePairKey key of (contactID, conversationID) \<Rightarrow>
          if contactID = 0 then Done ()
          else pbind (repo_GetState (ps_repo s) (en_ctx entry) contactID conversationID) (\<lambda>r.
          if \<not> (\<exists>st. r = Inr (Some st) \<and> st_Stage st = StageDebounce) then Done ()
          else pbind (repo_TimerExists (ps_repo s) (en_ctx entry) contactID conversationID) (\<lambda>r.
          if r \<noteq> Inr False then Done ()
          else advanceToAI s contactID conversationID))))"

text \<open>
  The poller runs until the stop channel is closed; \<open>False\<close>: it was still running when the
  fuel, the number of ticks, was used up. When the channel closes at the moment of a tick the
  tick may come first, as if the channel had closed a little later.
\<close>

fun pollDebounceExpiry :: "('r, 'n) pipelineService \<Rightarrow> nat \<Rightarrow> ('r, 'n, bool) go" where
  "pollDebounceExpiry s 0 = Done False"
| "pollDebounceExpiry s (Suc fuel) =
     pbind (emit (EvSleep (100 * Millisecond))) (\<lambda>_.
     pbind (get_state w_stop) (\<lambda>stop.
     if stop then pbind (upd_state (\<lambda>w. w \<lparr> w_stopped := True \<rparr>)) (\<lambda>_. Done True)
     else pbind (Range (poll_entry s)) (\<lambda>_. pollDebounceExpiry s fuel)))"

section \<open>Start and shutdown\<close>

definition recoveredEntry :: "ctx \<Rightarrow> PipelineState \<Rightarrow> pipelineEntry" where
  "recoveredEntry pipelineCtx st = \<lparr> en_ctx = pipelineCtx, en_cfg = st_BotConfig st,
     en_postbackURL = st_PostbackURL st, en_outgoingURL = st_OutgoingURL st,
     en_apiKey = st_ApiKey st, en_metadata = st_Metadata st \<rparr>"

definition recover_pair :: "('r, 'n) pipelineService \<Rightarrow> PairID \<Rightarrow> ('r, 'n, unit) go" where
  "recover_pair s pair =
     (let a = p_ContactID pair; b = p_ConversationID pair in
      pbind (repo_GetState (ps_repo s) Background a b) (\<lambda>r.
      case r of
        Inr (Some st) \<Rightarrow>
          if st_Stage st \<noteq> StageDebounce then Done ()
          else
            pbind (Load (pairKey a b)) (\<lambda>v.
            pbind (case v of
                     None \<Rightarrow>
                       pbind (WithCancel Background) (\<lambda>pipelineCtx.
                       Store (pairKey a b) (recoveredEntry pipelineCtx st))
                   | Some _ \<Rightarrow> Done ()) (\<lambda>_.
            pbind (repo_TimerExists (ps_repo s) Background a b) (\<lambda>r.
            if r = Inr False then advanceToAI s a b else Done ())))
      | _ \<Rightarrow> Done ()))"

fun recover_pairs :: "('r, 'n) pipelineService \<Rightarrow> PairID list \<Rightarrow> ('r, 'n, unit) go" where
  "recover_pairs s [] = Done ()"
| "recover_pairs s (p # ps) = pbind (recover_pair s p) (\<lambda>_. recover_pairs s ps)"

text \<open>\<open>None\<close>: the scan of the keys did not come to an end (see \<open>ScanStates\<close>).\<close>

definition Start :: "('r, 'n) pipelineService \<Rightarrow> ('r, 'n, go_error option option) go" where
  "Start s =
     pbind (repo_ScanStates (ps_repo s) Background 10000) (\<lambda>r.
     case r of
       None \<Rightarrow> Done None
     | Some (Inl err) \<Rightarrow> Done (Some (Some (Wrap ''pipeline.start.scan_states'' err)))
     | Some (Inr pairs) \<Rightarrow>
         pbind (recover_pairs s pairs) (\<lambda>_.
         pbind (go_launch GoPoll) (\<lambda>_. Done (Some None))))"

text \<open>
  The wait at the end of \<open>Shutdown\<close>: the channel that is ready decides, \<open>True\<close> for the poller's
  and \<open>False\<close> for the context; \<open>None\<close> when the fuel is used up and it is still waiting.
\<close>

fun await_stopped :: "ctx \<Rightarrow> nat \<Rightarrow> ('r, 'n, bool option) go" where
  "await_stopped ctx 0 = Done None"
| "await_stopped ctx (Suc fuel) =
     pbind (get_state (\<lambda>w. (w_stopped w, ctx_done w ctx))) (\<lambda>(stopped, expired).
     if stopped then Done (Some True)
     else if expired then Done (Some False)
     else await_stopped ctx fuel)"

definition Shutdown :: "ctx \<Rightarrow> nat \<Rightarrow> ('r, 'n, bool option) go" where
  "Shutdown ctx fuel =
     pbind (Range (\<lambda>entry _. cancel (en_ctx entry))) (\<lambda>_.
     pbind (upd_state (\<lambda>w. w \<lparr> w_stop := True \<rparr>)) (\<lambda>_.
     await_stopped ctx fuel))"

end
