(* ===== verification/Pipeline_Transitions.thy ===== *)
theory Pipeline_Transitions
  imports Pipeline_Service
begin

text \<open>
  What the operations of the pipeline service do to the abstract store, the entries, the
  contexts and the goroutines when nothing interferes, over every repository and debounce
  engine that keep their contracts.
\<close>

lemma wp_I: "(\<And>a es s'. run p s = (a, es, s') \<Longrightarrow> Q a es s') \<Longrightarrow> wp p Q s"
  by (simp add: wp_def split: prod.splits)

section \<open>The machine of one pair\<close>

text \<open>A fresh pipeline: the message joins the buffers, the stage is set.\<close>

definition begun :: "MessageEvent \<Rightarrow> string \<Rightarrow> pair_view \<Rightarrow> pair_view" where
  "begun ev now pv =
     (buffered (ev_MessageContent ev) (ev_Attachments ev) (ev_BotConfig ev) pv) \<lparr> pv_state := Some (norm_state
        (if DebounceTime (ev_BotConfig ev) = 0 then stageState StageAI now else debounceState ev now)) \<rparr>"

text \<open>
  The machine: what a message does to the pair, by its stage. A stage the program does not
  know, and a finished one, swallow the message.
\<close>

definition machine :: "MessageEvent \<Rightarrow> string \<Rightarrow> pair_view \<Rightarrow> pair_view" where
  "machine ev now pv =
     (case map_option st_Stage (pv_state pv) of
        None \<Rightarrow> begun ev now pv
      | Some stage \<Rightarrow>
          if stage = StageIncoming then begun ev now pv
          else if stage = StageDebounce
            then buffered (ev_MessageContent ev) (ev_Attachments ev) (ev_BotConfig ev) pv
          else if stage = StageAI \<or> stage = StageDispatch then begun ev now blank
          else pv)"

text \<open>The stages in which a message starts a pipeline of its own.\<close>

definition restarts :: "pair_view \<Rightarrow> bool" where
  "restarts pv \<longleftrightarrow> (case map_option st_Stage (pv_state pv) of
     None \<Rightarrow> True | Some stage \<Rightarrow> stage \<in> {StageIncoming, StageAI, StageDispatch})"

section \<open>Well-formed contexts\<close>

text \<open>
  Every entry has a context of its own that was issued, and what was not issued is not done.
\<close>

definition ctx_ok :: "('r, 'n) world \<Rightarrow> bool" where
  "ctx_ok w \<longleftrightarrow> (\<forall>i \<ge> w_next_ctx w. w_ctx_err w i = None) \<and>
     (\<forall>k e. entries_Load w k = Some e \<longrightarrow> (\<exists>i < w_next_ctx w. en_ctx e = [i]))"

lemma ctx_okE:
  assumes "ctx_ok w" "entries_Load w k = Some e"
  obtains i where "i < w_next_ctx w" "en_ctx e = [i]"
  using assms unfolding ctx_ok_def by blast

lemma ctx_ok_boot: "ctx_ok (boot_world r n)"
  by (simp add: ctx_ok_def boot_world_def entries_Load_def)

lemma ctx_ok_cong:
  "w_entries w' = w_entries w \<Longrightarrow> w_next_ctx w' = w_next_ctx w \<Longrightarrow> w_ctx_err w' = w_ctx_err w \<Longrightarrow>
     ctx_ok w' = ctx_ok w"
  by (simp only: ctx_ok_def entries_Load_def)

lemma ctx_ok_next [intro]: "ctx_ok w \<Longrightarrow> ctx_ok (w \<lparr> w_next_ctx := Suc (w_next_ctx w) \<rparr>)"
  by (simp add: ctx_ok_def less_Suc_eq) blast

lemma ctx_ok_launch [simp]: "ctx_ok (w \<lparr> w_launched := l \<rparr>) = ctx_ok w"
  by (simp add: ctx_ok_def)

lemma ctx_ok_put [intro]: "ctx_ok w \<Longrightarrow> \<exists>i < w_next_ctx w. en_ctx e = [i] \<Longrightarrow> ctx_ok (entries_put k e w)"
  by (auto simp: ctx_ok_def split: if_splits)

lemma ctx_ok_drop [intro]: "ctx_ok w \<Longrightarrow> ctx_ok (entries_drop k w)"
  by (auto simp: ctx_ok_def split: if_splits)

lemma ctx_ok_finish [intro]: "ctx_ok w \<Longrightarrow> i < w_next_ctx w \<Longrightarrow> ctx_ok (finish_ctx e [i] w)"
  by (simp add: ctx_ok_def finish_ctx_def entries_Load_def)

section \<open>Undisturbed runs of the store's operations\<close>

locale pipeline_store = pipeline_repository repo view sound locked owns +
    deb: debounce_engine deb view sound
  for repo :: "('r, 'n) PipelineRepository" and view sound locked owns
    and deb :: "('r, 'n) DebounceEngine"
begin

lemma wp_SetState:
  assumes "sound w"
    and "\<And>e es w'. sound w' \<Longrightarrow> redis_only w w' \<Longrightarrow>
      changed e (a, b) (pv_state_update (\<lambda>_. Some (norm_state st))) (view w) (view w') \<Longrightarrow> Q e es w'"
  shows "wp (repo_SetState repo c a b st) Q w"
  by (rule wp_I, drule SetState [OF assms(1)], elim conjE, rule assms(2))

lemma wp_ClearState:
  assumes "sound w"
    and "\<And>e es w'. sound w' \<Longrightarrow> redis_only w w' \<Longrightarrow>
      changed e (a, b) (\<lambda>_. blank) (view w) (view w') \<Longrightarrow> Q e es w'"
  shows "wp (repo_ClearState repo c a b) Q w"
  by (rule wp_I, drule ClearState [OF assms(1)], elim conjE, rule assms(2))

lemma wp_GetState:
  assumes "sound w"
    and "\<And>r es w'. sound w' \<Longrightarrow> redis_only w w' \<Longrightarrow> view w' = view w \<Longrightarrow>
      \<forall>x. r = Inr x \<longrightarrow> x = pv_state (view w (a, b)) \<Longrightarrow> Q r es w'"
  shows "wp (repo_GetState repo c a b) Q w"
  by (rule wp_I, drule GetState [OF assms(1)], elim conjE, rule assms(2))

lemma wp_TimerExists:
  assumes "sound w"
    and "\<And>r es w'. sound w' \<Longrightarrow> redis_only w w' \<Longrightarrow> view w' = view w \<Longrightarrow>
      \<forall>x. r = Inr x \<longrightarrow> x = pv_timer (view w (a, b)) \<Longrightarrow> Q r es w'"
  shows "wp (repo_TimerExists repo c a b) Q w"
  by (rule wp_I, drule TimerExists [OF assms(1)], elim conjE, rule assms(2))

lemma wp_AcquireLock:
  assumes "sound w"
    and "\<And>r es w'. sound w' \<Longrightarrow> redis_only w w' \<Longrightarrow> view w' = view w \<Longrightarrow>
      \<forall>m. r = Inr m \<longrightarrow> owns m (a, b) \<and> \<not> locked w (a, b) \<and> locked w' (a, b) \<Longrightarrow> Q r es w'"
  shows "wp (repo_AcquireLock repo c a b) Q w"
  by (rule wp_I, drule AcquireLock [OF assms(1)], elim conjE, rule assms(2))

lemma wp_Unlock:
  assumes "sound w" "owns m p"
    and "\<And>ok es w'. sound w' \<Longrightarrow> redis_only w w' \<Longrightarrow> view w' = view w \<Longrightarrow>
      \<forall>q. q \<noteq> p \<longrightarrow> locked w' q = locked w q \<Longrightarrow> ok \<longrightarrow> \<not> locked w' p \<Longrightarrow> Q ok es w'"
  shows "wp (repo_Unlock repo m) Q w"
  by (rule wp_I, drule Unlock [OF assms(1,2)], elim conjE, rule assms(3))

lemma wp_buffer:
  assumes "sound w"
    and "\<And>e es w'. sound w' \<Longrightarrow> redis_only w w' \<Longrightarrow> only_buffers (a, b) (view w) (view w') \<Longrightarrow>
      e = None \<longrightarrow> view w' = (view w)((a, b) := buffered content atts cfg (view w (a, b))) \<Longrightarrow> Q e es w'"
  shows "wp (deb_Start deb c a b content atts cfg) Q w" "wp (deb_Reset deb c a b content atts cfg) Q w"
  by (rule wp_I, drule deb.Start [OF assms(1)], elim conjE, rule assms(2), assumption+)
    (rule wp_I, drule deb.Reset [OF assms(1)], elim conjE, rule assms(2), assumption+)

lemma wp_GetBuffer:
  assumes "sound w"
    and "\<And>r es w'. sound w' \<Longrightarrow> redis_only w w' \<Longrightarrow> view w' = view w \<Longrightarrow>
      \<forall>x. r = Inr x \<longrightarrow> x = aggregated (view w (a, b)) \<Longrightarrow> Q r es w'"
  shows "wp (deb_GetBuffer deb c a b) Q w"
  by (rule wp_I, drule deb.GetBuffer [OF assms(1)], elim conjE, rule assms(2))

lemma wp_GetAttachments:
  assumes "sound w"
    and "\<And>r es w'. sound w' \<Longrightarrow> redis_only w w' \<Longrightarrow> view w' = view w \<Longrightarrow>
      \<forall>x. r = Inr x \<longrightarrow> x = pv_atts (view w (a, b)) \<Longrightarrow> Q r es w'"
  shows "wp (deb_GetAttachments deb c a b) Q w"
  by (rule wp_I, drule deb.GetAttachments [OF assms(1)], elim conjE, rule assms(2))

lemma view_cong: "w_redis w' = w_redis w \<Longrightarrow> view w' = view w"
  using frame by blast

lemma sound_cong: "w_redis w' = w_redis w \<Longrightarrow> sound w' = sound w"
  using frame by blast

lemma store_frame [simp]:
  "view (w \<lparr> w_next_ctx := n \<rparr>) = view w" "sound (w \<lparr> w_next_ctx := n \<rparr>) = sound w"
  "view (w \<lparr> w_launched := l \<rparr>) = view w" "sound (w \<lparr> w_launched := l \<rparr>) = sound w"
  "view (finish_ctx e c w) = view w" "sound (finish_ctx e c w) = sound w"
  "view (entries_put k x w) = view w" "sound (entries_put k x w) = sound w"
  "view (entries_drop k w) = view w" "sound (entries_drop k w) = sound w"
  by (rule view_cong sound_cong; simp)+

end

section \<open>A fresh pipeline\<close>

text \<open>Only one pair changes, and no context that existed before.\<close>

definition only_pair :: "(('r, 'n) world \<Rightarrow> store) \<Rightarrow> int64 \<Rightarrow> int64 \<Rightarrow> ('r, 'n) world \<Rightarrow> ('r, 'n) world \<Rightarrow> bool" where
  "only_pair view a b w w' \<longleftrightarrow> (\<forall>q. q \<noteq> (a, b) \<longrightarrow> view w' q = view w q) \<and>
     (\<forall>k. k \<noteq> pairKey a b \<longrightarrow> entries_Load w' k = entries_Load w k) \<and>
     w_next_ctx w \<le> w_next_ctx w' \<and> (\<forall>i < w_next_ctx w. w_ctx_err w' i = w_ctx_err w i) \<and>
     w_now w' = w_now w \<and> w_env w' = w_env w"

text \<open>
  The goroutine a message launches at once: the AI stage when there is no debounce window, on
  the aggregated messages, with the collected media unless reading them failed.
\<close>

definition launched_for ::
  "MessageEvent \<Rightarrow> ctx \<Rightarrow> pair_view \<Rightarrow> goroutine list \<Rightarrow> goroutine list \<Rightarrow> bool" where
  "launched_for ev c pv before after \<longleftrightarrow>
     (if DebounceTime (ev_BotConfig ev) = 0
      then (\<exists>atts \<in> {[], pv_atts pv}. after = before @
        [GoAI c (ev_ContactID ev) (ev_ConversationID ev) (aggregated pv) atts (ev_BotConfig ev) (ev_PostbackURL ev)])
      else after = before)"

definition begun_post ::
  "(('r, 'n) world \<Rightarrow> store) \<Rightarrow> MessageEvent \<Rightarrow> go_error option \<Rightarrow> ('r, 'n) world \<Rightarrow> ('r, 'n) world \<Rightarrow> bool" where
  "begun_post view ev e w w' \<longleftrightarrow>
     (let a = ev_ContactID ev; b = ev_ConversationID ev; c = [w_next_ctx w] in
      only_pair view a b w w' \<and>
      (case e of
         None \<Rightarrow>
           view w' (a, b) = begun ev (w_now w) (view w (a, b)) \<and>
           entries_Load w' (pairKey a b) = Some (newEntry c ev) \<and> \<not> ctx_done w' c \<and>
           launched_for ev c (view w' (a, b)) (w_launched w) (w_launched w')
       | Some _ \<Rightarrow>
           entries_Load w' (pairKey a b) = None \<and> ctx_done w' c \<and> w_launched w' = w_launched w))"

text \<open>The world after the entry was stored.\<close>

definition entered :: "MessageEvent \<Rightarrow> ('r, 'n) world \<Rightarrow> ('r, 'n) world" where
  "entered ev w = entries_put (pairKey (ev_ContactID ev) (ev_ConversationID ev))
     (newEntry [w_next_ctx w] ev) (w \<lparr> w_next_ctx := Suc (w_next_ctx w) \<rparr>)"

lemma entered_fields [simp]:
  "w_redis (entered ev w) = w_redis w" "w_launched (entered ev w) = w_launched w"
  "w_next_ctx (entered ev w) = Suc (w_next_ctx w)" "w_now (entered ev w) = w_now w"
  "w_env (entered ev w) = w_env w" "w_ctx_err (entered ev w) = w_ctx_err w"
  by (simp_all add: entered_def)

lemma entered_Load [simp]:
  "entries_Load (entered ev w) k = (if k = pairKey (ev_ContactID ev) (ev_ConversationID ev)
     then Some (newEntry [w_next_ctx w] ev) else entries_Load w k)"
  by (simp add: entered_def)

lemma entered_ok: "ctx_ok w \<Longrightarrow> ctx_ok (entered ev w)"
  unfolding entered_def by (intro ctx_ok_put ctx_ok_next) (simp_all add: newEntry_def)

text \<open>Where a pipeline stands while it is being set up: only the store has moved.\<close>

definition setting_up ::
  "(('r, 'n) world \<Rightarrow> store) \<Rightarrow> MessageEvent \<Rightarrow> ('r, 'n) world \<Rightarrow> ('r, 'n) world \<Rightarrow> bool" where
  "setting_up view ev w w1 \<longleftrightarrow> redis_only (entered ev w) w1 \<and>
     (\<forall>q. q \<noteq> (ev_ContactID ev, ev_ConversationID ev) \<longrightarrow> view w1 q = view w q)"

lemma setting_up_fields:
  assumes "setting_up view ev w w1"
  shows "w_launched w1 = w_launched w" "w_next_ctx w1 = Suc (w_next_ctx w)" "w_now w1 = w_now w"
    "w_env w1 = w_env w" "w_ctx_err w1 = w_ctx_err w"
    "entries_Load w1 k = entries_Load (entered ev w) k"
  using assms redis_only_fields [of "entered ev w" w1] entries_Load_cong [of w1 "entered ev w"]
  by (simp_all add: setting_up_def)

lemma setting_up_ok: "setting_up view ev w w1 \<Longrightarrow> ctx_ok w \<Longrightarrow> ctx_ok w1"
  using entered_ok [of w ev] redis_only_fields [of "entered ev w" w1] ctx_ok_cong [of w1 "entered ev w"]
  by (simp add: setting_up_def)

lemma setting_up_step:
  "setting_up view ev w w1 \<Longrightarrow> redis_only w1 w2 \<Longrightarrow>
     (\<And>q. q \<noteq> (ev_ContactID ev, ev_ConversationID ev) \<Longrightarrow> view w2 q = view w1 q) \<Longrightarrow> setting_up view ev w w2"
  by (auto simp: setting_up_def intro: redis_only_trans)

lemma setting_up_only_pair:
  "setting_up view ev w w1 \<Longrightarrow> only_pair view (ev_ContactID ev) (ev_ConversationID ev) w w1"
  by (simp add: only_pair_def setting_up_fields) (simp add: setting_up_def)

lemma setting_up_live: "setting_up view ev w w1 \<Longrightarrow> ctx_ok w \<Longrightarrow> \<not> ctx_done w1 [w_next_ctx w]"
  by (simp add: ctx_done_iff setting_up_fields ctx_ok_def)

context pipeline_store
begin

lemma wp_abandon:
  assumes "sound w1" "setting_up view ev w w1" "ctx_ok w"
  shows "wp (abandon [w_next_ctx w] (pairKey (ev_ContactID ev) (ev_ConversationID ev)) (Some err))
    (\<lambda>e es w'. sound w' \<and> ctx_ok w' \<and> begun_post view ev e w w') w1"
proof -
  let ?k = "pairKey (ev_ContactID ev) (ev_ConversationID ev)" and ?c = "[w_next_ctx w]"
  let ?w' = "entries_drop ?k (finish_ctx Canceled ?c w1)"
  note f = setting_up_fields [OF assms(2)]
  have "ctx_ok (finish_ctx Canceled ?c w1)"
    using setting_up_ok [OF assms(2,3)] by (rule ctx_ok_finish) (simp add: f)
  then have ok: "ctx_ok ?w'" by (rule ctx_ok_drop)
  have gone: "ctx_done ?w' ?c" by (simp add: ctx_done_iff finish_ctx_def)
  have "\<forall>i < w_next_ctx w. w_ctx_err ?w' i = w_ctx_err w i" by (simp add: finish_ctx_def f)
  then have "only_pair view (ev_ContactID ev) (ev_ConversationID ev) w ?w'"
    using setting_up_only_pair [OF assms(2)] by (simp add: only_pair_def f)
  with ok gone assms(1) show ?thesis
    by (simp add: abandon_def wp_steps begun_post_def Let_def f)
qed

text \<open>The two writes both ways of starting share: the message, and the stage.\<close>

lemma wp_first_message:
  fixes m :: string
  assumes "sound w" "ctx_ok w"
    and "\<And>w1. sound w1 \<Longrightarrow> setting_up view ev w w1 \<Longrightarrow>
      view w1 = (view w)((ev_ContactID ev, ev_ConversationID ev) := buffered (ev_MessageContent ev)
        (ev_Attachments ev) (ev_BotConfig ev) (view w (ev_ContactID ev, ev_ConversationID ev))) \<Longrightarrow>
      wp k (\<lambda>e es w'. sound w' \<and> ctx_ok w' \<and> begun_post view ev e w w') w1"
  shows "wp (pbind (deb_Start deb c (ev_ContactID ev) (ev_ConversationID ev) (ev_MessageContent ev)
        (ev_Attachments ev) (ev_BotConfig ev)) (\<lambda>e. case e of
        Some err \<Rightarrow> abandon [w_next_ctx w] (pairKey (ev_ContactID ev) (ev_ConversationID ev)) (Some (Wrap m err))
      | None \<Rightarrow> k)) (\<lambda>e es w'. sound w' \<and> ctx_ok w' \<and> begun_post view ev e w w') (entered ev w)"
  unfolding wp_bind
proof (rule wp_buffer)
  show s0: "sound (entered ev w)" using assms(1) by (simp add: entered_def)
  have u0: "setting_up view ev w (entered ev w)" by (simp add: setting_up_def entered_def)
  fix e :: "go_error option" and es w1
  assume s1: "sound w1" and r1: "redis_only (entered ev w) w1"
    and v1: "only_buffers (ev_ContactID ev, ev_ConversationID ev) (view (entered ev w)) (view w1)"
    and b1: "e = None \<longrightarrow> view w1 = (view (entered ev w))((ev_ContactID ev, ev_ConversationID ev) :=
      buffered (ev_MessageContent ev) (ev_Attachments ev) (ev_BotConfig ev)
        (view (entered ev w) (ev_ContactID ev, ev_ConversationID ev)))"
  have u1: "setting_up view ev w w1"
    using v1 unfolding only_buffers_def by (intro setting_up_step [OF u0 r1]) blast
  show "wp (case e of
        Some err \<Rightarrow> abandon [w_next_ctx w] (pairKey (ev_ContactID ev) (ev_ConversationID ev)) (Some (Wrap m err))
      | None \<Rightarrow> k) (\<lambda>e es' w'. sound w' \<and> ctx_ok w' \<and> begun_post view ev e w w') w1"
    using wp_abandon [OF s1 u1 assms(2)] assms(3) [OF s1 u1] b1
    by (cases e) (simp_all add: entered_def)
qed

lemma wp_set_stage:
  fixes m :: string
  assumes "sound w1" "setting_up view ev w w1" "ctx_ok w"
    and "\<And>w2. sound w2 \<Longrightarrow> setting_up view ev w w2 \<Longrightarrow>
      view w2 (ev_ContactID ev, ev_ConversationID ev) =
        (view w1 (ev_ContactID ev, ev_ConversationID ev)) \<lparr> pv_state := Some (norm_state (st (w_now w))) \<rparr> \<Longrightarrow>
      wp k (\<lambda>e es w'. sound w' \<and> ctx_ok w' \<and> begun_post view ev e w w') w2"
  shows "wp (pbind Now (\<lambda>now. pbind (repo_SetState repo c (ev_ContactID ev) (ev_ConversationID ev) (st now)) (\<lambda>e.
        case e of
          Some err \<Rightarrow> abandon [w_next_ctx w] (pairKey (ev_ContactID ev) (ev_ConversationID ev)) (Some (Wrap m err))
        | None \<Rightarrow> k))) (\<lambda>e es w'. sound w' \<and> ctx_ok w' \<and> begun_post view ev e w w') w1"
  unfolding wp_bind wp_reads
proof (rule wp_SetState [OF assms(1)])
  fix e es w2
  assume s2: "sound w2" and r2: "redis_only w1 w2" and
    v2: "changed e (ev_ContactID ev, ev_ConversationID ev)
      (pv_state_update (\<lambda>_. Some (norm_state (st (w_now w1))))) (view w1) (view w2)"
  have u2: "setting_up view ev w w2"
    using v2 by (intro setting_up_step [OF assms(2) r2]) (auto dest: changed_other)
  show "wp (case e of
        Some err \<Rightarrow> abandon [w_next_ctx w] (pairKey (ev_ContactID ev) (ev_ConversationID ev)) (Some (Wrap m err))
      | None \<Rightarrow> k) (\<lambda>e es' w'. sound w' \<and> ctx_ok w' \<and> begun_post view ev e w w') w2"
    using wp_abandon [OF s2 u2 assms(3)] assms(4) [OF s2 u2] v2 setting_up_fields(3) [OF assms(2)]
    by (cases e) simp_all
qed

lemma wp_startDebounce:
  assumes "sound w" "ctx_ok w" "DebounceTime (ev_BotConfig ev) \<noteq> 0" "ps_repo s = repo" "ps_debounce s = deb"
  shows "wp (startDebounce s c ev) (\<lambda>e es w'. sound w' \<and> ctx_ok w' \<and> begun_post view ev e w w') w"
proof -
  have "wp (Done None) (\<lambda>e es w'. sound w' \<and> ctx_ok w' \<and> begun_post view ev e w w') w2"
    if "sound w2" "setting_up view ev w w2"
      "view w2 (ev_ContactID ev, ev_ConversationID ev) = begun ev (w_now w) (view w (ev_ContactID ev, ev_ConversationID ev))"
    for w2
    using that assms(2,3) setting_up_ok [OF that(2)] setting_up_only_pair [OF that(2)]
      setting_up_live [OF that(2)]
    by (simp add: wp_steps begun_post_def Let_def launched_for_def setting_up_fields [OF that(2)])
  then show ?thesis
    unfolding startDebounce_def Let_def wp_bind [of "WithCancel Background"] wp_WithCancel
      wp_bind [of "Store k e" for k e] wp_entries assms(4,5) entered_def [symmetric]
    using assms(1-3) by (intro wp_first_message wp_set_stage) (simp_all add: begun_def)
qed

lemma wp_launchAIStage:
  "wp (launchAIStage s a b buffer atts) Q w =
     (case entries_Load w (pairKey a b) of
        None \<Rightarrow> Q () [] w
      | Some entry \<Rightarrow> let g = GoAI (en_ctx entry) a b buffer atts (en_cfg entry) (en_postbackURL entry)
          in Q () [EvGo g] (w \<lparr> w_launched := w_launched w @ [g] \<rparr>))"
  by (simp add: launchAIStage_def wp_steps Let_def split: option.split)

end

context pipeline_store
begin

lemma wp_skipDebounce:
  assumes "sound w" "ctx_ok w" "DebounceTime (ev_BotConfig ev) = 0" "ps_repo s = repo" "ps_debounce s = deb"
  shows "wp (skipDebounce s c ev) (\<lambda>e es w'. sound w' \<and> ctx_ok w' \<and> begun_post view ev e w w') w"
proof -
  let ?a = "ev_ContactID ev" and ?b = "ev_ConversationID ev" and ?c = "[w_next_ctx w]"
  let ?full = "buffered (ev_MessageContent ev) (ev_Attachments ev) (ev_BotConfig ev) (view w (?a, ?b))"
  have launched: "wp (pbind (launchAIStage s ?a ?b buffer atts) (\<lambda>_. Done None))
      (\<lambda>e es w'. sound w' \<and> ctx_ok w' \<and> begun_post view ev e w w') w2"
    if "sound w2" and u: "setting_up view ev w w2" and "view w2 (?a, ?b) = begun ev (w_now w) (view w (?a, ?b))"
      and "buffer = aggregated ?full" "atts \<in> {[], pv_atts ?full}" for w2 buffer atts
  proof -
    let ?g = "GoAI ?c ?a ?b buffer atts (ev_BotConfig ev) (ev_PostbackURL ev)"
    have "begun_post view ev None w (w2 \<lparr> w_launched := w_launched w2 @ [?g] \<rparr>)"
      using that(3-) assms(3) setting_up_only_pair [OF u] setting_up_live [OF u assms(2)]
      by (auto simp: begun_post_def Let_def only_pair_def launched_for_def setting_up_fields [OF u]
          ctx_done_iff aggregated_def begun_def)
    then show ?thesis
      using that(1) setting_up_ok [OF u assms(2)]
      by (simp add: wp_bind wp_launchAIStage wp_Done setting_up_fields [OF u] Let_def newEntry_def)
  qed
  have set: "wp (pbind Now (\<lambda>now. pbind (repo_SetState repo c ?a ?b (stageState StageAI now)) (\<lambda>e.
        case e of
          Some err \<Rightarrow> abandon ?c (pairKey ?a ?b) (Some (Wrap ''pipeline.skip_debounce.set_state'' err))
        | None \<Rightarrow> pbind (launchAIStage s ?a ?b buffer atts) (\<lambda>_. Done None))))
      (\<lambda>e es w'. sound w' \<and> ctx_ok w' \<and> begun_post view ev e w w') w3"
    if "sound w3" "setting_up view ev w w3" "view w3 = (view w)((?a, ?b) := ?full)"
      "buffer = aggregated ?full" "atts \<in> {[], pv_atts ?full}" for w3 buffer atts
    using that assms(2,3) by (intro wp_set_stage launched) (simp_all add: begun_def)
  have attachments: "wp (pbind (deb_GetAttachments deb c ?a ?b) (\<lambda>r.
        pbind Now (\<lambda>now. pbind (repo_SetState repo c ?a ?b (stageState StageAI now)) (\<lambda>e.
        case e of
          Some err \<Rightarrow> abandon ?c (pairKey ?a ?b) (Some (Wrap ''pipeline.skip_debounce.set_state'' err))
        | None \<Rightarrow> pbind (launchAIStage s ?a ?b buffer (case r of Inl _ \<Rightarrow> [] | Inr as \<Rightarrow> as)) (\<lambda>_. Done None)))))
      (\<lambda>e es w'. sound w' \<and> ctx_ok w' \<and> begun_post view ev e w w') w2"
    if "sound w2" and u: "setting_up view ev w w2" and v: "view w2 = (view w)((?a, ?b) := ?full)"
      "buffer = aggregated ?full" for w2 buffer
    unfolding wp_bind [of "deb_GetAttachments deb c ?a ?b"]
  proof (rule wp_GetAttachments [OF that(1)])
    fix r es w3
    assume s3: "sound w3" and r3: "redis_only w2 w3" and v3: "view w3 = view w2"
      and "\<forall>x. r = Inr x \<longrightarrow> x = pv_atts (view w2 (?a, ?b))"
    then have "(case r of Inl _ \<Rightarrow> [] | Inr as \<Rightarrow> as) \<in> {[], pv_atts ?full}"
      by (cases r) (simp_all add: v)
    moreover have "setting_up view ev w w3" using v3 by (intro setting_up_step [OF u r3]) simp
    ultimately show "wp (pbind Now (\<lambda>now. pbind (repo_SetState repo c ?a ?b (stageState StageAI now)) (\<lambda>e.
        case e of
          Some err \<Rightarrow> abandon ?c (pairKey ?a ?b) (Some (Wrap ''pipeline.skip_debounce.set_state'' err))
        | None \<Rightarrow> pbind (launchAIStage s ?a ?b buffer (case r of Inl _ \<Rightarrow> [] | Inr as \<Rightarrow> as)) (\<lambda>_. Done None))))
      (\<lambda>b es' w'. sound w' \<and> ctx_ok w' \<and> begun_post view ev b w w') w3"
      using s3 v3 v by (intro set) simp_all
  qed
  have "wp (pbind (deb_GetBuffer deb c ?a ?b) (\<lambda>r. case r of
         Inl err \<Rightarrow> abandon ?c (pairKey ?a ?b) (Some (Wrap ''pipeline.skip_debounce.get_buffer'' err))
       | Inr buffer \<Rightarrow> pbind (deb_GetAttachments deb c ?a ?b) (\<lambda>r.
          pbind Now (\<lambda>now. pbind (repo_SetState repo c ?a ?b (stageState StageAI now)) (\<lambda>e.
          case e of
            Some err \<Rightarrow> abandon ?c (pairKey ?a ?b) (Some (Wrap ''pipeline.skip_debounce.set_state'' err))
          | None \<Rightarrow> pbind (launchAIStage s ?a ?b buffer (case r of Inl _ \<Rightarrow> [] | Inr as \<Rightarrow> as)) (\<lambda>_. Done None))))))
      (\<lambda>e es w'. sound w' \<and> ctx_ok w' \<and> begun_post view ev e w w') w1"
    if "sound w1" and u: "setting_up view ev w w1" and v: "view w1 = (view w)((?a, ?b) := ?full)" for w1
    unfolding wp_bind [of "deb_GetBuffer deb c ?a ?b"]
  proof (rule wp_GetBuffer [OF that(1)])
    fix r :: "go_error + string" and es w2
    assume s2: "sound w2" and r2: "redis_only w1 w2" and v2: "view w2 = view w1"
      and b2: "\<forall>x. r = Inr x \<longrightarrow> x = aggregated (view w1 (?a, ?b))"
    have u2: "setting_up view ev w w2" using v2 by (intro setting_up_step [OF u r2]) simp
    show "wp (case r of
         Inl err \<Rightarrow> abandon ?c (pairKey ?a ?b) (Some (Wrap ''pipeline.skip_debounce.get_buffer'' err))
       | Inr buffer \<Rightarrow> pbind (deb_GetAttachments deb c ?a ?b) (\<lambda>r.
          pbind Now (\<lambda>now. pbind (repo_SetState repo c ?a ?b (stageState StageAI now)) (\<lambda>e.
          case e of
            Some err \<Rightarrow> abandon ?c (pairKey ?a ?b) (Some (Wrap ''pipeline.skip_debounce.set_state'' err))
          | None \<Rightarrow> pbind (launchAIStage s ?a ?b buffer (case r of Inl _ \<Rightarrow> [] | Inr as \<Rightarrow> as)) (\<lambda>_. Done None)))))
      (\<lambda>b es' w'. sound w' \<and> ctx_ok w' \<and> begun_post view ev b w w') w2"
    proof (cases r)
      case (Inl err)
      then show ?thesis using wp_abandon [OF s2 u2 assms(2)] by simp
    next
      case (Inr buffer)
      then show ?thesis using b2 v2 v attachments [OF s2 u2] by simp
    qed
  qed
  then show ?thesis
    unfolding skipDebounce_def Let_def wp_bind [of "WithCancel Background"] wp_WithCancel
      wp_bind [of "Store k e" for k e] wp_entries assms(4,5) entered_def [symmetric]
    using assms(1,2) by (intro wp_first_message)
qed

lemma wp_begin:
  assumes "sound w" "ctx_ok w" "ps_repo s = repo" "ps_debounce s = deb"
  shows "wp (begin_pipeline s c ev) (\<lambda>e es w'. sound w' \<and> ctx_ok w' \<and> begun_post view ev e w w') w"
  using assms wp_skipDebounce wp_startDebounce by (simp add: begin_pipeline_def)

end

section \<open>Process\<close>

text \<open>The old pipeline of a pair is cancelled and forgotten.\<close>

definition cancelled_pair :: "int64 \<Rightarrow> int64 \<Rightarrow> ('r, 'n) world \<Rightarrow> ('r, 'n) world" where
  "cancelled_pair a b w =
     (case entries_Load w (pairKey a b) of
        None \<Rightarrow> entries_drop (pairKey a b) w
      | Some entry \<Rightarrow> finish_ctx Canceled (en_ctx entry) (entries_drop (pairKey a b) w))"

lemma wp_cancelPair:
  "ctx_ok w \<Longrightarrow> (\<And>es. Q () es (cancelled_pair a b w)) \<Longrightarrow> wp (cancelPair s a b) Q w"
  by (auto simp: cancelPair_def cancelled_pair_def wp_steps split: option.splits)

lemma cancelled_pair_fields [simp]:
  "w_redis (cancelled_pair a b w) = w_redis w" "w_launched (cancelled_pair a b w) = w_launched w"
  "w_next_ctx (cancelled_pair a b w) = w_next_ctx w" "w_now (cancelled_pair a b w) = w_now w"
  "w_env (cancelled_pair a b w) = w_env w"
  "entries_Load (cancelled_pair a b w) k = (if k = pairKey a b then None else entries_Load w k)"
  by (auto simp: cancelled_pair_def split: option.splits)

lemma cancelled_pair_ok:
  assumes "ctx_ok w"
  shows "ctx_ok (cancelled_pair a b w)"
proof (cases "entries_Load w (pairKey a b)")
  case None
  with assms show ?thesis by (simp add: cancelled_pair_def ctx_ok_drop)
next
  case (Some x)
  with assms obtain i where "i < w_next_ctx w" "en_ctx x = [i]" by (rule ctx_okE)
  with Some assms show ?thesis by (simp add: cancelled_pair_def ctx_ok_drop ctx_ok_finish)
qed

lemma cancelled_pair_err:
  assumes "ctx_ok w" "\<forall>entry. entries_Load w (pairKey a b) = Some entry \<longrightarrow> en_ctx entry \<noteq> [i]"
  shows "w_ctx_err (cancelled_pair a b w) i = w_ctx_err w i"
proof (cases "entries_Load w (pairKey a b)")
  case None
  then show ?thesis by (simp add: cancelled_pair_def)
next
  case (Some x)
  with assms(1) obtain j where "en_ctx x = [j]" by (rule ctx_okE)
  moreover from this Some assms(2) have "i \<noteq> j" by auto
  ultimately show ?thesis using Some by (simp add: cancelled_pair_def finish_ctx_def)
qed

text \<open>What is left alone when the entry of a pair may be cancelled.\<close>

definition others_kept ::
  "(('r, 'n) world \<Rightarrow> store) \<Rightarrow> int64 \<Rightarrow> int64 \<Rightarrow> ('r, 'n) world \<Rightarrow> ('r, 'n) world \<Rightarrow> bool" where
  "others_kept view a b w w' \<longleftrightarrow> (\<forall>q. q \<noteq> (a, b) \<longrightarrow> view w' q = view w q) \<and>
     (\<forall>k. k \<noteq> pairKey a b \<longrightarrow> entries_Load w' k = entries_Load w k) \<and>
     w_next_ctx w \<le> w_next_ctx w' \<and> w_now w' = w_now w \<and> w_env w' = w_env w \<and>
     (\<forall>i < w_next_ctx w. (\<forall>entry. entries_Load w (pairKey a b) = Some entry \<longrightarrow> en_ctx entry \<noteq> [i]) \<longrightarrow>
        w_ctx_err w' i = w_ctx_err w i)"

definition process_post ::
  "(('r, 'n) world \<Rightarrow> store) \<Rightarrow> MessageEvent \<Rightarrow> go_error option \<Rightarrow> ('r, 'n) world \<Rightarrow> ('r, 'n) world \<Rightarrow> bool" where
  "process_post view ev e w w' \<longleftrightarrow>
     (let a = ev_ContactID ev; b = ev_ConversationID ev; k = pairKey a b; c = [w_next_ctx w];
          pv = view w (a, b) in
      others_kept view a b w w' \<and>
      (e \<noteq> None \<longrightarrow> w_launched w' = w_launched w) \<and>
      (e = None \<longrightarrow> view w' (a, b) = machine ev (w_now w) pv \<and>
        (if restarts pv
         then (\<forall>old. entries_Load w k = Some old \<longrightarrow> ctx_done w' (en_ctx old)) \<and>
           entries_Load w' k = Some (newEntry c ev) \<and> \<not> ctx_done w' c \<and>
           launched_for ev c (view w' (a, b)) (w_launched w) (w_launched w')
         else entries_Load w' k = entries_Load w k \<and> w_launched w' = w_launched w \<and>
           w_ctx_err w' = w_ctx_err w)))"

text \<open>A pipeline that begins after the old one was cancelled.\<close>

lemma begun_restarts:
  assumes "begun_post view ev e w1 w'" "ctx_ok w"
    and "w_ctx_err w1 = w_ctx_err (cancelled_pair (ev_ContactID ev) (ev_ConversationID ev) w)"
    and "\<And>k. entries_Load w1 k = entries_Load (cancelled_pair (ev_ContactID ev) (ev_ConversationID ev) w) k"
    and "w_next_ctx w1 = w_next_ctx w" "w_now w1 = w_now w" "w_env w1 = w_env w" "w_launched w1 = w_launched w"
    and "\<forall>q. q \<noteq> (ev_ContactID ev, ev_ConversationID ev) \<longrightarrow> view w1 q = view w q"
    and "restarts (view w (ev_ContactID ev, ev_ConversationID ev))"
    and "begun ev (w_now w) (view w1 (ev_ContactID ev, ev_ConversationID ev)) =
      machine ev (w_now w) (view w (ev_ContactID ev, ev_ConversationID ev))"
  shows "process_post view ev e w w'"
proof -
  let ?a = "ev_ContactID ev" and ?b = "ev_ConversationID ev"
  let ?wc = "cancelled_pair ?a ?b w"
  have err: "\<forall>i < w_next_ctx w. w_ctx_err w' i = w_ctx_err ?wc i"
    using assms(1,3,5) by (simp add: begun_post_def Let_def only_pair_def)
  have kept: "w_ctx_err ?wc i = w_ctx_err w i"
    if "\<forall>entry. entries_Load w (pairKey ?a ?b) = Some entry \<longrightarrow> en_ctx entry \<noteq> [i]" for i
    using assms(2) that by (rule cancelled_pair_err)
  have old: "ctx_done w' (en_ctx x)" if x: "entries_Load w (pairKey ?a ?b) = Some x" for x
  proof -
    obtain i where i: "i < w_next_ctx w" "en_ctx x = [i]" using assms(2) x by (rule ctx_okE)
    have "ctx_done ?wc [i]" using x i by (simp add: cancelled_pair_def finish_ctx_done)
    with err i show ?thesis by (simp add: ctx_done_iff)
  qed
  have "others_kept view ?a ?b w w'"
    using assms err kept by (simp add: begun_post_def Let_def only_pair_def others_kept_def)
  moreover have "e \<noteq> None \<longrightarrow> w_launched w' = w_launched w"
    using assms(1,8) by (auto simp: begun_post_def Let_def)
  ultimately show ?thesis
    using assms(1,5-8,10,11) old unfolding process_post_def Let_def begun_post_def
    by (cases e) (simp_all, elim conjE, simp)
qed

lemma process_post_cong:
  assumes "process_post view ev e w1 w2" "redis_only w w1" "view w1 = view w"
    and "redis_only w2 w'" "view w' = view w2"
  shows "process_post view ev e w w'"
proof -
  note f = redis_only_fields [OF assms(2)] redis_only_fields [OF assms(4)]
  have "entries_Load w1 k = entries_Load w k" "entries_Load w' k = entries_Load w2 k" for k
    using f by (simp_all add: entries_Load_def)
  moreover have "ctx_done w' c = ctx_done w2 c" for c using f by (simp add: ctx_done_iff)
  ultimately show ?thesis
    using assms(1,3,5) f unfolding process_post_def others_kept_def Let_def
    by (cases "restarts (view w (ev_ContactID ev, ev_ConversationID ev))"; elim conjE; simp)
qed

lemma process_post_refl_error: "e \<noteq> None \<Longrightarrow> process_post view ev e w w"
  by (cases e) (simp_all add: process_post_def Let_def others_kept_def)

context pipeline_store
begin

lemma wp_fresh:
  assumes "sound w" "ctx_ok w" "ps_repo s = repo" "ps_debounce s = deb"
    and "machine ev (w_now w) (view w (ev_ContactID ev, ev_ConversationID ev))
      = begun ev (w_now w) (view w (ev_ContactID ev, ev_ConversationID ev))"
    and "restarts (view w (ev_ContactID ev, ev_ConversationID ev))"
  shows "wp (pbind (cancelPair s (ev_ContactID ev) (ev_ConversationID ev)) (\<lambda>_. begin_pipeline s c ev))
    (\<lambda>e es w'. sound w' \<and> ctx_ok w' \<and> process_post view ev e w w') w"
proof -
  let ?wc = "cancelled_pair (ev_ContactID ev) (ev_ConversationID ev) w"
  have vc: "view ?wc = view w" by (rule view_cong) simp
  have sc: "sound ?wc" using assms(1) sound_cong [of ?wc w] by simp
  have "process_post view ev e w w'" if "begun_post view ev e ?wc w'" for e w'
    using assms(5,6) by (intro begun_restarts [OF that assms(2)]) (simp_all add: vc)
  then have "wp (begin_pipeline s c ev) (\<lambda>e es w'. sound w' \<and> ctx_ok w' \<and> process_post view ev e w w') ?wc"
    by (intro wp_mono [OF wp_begin [OF sc cancelled_pair_ok [OF assms(2)] assms(3,4)]]) blast
  then show ?thesis unfolding wp_bind by (intro wp_cancelPair assms(2))
qed

lemma wp_reset:
  assumes "sound w" "ctx_ok w" "ps_debounce s = deb"
    and "machine ev (w_now w) (view w (ev_ContactID ev, ev_ConversationID ev)) =
      buffered (ev_MessageContent ev) (ev_Attachments ev) (ev_BotConfig ev)
        (view w (ev_ContactID ev, ev_ConversationID ev))"
    and "\<not> restarts (view w (ev_ContactID ev, ev_ConversationID ev))"
  shows "wp (resetDebounce s c ev) (\<lambda>e es w'. sound w' \<and> ctx_ok w' \<and> process_post view ev e w w') w"
  unfolding resetDebounce_def assms(3) wp_bind
proof (rule wp_buffer [OF assms(1)])
  let ?a = "ev_ContactID ev" and ?b = "ev_ConversationID ev"
  fix e :: "go_error option" and es w1
  assume s1: "sound w1" and r1: "redis_only w w1" and v1: "only_buffers (?a, ?b) (view w) (view w1)"
    and b1: "e = None \<longrightarrow> view w1 = (view w)((?a, ?b) :=
      buffered (ev_MessageContent ev) (ev_Attachments ev) (ev_BotConfig ev) (view w (?a, ?b)))"
  note f = redis_only_fields [OF r1]
  have ld: "entries_Load w1 k = entries_Load w k" for k using f by (simp add: entries_Load_def)
  have kept: "others_kept view ?a ?b w w1"
    using v1 f ld unfolding others_kept_def only_buffers_def by simp
  have ok: "ctx_ok w1" using assms(2) f ctx_ok_cong [of w1 w] by simp
  have "process_post view ev (map_option (Wrap ''pipeline.debounce.reset'') e) w w1"
    using kept b1 assms(4,5) f ld by (cases e) (simp_all add: process_post_def Let_def)
  with s1 ok show "wp (case e of Some err \<Rightarrow> Done (Some (Wrap ''pipeline.debounce.reset'' err)) | None \<Rightarrow> Done None)
    (\<lambda>b es' w'. sound w' \<and> ctx_ok w' \<and> process_post view ev b w w') w1"
    by (cases e) (simp_all add: wp_Done)
qed

lemma wp_interrupt:
  assumes "sound w" "ctx_ok w" "ps_repo s = repo" "ps_debounce s = deb"
    and "machine ev (w_now w) (view w (ev_ContactID ev, ev_ConversationID ev)) = begun ev (w_now w) blank"
    and "restarts (view w (ev_ContactID ev, ev_ConversationID ev))"
  shows "wp (pbind (cancelPair s (ev_ContactID ev) (ev_ConversationID ev)) (\<lambda>_.
      pbind (repo_ClearState repo c (ev_ContactID ev) (ev_ConversationID ev)) (\<lambda>e. case e of
        Some err \<Rightarrow> Done (Some (Wrap ''pipeline.process.clear'' err)) | None \<Rightarrow> begin_pipeline s c ev)))
    (\<lambda>e es w'. sound w' \<and> ctx_ok w' \<and> process_post view ev e w w') w"
proof -
  let ?a = "ev_ContactID ev" and ?b = "ev_ConversationID ev"
  let ?wc = "cancelled_pair ?a ?b w"
  have vc: "view ?wc = view w" by (rule view_cong) simp
  have sc: "sound ?wc" using assms(1) sound_cong [of ?wc w] by simp
  have "wp (pbind (repo_ClearState repo c ?a ?b) (\<lambda>e. case e of
      Some err \<Rightarrow> Done (Some (Wrap ''pipeline.process.clear'' err)) | None \<Rightarrow> begin_pipeline s c ev))
    (\<lambda>e es w'. sound w' \<and> ctx_ok w' \<and> process_post view ev e w w') ?wc"
    unfolding wp_bind
  proof (rule wp_ClearState [OF sc])
    fix e es w1
    assume s1: "sound w1" and r1: "redis_only ?wc w1" and v1: "changed e (?a, ?b) (\<lambda>_. blank) (view ?wc) (view w1)"
    note f = redis_only_fields [OF r1]
    have ld: "entries_Load w1 k = entries_Load ?wc k" for k using f by (simp add: entries_Load_def)
    have ok: "ctx_ok w1" using cancelled_pair_ok [OF assms(2)] f ctx_ok_cong [of w1 ?wc] by simp
    show "wp (case e of Some err \<Rightarrow> Done (Some (Wrap ''pipeline.process.clear'' err))
        | None \<Rightarrow> begin_pipeline s c ev) (\<lambda>b es' w'. sound w' \<and> ctx_ok w' \<and> process_post view ev b w w') w1"
    proof (cases e)
      case None
      have v: "view w1 (?a, ?b) = blank" "\<forall>q. q \<noteq> (?a, ?b) \<longrightarrow> view w1 q = view w q"
        using v1 None by (simp_all add: vc)
      have "process_post view ev e w w'" if "begun_post view ev e w1 w'" for e w'
        using assms(5,6) v f by (intro begun_restarts [OF that assms(2)]) (simp_all add: ld)
      then have "wp (begin_pipeline s c ev) (\<lambda>b es' w'. sound w' \<and> ctx_ok w' \<and> process_post view ev b w w') w1"
        by (intro wp_mono [OF wp_begin [OF s1 ok assms(3,4)]]) blast
      with None show ?thesis by simp
    next
      case (Some err)
      have "\<forall>q. q \<noteq> (?a, ?b) \<longrightarrow> view w1 q = view w q" using changed_other [OF v1] by (simp add: vc)
      then have "others_kept view ?a ?b w w1"
        using f cancelled_pair_err [OF assms(2)] unfolding others_kept_def ld by simp
      with Some s1 ok f show ?thesis by (simp add: wp_Done process_post_def Let_def)
    qed
  qed
  then show ?thesis unfolding wp_bind [of "cancelPair s ?a ?b"] by (intro wp_cancelPair assms(2))
qed

lemma wp_process_state:
  assumes "sound w" "ctx_ok w" "ps_repo s = repo" "ps_debounce s = deb"
    and "st = pv_state (view w (ev_ContactID ev, ev_ConversationID ev))"
  shows "wp (process_state s c ev st) (\<lambda>e es w'. sound w' \<and> ctx_ok w' \<and> process_post view ev e w w') w"
proof -
  let ?pv = "view w (ev_ContactID ev, ev_ConversationID ev)" and ?stage = "map_option st_Stage st"
  consider (fresh) "?stage = None \<or> ?stage = Some StageIncoming" | (debounce) "?stage = Some StageDebounce"
    | (active) "?stage = Some StageAI \<or> ?stage = Some StageDispatch"
    | (other) stage where "?stage = Some stage" "stage \<notin> {StageIncoming, StageDebounce, StageAI, StageDispatch}"
    by fastforce
  then show ?thesis
  proof cases
    case fresh
    then have "machine ev (w_now w) ?pv = begun ev (w_now w) ?pv" "restarts ?pv"
      unfolding assms(5) machine_def restarts_def by auto
    from wp_fresh [OF assms(1-4) this] fresh show ?thesis by (simp add: process_state_def Let_def)
  next
    case debounce
    then have "machine ev (w_now w) ?pv = buffered (ev_MessageContent ev) (ev_Attachments ev) (ev_BotConfig ev) ?pv"
      "\<not> restarts ?pv" unfolding assms(5) machine_def restarts_def by auto
    from wp_reset [OF assms(1,2,4) this] debounce show ?thesis by (auto simp: process_state_def Let_def)
  next
    case active
    then have "machine ev (w_now w) ?pv = begun ev (w_now w) blank" "restarts ?pv"
      unfolding assms(5) machine_def restarts_def by auto
    from wp_interrupt [OF assms(1-4) this] active show ?thesis
      by (auto simp: process_state_def Let_def assms(3))
  next
    case (other stage)
    then have "machine ev (w_now w) ?pv = ?pv" "\<not> restarts ?pv"
      unfolding assms(5) machine_def restarts_def by auto
    then have "process_post view ev None w w" by (simp add: process_post_def others_kept_def Let_def)
    moreover have "process_state s c ev st = Done None" using other by (auto simp: process_state_def Let_def)
    ultimately show ?thesis using assms(1,2) by (simp add: wp_Done)
  qed
qed

lemma wp_Process:
  assumes "sound w" "ctx_ok w" "ps_repo s = repo" "ps_debounce s = deb"
  shows "wp (Process s c ev) (\<lambda>e es w'. sound w' \<and> ctx_ok w' \<and> process_post view ev e w w') w"
proof -
  let ?a = "ev_ContactID ev" and ?b = "ev_ConversationID ev"
  let ?Q = "\<lambda>e w'. sound w' \<and> ctx_ok w' \<and> process_post view ev e w w'"
  let ?body = "pbind (repo_GetState repo c ?a ?b) (\<lambda>r. case r of
     Inl err \<Rightarrow> Done (Some (Wrap ''pipeline.process.get_state'' err)) | Inr st \<Rightarrow> process_state s c ev st)"
  have same: "ctx_ok w1" "process_post view ev (Some err) w w1"
    if "redis_only w w1" "view w1 = view w" for w1 err
  proof -
    show "ctx_ok w1" using assms(2) redis_only_fields [OF that(1)] ctx_ok_cong [of w1 w] by simp
    show "process_post view ev (Some err) w w1"
      using process_post_cong [OF process_post_refl_error that redis_only_refl] by simp
  qed
  have unlock: "wp (repo_Unlock repo m) (\<lambda>_ _. ?Q e) w2"
    if "sound w2" "ctx_ok w2" "process_post view ev e w w2" "owns m (?a, ?b)" for m e w2
  proof (rule wp_Unlock [OF that(1,4)])
    fix ok es w3
    assume "sound w3" and r3: "redis_only w2 w3" and v3: "view w3 = view w2"
    moreover have "ctx_ok w3" using that(2) redis_only_fields [OF r3] ctx_ok_cong [of w3 w2] by simp
    ultimately show "sound w3 \<and> ctx_ok w3 \<and> process_post view ev e w w3"
      using process_post_cong [OF that(3) redis_only_refl refl r3 v3] by simp
  qed
  show ?thesis
    unfolding Process_def assms(3) wp_bind [of "repo_AcquireLock repo c ?a ?b"]
  proof (rule wp_AcquireLock [OF assms(1)])
    fix r :: "go_error + mutex" and es w1
    assume s1: "sound w1" and r1: "redis_only w w1" and v1: "view w1 = view w"
      and own: "\<forall>m. r = Inr m \<longrightarrow> owns m (?a, ?b) \<and> \<not> locked w (?a, ?b) \<and> locked w1 (?a, ?b)"
    show "wp (case r of Inl _ \<Rightarrow> Done (Some ErrLockFailed)
        | Inr mu \<Rightarrow> pbind ?body (\<lambda>e. pbind (repo_Unlock repo mu) (\<lambda>_. Done e))) (\<lambda>b _. ?Q b) w1"
    proof (cases r)
      case (Inl err)
      then show ?thesis using s1 same [OF r1 v1] by (simp add: wp_Done)
    next
      case (Inr m)
      have "wp ?body (\<lambda>e _. wp (repo_Unlock repo m) (\<lambda>_ _. ?Q e)) w1"
        unfolding wp_bind
      proof (rule wp_GetState [OF s1])
        fix q :: "go_error + PipelineState option" and es2 w2
        assume s2: "sound w2" and r2: "redis_only w1 w2" and v2: "view w2 = view w1"
          and st: "\<forall>x. q = Inr x \<longrightarrow> x = pv_state (view w1 (?a, ?b))"
        have r02: "redis_only w w2" using r1 r2 by (rule redis_only_trans)
        have v02: "view w2 = view w" using v1 v2 by simp
        note ok2 = same [OF r02 v02]
        show "wp (case q of Inl err \<Rightarrow> Done (Some (Wrap ''pipeline.process.get_state'' err))
            | Inr st \<Rightarrow> process_state s c ev st) (\<lambda>e _. wp (repo_Unlock repo m) (\<lambda>_ _. ?Q e)) w2"
        proof (cases q)
          case (Inl err)
          then show ?thesis using unlock [OF s2 ok2] own Inr by (simp add: wp_Done)
        next
          case (Inr st)
          then have "st = pv_state (view w2 (?a, ?b))" using st v2 by simp
          from wp_process_state [OF s2 ok2(1) assms(3,4) this]
          have "wp (process_state s c ev st) (\<lambda>e _. wp (repo_Unlock repo m) (\<lambda>_ _. ?Q e)) w2"
            by (rule wp_mono) (use own \<open>r = Inr m\<close> in
              \<open>auto intro!: unlock process_post_cong [OF _ r02 v02 redis_only_refl refl]\<close>)
          with Inr show ?thesis by simp
        qed
      qed
      then have "wp (pbind ?body (\<lambda>e. pbind (repo_Unlock repo m) (\<lambda>_. Done e))) (\<lambda>b _. ?Q b) w1"
        unfolding wp_bind [of ?body] wp_bind [of "repo_Unlock repo m"] wp_Done .
      with Inr show ?thesis by simp
    qed
  qed
qed

end

end
