(* ===== verification/Pipeline_Stages.thy ===== *)
theory Pipeline_Stages
  imports Pipeline_Transitions
begin

text \<open>
  The goroutines of a pipeline, undisturbed: the poller's step into the AI stage, the AI
  stage, the dispatch stage and the cleanup they share.
\<close>

section \<open>Changes of the store only\<close>

text \<open>Nothing but the store and fresh contexts has changed.\<close>

definition besides_store :: "('r, 'n) world \<Rightarrow> ('r, 'n) world \<Rightarrow> bool" where
  "besides_store w w' \<longleftrightarrow> quiet (w \<lparr> w_redis := w_redis w' \<rparr>) w'"

lemma besides_store_iff:
  "besides_store w w' \<longleftrightarrow> w_entries w' = w_entries w \<and> w_launched w' = w_launched w \<and>
     w_stop w' = w_stop w \<and> w_stopped w' = w_stopped w \<and> w_env w' = w_env w \<and> w_now w' = w_now w \<and>
     w_next_ctx w \<le> w_next_ctx w' \<and> (\<forall>i < w_next_ctx w. w_ctx_err w' i = w_ctx_err w i) \<and>
     (\<forall>i \<ge> w_next_ctx w'. w_ctx_err w' i = w_ctx_err w i)"
  by (auto simp: besides_store_def quiet_def)

lemma besides_store_refl [simp]: "besides_store w w"
  by (simp add: besides_store_iff)

lemma besides_store_trans: "besides_store w w1 \<Longrightarrow> besides_store w1 w2 \<Longrightarrow> besides_store w w2"
  by (auto simp: besides_store_iff)

lemma redis_only_besides: "redis_only w w' \<Longrightarrow> besides_store w w'"
  using redis_only_fields [of w w'] by (simp add: besides_store_iff)

lemma quiet_besides: "quiet w w' \<Longrightarrow> besides_store w w'"
  by (simp add: besides_store_iff quiet_def)

lemma besides_store_fresh:
  "besides_store (w \<lparr> w_next_ctx := Suc (w_next_ctx w) \<rparr>) w1 \<Longrightarrow>
     besides_store w (finish_ctx e [w_next_ctx w] w1)"
  by (auto simp: besides_store_iff finish_ctx_def)

lemma besides_store_Load: "besides_store w w' \<Longrightarrow> entries_Load w' k = entries_Load w k"
  by (simp add: besides_store_iff entries_Load_def)

lemma besides_store_ok:
  assumes "besides_store w w'" "ctx_ok w"
  shows "ctx_ok w'"
proof -
  have "\<forall>i \<ge> w_next_ctx w'. w_ctx_err w' i = None"
    using assms by (auto simp: besides_store_iff ctx_ok_def)
  moreover have "\<exists>i < w_next_ctx w'. en_ctx e = [i]" if "entries_Load w' k = Some e" for k e
  proof -
    have "entries_Load w k = Some e" using that besides_store_Load [OF assms(1)] by simp
    with assms(2) obtain i where "i < w_next_ctx w" "en_ctx e = [i]" by (rule ctx_okE)
    then show ?thesis using assms(1) by (auto simp: besides_store_iff)
  qed
  ultimately show ?thesis by (simp add: ctx_ok_def)
qed

section \<open>Advancing to the AI stage\<close>

text \<open>The pair is due: it is debouncing and its timer has expired.\<close>

definition due :: "pair_view \<Rightarrow> bool" where
  "due pv \<longleftrightarrow> map_option st_Stage (pv_state pv) = Some StageDebounce \<and> \<not> pv_timer pv"

definition ai_goroutine ::
  "pipelineEntry \<Rightarrow> int64 \<Rightarrow> int64 \<Rightarrow> pair_view \<Rightarrow> Attachment list \<Rightarrow> goroutine" where
  "ai_goroutine entry a b pv atts =
     GoAI (en_ctx entry) a b (aggregated pv) atts (en_cfg entry) (en_postbackURL entry)"

definition with_launched :: "goroutine list \<Rightarrow> ('r, 'n) world \<Rightarrow> ('r, 'n) world" where
  "with_launched gs w = w \<lparr> w_launched := w_launched w @ gs \<rparr>"

text \<open>
  What \<open>advanceToAI\<close> may do: nothing but move the stage of its pair to AI, and launch at most
  one AI goroutine, on the aggregated messages, only when the pair was due and not locked and
  has an entry.
\<close>

definition advanced ::
  "(('r, 'n) world \<Rightarrow> store) \<Rightarrow> bool \<Rightarrow> int64 \<Rightarrow> int64 \<Rightarrow> ('r, 'n) world \<Rightarrow> ('r, 'n) world \<Rightarrow> bool" where
  "advanced view unlocked a b w w' \<longleftrightarrow>
     (let pv = view w (a, b); ai = Some (norm_state (stageState StageAI (w_now w))) in
      (\<forall>q. q \<noteq> (a, b) \<longrightarrow> view w' q = view w q) \<and>
      (\<exists>gs. redis_only (with_launched gs w) w' \<and>
        (view w' (a, b) = pv \<and> gs = [] \<or>
         unlocked \<and> due pv \<and> view w' (a, b) = pv \<lparr> pv_state := ai \<rparr> \<and>
         (gs = [] \<or>
          (\<exists>entry. entries_Load w (pairKey a b) = Some entry \<and>
            (\<exists>atts \<in> {[], pv_atts pv}. gs = [ai_goroutine entry a b pv atts]))))))"

lemma with_launched_simps [simp]:
  "with_launched [] w = w" "w_redis (with_launched gs w) = w_redis w" "w_now (with_launched gs w) = w_now w"
  "entries_Load (with_launched gs w) k = entries_Load w k"
  by (simp_all add: with_launched_def)

lemma advanced_idle: "redis_only w w' \<Longrightarrow> view w' = view w \<Longrightarrow> advanced view u a b w w'"
  by (auto simp: advanced_def Let_def intro!: exI [of _ "[]"])

lemma redis_only_launched:
  "redis_only w w1 \<Longrightarrow> redis_only (with_launched gs w1) w2 \<Longrightarrow> redis_only (with_launched gs w) w2"
  by (cases w; cases w1; cases w2) (simp add: redis_only_def with_launched_def)

lemma advanced_cong:
  assumes "advanced view u a b w1 w2" "redis_only w w1" "view w1 = view w"
    and "redis_only w2 w'" "view w' = view w2" "u \<longrightarrow> u'"
  shows "advanced view u' a b w w'"
proof -
  let ?pv = "view w (a, b)" and ?ai = "Some (norm_state (stageState StageAI (w_now w)))"
  have ld: "entries_Load w1 k = entries_Load w k" for k
    using redis_only_fields [OF assms(2)] by (simp add: entries_Load_def)
  have now: "w_now w1 = w_now w" using redis_only_fields [OF assms(2)] by simp
  obtain gs where gs: "redis_only (with_launched gs w1) w2" and
    effect: "view w2 (a, b) = ?pv \<and> gs = [] \<or>
      u \<and> due ?pv \<and> view w2 (a, b) = ?pv \<lparr> pv_state := ?ai \<rparr> \<and>
      (gs = [] \<or> (\<exists>entry. entries_Load w (pairKey a b) = Some entry \<and>
         (\<exists>atts \<in> {[], pv_atts ?pv}. gs = [ai_goroutine entry a b ?pv atts])))"
    using assms(1) unfolding advanced_def Let_def assms(3) ld now by blast
  have "redis_only (with_launched gs w) w'"
    using redis_only_trans [OF redis_only_launched [OF assms(2) gs] assms(4)] .
  moreover have "\<forall>q. q \<noteq> (a, b) \<longrightarrow> view w' q = view w q"
    using assms(1,3,5) by (simp add: advanced_def Let_def)
  ultimately show ?thesis
    using effect assms(5,6) unfolding advanced_def Let_def by auto
qed

context pipeline_store
begin

lemma wp_advance_locked:
  assumes "sound w" "ps_repo s = repo" "ps_debounce s = deb"
  shows "wp (advance_locked s a b) (\<lambda>_ es w'. sound w' \<and> advanced view True a b w w') w"
proof -
  let ?Q = "\<lambda>w'. sound w' \<and> advanced view True a b w w'"
  let ?pv = "view w (a, b)"
  have idle: "wp (Done ()) (\<lambda>_ es. ?Q) w1" if "sound w1" "redis_only w w1" "view w1 = view w" for w1
    using that advanced_idle [OF that(2,3)] by (simp add: wp_Done)
  have set: "wp (pbind Now (\<lambda>now. pbind (repo_SetState repo Background a b (stageState StageAI now)) (\<lambda>e.
      if e \<noteq> None then Done () else launchAIStage s a b buffer atts))) (\<lambda>_ es. ?Q) w1"
    if "sound w1" and r1: "redis_only w w1" and v1: "view w1 = view w" and "due ?pv"
      and "buffer = aggregated ?pv" "atts \<in> {[], pv_atts ?pv}" for w1 buffer atts
    unfolding wp_bind wp_reads
  proof (rule wp_SetState [OF that(1)])
    fix e es w2
    assume s2: "sound w2" and r2: "redis_only w1 w2" and v2: "changed e (a, b)
      (pv_state_update (\<lambda>_. Some (norm_state (stageState StageAI (w_now w1))))) (view w1) (view w2)"
    have r02: "redis_only w w2" using r1 r2 by (rule redis_only_trans)
    have now: "w_now w1 = w_now w" using redis_only_fields [OF r1] by simp
    have ld: "entries_Load w2 k = entries_Load w k" for k
      using redis_only_fields [OF r02] by (simp add: entries_Load_def)
    have others: "\<forall>q. q \<noteq> (a, b) \<longrightarrow> view w2 q = view w q" using changed_other [OF v2] v1 by simp
    have mine: "view w2 (a, b) = ?pv \<or>
        view w2 (a, b) = ?pv \<lparr> pv_state := Some (norm_state (stageState StageAI (w_now w))) \<rparr>"
      using v2 v1 now by (auto simp: changed_def split: option.splits)
    show "wp (if e \<noteq> None then Done () else launchAIStage s a b buffer atts) (\<lambda>_ es. ?Q) w2"
    proof (cases "e \<noteq> None \<or> entries_Load w (pairKey a b) = None")
      case True
      have "advanced view True a b w w2"
        using r02 others mine that(4) unfolding advanced_def Let_def by (intro conjI exI [of _ "[]"]) auto
      with True s2 show ?thesis by (auto simp: wp_Done wp_launchAIStage ld)
    next
      case False
      then obtain entry where e: "e = None" "entries_Load w (pairKey a b) = Some entry" by auto
      let ?g = "ai_goroutine entry a b ?pv atts"
      let ?w3 = "w2 \<lparr> w_launched := w_launched w2 @ [?g] \<rparr>"
      have "redis_only (with_launched [?g] w) ?w3"
        using r02 by (cases w; cases w2) (simp add: redis_only_def with_launched_def)
      moreover have "view w2 (a, b) = ?pv \<lparr> pv_state := Some (norm_state (stageState StageAI (w_now w))) \<rparr>"
        using v2 v1 now e by simp
      ultimately have "advanced view True a b w ?w3"
        using others that(4,6) e unfolding advanced_def Let_def
        by (intro conjI exI [of _ "[?g]"] disjI2) auto
      with s2 e that(5) show ?thesis by (simp add: wp_launchAIStage ld ai_goroutine_def)
    qed
  qed
  show ?thesis
    unfolding advance_locked_def assms(2,3) wp_bind [of "repo_GetState repo Background a b"]
  proof (rule wp_GetState [OF assms(1)])
    fix r es w1
    assume s1: "sound w1" and r1: "redis_only w w1" and v1: "view w1 = view w"
      and st: "\<forall>x. r = Inr x \<longrightarrow> x = pv_state ?pv"
    have "wp (pbind (repo_TimerExists repo Background a b) (\<lambda>r. if r \<noteq> Inr False then Done ()
        else pbind (deb_GetBuffer deb Background a b) (\<lambda>r. case r of Inl _ \<Rightarrow> Done ()
         | Inr buffer \<Rightarrow> pbind (deb_GetAttachments deb Background a b) (\<lambda>r.
           let atts = (case r of Inl _ \<Rightarrow> [] | Inr as \<Rightarrow> as) in
           pbind Now (\<lambda>now. pbind (repo_SetState repo Background a b (stageState StageAI now)) (\<lambda>e.
           if e \<noteq> None then Done () else launchAIStage s a b buffer atts)))))) (\<lambda>_ es. ?Q) w1"
      if stage: "map_option st_Stage (pv_state ?pv) = Some StageDebounce"
      unfolding wp_bind [of "repo_TimerExists repo Background a b"]
    proof (rule wp_TimerExists [OF s1])
      fix q :: "go_error + bool" and es w2
      assume s2: "sound w2" and r2: "redis_only w1 w2" and v2: "view w2 = view w1"
        and tm: "\<forall>x. q = Inr x \<longrightarrow> x = pv_timer (view w1 (a, b))"
      have r02: "redis_only w w2" using r1 r2 by (rule redis_only_trans)
      show "wp (if q \<noteq> Inr False then Done () else pbind (deb_GetBuffer deb Background a b) (\<lambda>r.
         case r of Inl _ \<Rightarrow> Done ()
         | Inr buffer \<Rightarrow> pbind (deb_GetAttachments deb Background a b) (\<lambda>r.
           let atts = (case r of Inl _ \<Rightarrow> [] | Inr as \<Rightarrow> as) in
           pbind Now (\<lambda>now. pbind (repo_SetState repo Background a b (stageState StageAI now)) (\<lambda>e.
           if e \<noteq> None then Done () else launchAIStage s a b buffer atts))))) (\<lambda>_ es. ?Q) w2"
      proof (cases "q = Inr False")
        case False
        then show ?thesis using idle [OF s2 r02] v1 v2 by simp
      next
        case True
        then have "pv_timer (view w1 (a, b)) = False" using tm by blast
        with v1 stage have due: "due ?pv" by (simp add: due_def)
        have "wp (pbind (deb_GetBuffer deb Background a b) (\<lambda>r.
           case r of Inl _ \<Rightarrow> Done ()
           | Inr buffer \<Rightarrow> pbind (deb_GetAttachments deb Background a b) (\<lambda>r.
             let atts = (case r of Inl _ \<Rightarrow> [] | Inr as \<Rightarrow> as) in
             pbind Now (\<lambda>now. pbind (repo_SetState repo Background a b (stageState StageAI now)) (\<lambda>e.
             if e \<noteq> None then Done () else launchAIStage s a b buffer atts))))) (\<lambda>_ es. ?Q) w2"
          unfolding wp_bind [of "deb_GetBuffer deb Background a b"]
        proof (rule wp_GetBuffer [OF s2])
          fix x :: "go_error + string" and es w3
          assume s3: "sound w3" and r3: "redis_only w2 w3" and v3: "view w3 = view w2"
            and buf: "\<forall>y. x = Inr y \<longrightarrow> y = aggregated (view w2 (a, b))"
          have r03: "redis_only w w3" using r02 r3 by (rule redis_only_trans)
          show "wp (case x of Inl _ \<Rightarrow> Done ()
             | Inr buffer \<Rightarrow> pbind (deb_GetAttachments deb Background a b) (\<lambda>r.
               let atts = (case r of Inl _ \<Rightarrow> [] | Inr as \<Rightarrow> as) in
               pbind Now (\<lambda>now. pbind (repo_SetState repo Background a b (stageState StageAI now)) (\<lambda>e.
               if e \<noteq> None then Done () else launchAIStage s a b buffer atts)))) (\<lambda>_ es. ?Q) w3"
          proof (cases x)
            case (Inl err)
            then show ?thesis using idle [OF s3 r03] v1 v2 v3 by simp
          next
            case (Inr buffer)
            then have "buffer = aggregated ?pv" using buf v1 v2 by simp
            have "wp (pbind (deb_GetAttachments deb Background a b) (\<lambda>r.
               let atts = (case r of Inl _ \<Rightarrow> [] | Inr as \<Rightarrow> as) in
               pbind Now (\<lambda>now. pbind (repo_SetState repo Background a b (stageState StageAI now)) (\<lambda>e.
               if e \<noteq> None then Done () else launchAIStage s a b buffer atts)))) (\<lambda>_ es. ?Q) w3"
              unfolding wp_bind [of "deb_GetAttachments deb Background a b"] Let_def
              by (rule wp_GetAttachments [OF s3], rule set)
                (use r03 redis_only_trans v1 v2 v3 due \<open>buffer = aggregated ?pv\<close> in
                  \<open>auto split: sum.splits\<close>)
            with Inr show ?thesis by simp
          qed
        qed
        then show ?thesis unfolding True by (simp only: simp_thms if_False)
      qed
    qed
    then show "wp (if \<not> (\<exists>st. r = Inr (Some st) \<and> st_Stage st = StageDebounce) then Done ()
        else pbind (repo_TimerExists repo Background a b) (\<lambda>r. if r \<noteq> Inr False then Done ()
        else pbind (deb_GetBuffer deb Background a b) (\<lambda>r. case r of Inl _ \<Rightarrow> Done ()
         | Inr buffer \<Rightarrow> pbind (deb_GetAttachments deb Background a b) (\<lambda>r.
           let atts = (case r of Inl _ \<Rightarrow> [] | Inr as \<Rightarrow> as) in
           pbind Now (\<lambda>now. pbind (repo_SetState repo Background a b (stageState StageAI now)) (\<lambda>e.
           if e \<noteq> None then Done () else launchAIStage s a b buffer atts)))))) (\<lambda>_ es. ?Q) w1"
      using idle [OF s1 r1 v1] st by auto
  qed
qed

lemma wp_advanceToAI:
  assumes "sound w" "ps_repo s = repo" "ps_debounce s = deb"
  shows "wp (advanceToAI s a b) (\<lambda>_ es w'. sound w' \<and> advanced view (\<not> locked w (a, b)) a b w w') w"
  unfolding advanceToAI_def assms(2) wp_bind [of "repo_AcquireLock repo Background a b"]
proof (rule wp_AcquireLock [OF assms(1)])
  fix r :: "go_error + mutex" and es w1
  assume s1: "sound w1" and r1: "redis_only w w1" and v1: "view w1 = view w"
    and own: "\<forall>m. r = Inr m \<longrightarrow> owns m (a, b) \<and> \<not> locked w (a, b) \<and> locked w1 (a, b)"
  show "wp (case r of Inl _ \<Rightarrow> Done ()
      | Inr mu \<Rightarrow> pbind (advance_locked s a b) (\<lambda>_. pbind (repo_Unlock repo mu) (\<lambda>_. Done ())))
      (\<lambda>_ es w'. sound w' \<and> advanced view (\<not> locked w (a, b)) a b w w') w1"
  proof (cases r)
    case (Inl err)
    with s1 advanced_idle [OF r1 v1] show ?thesis by (simp add: wp_Done)
  next
    case (Inr m)
    have "wp (repo_Unlock repo m) (\<lambda>_ es w'. sound w' \<and> advanced view (\<not> locked w (a, b)) a b w w') w2"
      if "sound w2" "advanced view True a b w1 w2" for w2
      by (rule wp_Unlock [OF that(1), of m "(a, b)"])
        (use own Inr in simp, use own Inr advanced_cong [OF that(2) r1 v1] in blast)
    then have "wp (pbind (advance_locked s a b) (\<lambda>_. pbind (repo_Unlock repo m) (\<lambda>_. Done ())))
        (\<lambda>_ es w'. sound w' \<and> advanced view (\<not> locked w (a, b)) a b w w') w1"
      unfolding wp_bind wp_Done by (intro wp_mono [OF wp_advance_locked [OF s1 assms(2,3)]]) blast
    with Inr show ?thesis by simp
  qed
qed

end

section \<open>What the stages do under every schedule\<close>

definition clear_events :: "int64 \<Rightarrow> int64 \<Rightarrow> nat \<Rightarrow> event list" where
  "clear_events a b i =
     [EvRedis (CmdDel [stateKey a b, bufferKey a b, attachBufferKey a b, timerKey a b]), EvCancel i]"

definition stage_events :: "Stage \<Rightarrow> int64 \<Rightarrow> int64 \<Rightarrow> string \<Rightarrow> nat \<Rightarrow> event list" where
  "stage_events stage a b now i =
     [EvRedis (CmdSet (stateKey a b) (json_text (state_json (stageState stage now))) 0), EvCancel i]"

definition redis_service :: "('r, 'n) pipelineService \<Rightarrow> bool" where
  "redis_service s \<longleftrightarrow> (\<exists>rc fuel. ps_repo s = NewPipelineRepository rc fuel)"

lemma outcomes_redis_op: "outcomes (redis_op c ctx f :: ('r, 'n, 'x) go) x es \<Longrightarrow> es = [EvRedis c]"
  by (auto simp: redis_op_def)

lemma outcomes_cleanupE:
  assumes "outcomes (pbind cleanupCtx f) r es"
  obtains i where "outcomes (f [i]) r es"
  using assms unfolding cleanupCtx_def by (rule outcomes_WithTimeoutE)

lemma outcomes_clear:
  assumes "redis_service s" "outcomes (clearStateWithLog s a b :: ('r, 'n, unit) go) x es"
  obtains i where "es = clear_events a b i"
proof -
  obtain rc fuel where rc: "ps_repo s = NewPipelineRepository rc fuel"
    using assms(1) unfolding redis_service_def by blast
  from assms(2) obtain i where "outcomes (pbind (ClearState rc [i] a b) (\<lambda>_. cancel [i] :: ('r, 'n, unit) go)) x es"
    unfolding clearStateWithLog_def rc repo_sel by (rule outcomes_cleanupE)
  then show ?thesis
    using that [of i] by (auto simp: outcomes_bind ClearState_def Let_def clear_events_def dest!: outcomes_redis_op)
qed

text \<open>The write of a stage on a cleanup context.\<close>

lemma outcomes_stage:
  assumes "redis_service s"
    and "outcomes (pbind Now (\<lambda>now. pbind cleanupCtx (\<lambda>c.
      pbind (repo_SetState (ps_repo s) c a b (stageState stage now)) (\<lambda>e.
      pbind (cancel c) (\<lambda>_. f e)))) :: ('r, 'n, 'x) go) x es"
  obtains now i e es2 where "es = stage_events stage a b now i @ es2" "outcomes (f e) x es2"
proof -
  obtain rc fuel where rc: "ps_repo s = NewPipelineRepository rc fuel"
    using assms(1) unfolding redis_service_def by blast
  from assms(2) obtain now where "outcomes (pbind cleanupCtx (\<lambda>c.
      pbind (repo_SetState (ps_repo s) c a b (stageState stage now)) (\<lambda>e.
      pbind (cancel c) (\<lambda>_. f e))) :: ('r, 'n, 'x) go) x es"
    by (auto simp: Now_def outcomes_bind [of "get_state w_now"])
  then obtain i where "outcomes (pbind (SetState rc [i] a b (stageState stage now)) (\<lambda>e.
      pbind (cancel [i]) (\<lambda>_. f e)) :: ('r, 'n, 'x) go) x es"
    unfolding rc repo_sel by (rule outcomes_cleanupE)
  then obtain e es1 es2 where "outcomes (SetState rc [i] a b (stageState stage now) :: ('r, 'n, go_error option) go) e es1"
    "outcomes (pbind (cancel [i]) (\<lambda>_. f e) :: ('r, 'n, 'x) go) x es2" "es = es1 @ es2"
    by (rule outcomes_bindE)
  moreover from this(2) obtain es3 where "outcomes (f e) x es3" "es2 = EvCancel i # es3"
    by (auto simp: outcomes_bind)
  ultimately show ?thesis
    using that [of now i es3 e]
    by (auto simp: SetState_def Let_def stage_events_def dest!: outcomes_redis_op)
qed

text \<open>The notice after a failure: none, or one dispatch of a text that is not blank.\<close>

definition notice_events ::
  "('r, 'n) DispatchEngine \<Rightarrow> int64 \<Rightarrow> int64 \<Rightarrow> BotConfig \<Rightarrow> string \<Rightarrow> event list \<Rightarrow> bool" where
  "notice_events d a b cfg url es \<longleftrightarrow> es = [] \<or>
     url \<noteq> [] \<and> (\<exists>i notice e es1. trim_space notice \<noteq> [] \<and> es = es1 @ [EvCancel i] \<and>
        outcomes (dsp_Dispatch d [i] a b notice cfg url) e es1)"

lemma default_notice_not_blank: "trim_space defaultAIFailureNotice \<noteq> []"
proof
  assume "trim_space defaultAIFailureNotice = []"
  then show False
    by (simp add: defaultAIFailureNotice_def trim_space_def runes.simps decode_rune_def is_space_def)
qed

lemma outcomes_notice:
  assumes "outcomes (sendAIFailureNotice s a b cfg url err :: ('r, 'n, unit) go) x es"
  shows "notice_events (ps_dispatchEng s) a b cfg url es"
proof -
  let ?send = "\<lambda>notice. if url = [] then Done () else pbind noticeCtx (\<lambda>ctx.
      pbind (dsp_Dispatch (ps_dispatchEng s) ctx a b notice cfg url) (\<lambda>_.
      pbind (recoverPipeline s a b False) (\<lambda>_. cancel ctx))) :: ('r, 'n, unit) go"
  from assms obtain v where v: "outcomes (case v of None \<Rightarrow> ?send defaultAIFailureNotice
      | Some notice \<Rightarrow> if trim_space notice = [] then Done () else ?send notice) x es"
    unfolding sendAIFailureNotice_def Let_def LookupEnv_def by (rule outcomes_bindE) auto
  have send: "notice_events (ps_dispatchEng s) a b cfg url es"
    if "outcomes (?send notice) x es" "trim_space notice \<noteq> []" for notice
  proof (cases "url = []")
    case True
    with that show ?thesis by (simp add: notice_events_def)
  next
    case False
    with that(1) have "outcomes (pbind noticeCtx (\<lambda>ctx.
        pbind (dsp_Dispatch (ps_dispatchEng s) ctx a b notice cfg url) (\<lambda>_.
        pbind (recoverPipeline s a b False) (\<lambda>_. cancel ctx))) :: ('r, 'n, unit) go) x es"
      by (simp only: if_False)
    then obtain i where "outcomes (pbind (dsp_Dispatch (ps_dispatchEng s) [i] a b notice cfg url) (\<lambda>_.
        pbind (recoverPipeline s a b False) (\<lambda>_. cancel [i])) :: ('r, 'n, unit) go) x es"
      unfolding noticeCtx_def by (rule outcomes_WithTimeoutE)
    then obtain e es1 where "outcomes (dsp_Dispatch (ps_dispatchEng s) [i] a b notice cfg url) e es1"
      "es = es1 @ [EvCancel i]"
      by (auto simp: outcomes_bind recoverPipeline_def)
    with False that(2) show ?thesis unfolding notice_events_def by blast
  qed
  show ?thesis
  proof (cases v)
    case None
    with v have "outcomes (?send defaultAIFailureNotice) x es" by (simp only: option.case)
    then show ?thesis using default_notice_not_blank by (rule send)
  next
    case (Some notice)
    show ?thesis
    proof (cases "trim_space notice = []")
      case True
      with v Some show ?thesis by (simp add: notice_events_def)
    next
      case False
      with v Some have "outcomes (?send notice) x es" by (simp only: option.case if_False)
      then show ?thesis using False by (rule send)
    qed
  qed
qed

text \<open>What the AI stage does after the call.\<close>

definition ai_reaction ::
  "('r, 'n) pipelineService \<Rightarrow> ctx \<Rightarrow> int64 \<Rightarrow> int64 \<Rightarrow> BotConfig \<Rightarrow> string \<Rightarrow>
     go_error + NormalizedResponse option \<Rightarrow> event list \<Rightarrow> bool" where
  "ai_reaction s ctx a b cfg url r es \<longleftrightarrow>
     (case r of
        Inl err \<Rightarrow>
          if error_Is err ErrPipelineCancelled then es = []
          else \<exists>i es2. es = clear_events a b i @ es2 \<and> notice_events (ps_dispatchEng s) a b cfg url es2
      | Inr resp \<Rightarrow>
          \<exists>now i es2. es = stage_events StageDispatch a b now i @ es2 \<and>
            ((\<exists>j. es2 = clear_events a b j) \<or>
             (\<exists>n. resp = Some n \<and> es2 = [EvGo (GoDispatch ctx a b (nr_Content n) cfg url)])))"

lemma outcomes_ai_failed:
  assumes "redis_service s" "outcomes (ai_failed s a b cfg url err :: ('r, 'n, bool) go) p es"
  shows "\<not> p \<and> (if error_Is err ErrPipelineCancelled then es = []
    else \<exists>i es2. es = clear_events a b i @ es2 \<and> notice_events (ps_dispatchEng s) a b cfg url es2)"
proof (cases "error_Is err ErrPipelineCancelled")
  case True
  with assms(2) show ?thesis by (simp add: ai_failed_def)
next
  case False
  with assms(2) have "outcomes (pbind (clearStateWithLog s a b) (\<lambda>_.
      pbind (sendAIFailureNotice s a b cfg url err) (\<lambda>_. Done False)) :: ('r, 'n, bool) go) p es"
    by (simp add: ai_failed_def split: if_splits)
  then obtain x es1 es2 where "outcomes (clearStateWithLog s a b :: ('r, 'n, unit) go) x es1"
    and rest: "outcomes (pbind (sendAIFailureNotice s a b cfg url err) (\<lambda>_. Done False) :: ('r, 'n, bool) go) p es2"
    and es: "es = es1 @ es2" by (rule outcomes_bindE)
  from outcomes_clear [OF assms(1) this(1)] obtain i where "es1 = clear_events a b i" .
  moreover obtain y where "outcomes (sendAIFailureNotice s a b cfg url err :: ('r, 'n, unit) go) y es2" "\<not> p"
    using rest by (auto simp: outcomes_bind)
  ultimately show ?thesis using False es outcomes_notice [of s a b cfg url err y es2] by auto
qed

lemma outcomes_ai_succeeded:
  assumes "redis_service s" "outcomes (ai_succeeded s ctx a b cfg url resp :: ('r, 'n, bool) go) p es"
  obtains now i es2 where "es = stage_events StageDispatch a b now i @ es2"
    "(p \<and> es2 = []) \<or> (\<not> p \<and> (\<exists>j. es2 = clear_events a b j)) \<or>
     (\<not> p \<and> (\<exists>n. resp = Some n \<and> es2 = [EvGo (GoDispatch ctx a b (nr_Content n) cfg url)]))"
proof -
  obtain now i es2 and setErr :: "go_error option" where
    es: "es = stage_events StageDispatch a b now i @ es2" and
    rest: "outcomes (if setErr \<noteq> None then pbind (clearStateWithLog s a b) (\<lambda>_. Done False)
      else launchDispatchStage s ctx a b resp cfg url :: ('r, 'n, bool) go) p es2"
    using assms(1) assms(2) [unfolded ai_succeeded_def] by (rule outcomes_stage) (rule that)
  have "(p \<and> es2 = []) \<or> (\<not> p \<and> (\<exists>j. es2 = clear_events a b j)) \<or>
     (\<not> p \<and> (\<exists>n. resp = Some n \<and> es2 = [EvGo (GoDispatch ctx a b (nr_Content n) cfg url)]))"
  proof (cases "setErr \<noteq> None")
    case True
    then have "outcomes (pbind (clearStateWithLog s a b) (\<lambda>_. Done False) :: ('r, 'n, bool) go) p es2"
      using rest by simp
    then obtain x where "outcomes (clearStateWithLog s a b :: ('r, 'n, unit) go) x es2" "\<not> p"
      by (auto simp: outcomes_bind)
    with outcomes_clear [OF assms(1) this(1)] show ?thesis by blast
  next
    case False
    with rest show ?thesis
      by (cases resp)
        (auto simp: launchDispatchStage_def go_launch_def outcomes_bind outcomes_Step_iff)
  qed
  with es show ?thesis by (rule that)
qed

lemma outcomes_recover:
  assumes "redis_service s" "outcomes (recoverPipeline s a b p :: ('r, 'n, unit) go) x es"
  shows "if p then \<exists>i. es = clear_events a b i else es = []"
proof (cases p)
  case True
  with assms(2) obtain y where "outcomes (clearStateWithLog s a b :: ('r, 'n, unit) go) y es"
    by (auto simp: recoverPipeline_def outcomes_bind Delete_def)
  with outcomes_clear [OF assms(1)] True show ?thesis by metis
next
  case False
  with assms(2) show ?thesis by (simp add: recoverPipeline_def)
qed

lemma ai_stage_trace:
  assumes "redis_service s" "outcomes (runAIStage s ctx a b buffer atts cfg url :: ('r, 'n, unit) go) x es"
  shows "\<exists>v r es1 es2. outcomes (ai_Call (ps_aiAdapter s) ctx (a2a_request a b buffer atts v)) r es1 \<and>
    es = es1 @ es2 \<and> ai_reaction s ctx a b cfg url r es2"
proof -
  let ?react = "\<lambda>r. case r of Inl err \<Rightarrow> ai_failed s a b cfg url err
    | Inr resp \<Rightarrow> (ai_succeeded s ctx a b cfg url resp :: ('r, 'n, bool) go)"
  from assms(2) obtain p es1 es2 where body: "outcomes (pbind (Load (pairKey a b)) (\<lambda>v.
      pbind (ai_Call (ps_aiAdapter s) ctx (a2a_request a b buffer atts v)) ?react)) p es1"
    and rec: "outcomes (recoverPipeline s a b p :: ('r, 'n, unit) go) x es2" and es: "es = es1 @ es2"
    unfolding runAIStage_def by (rule outcomes_bindE)
  from body obtain v where "outcomes (pbind (ai_Call (ps_aiAdapter s) ctx (a2a_request a b buffer atts v)) ?react) p es1"
    unfolding Load_def by (rule outcomes_bindE) auto
  then obtain r es3 es4 where call: "outcomes (ai_Call (ps_aiAdapter s) ctx (a2a_request a b buffer atts v)) r es3"
    and react: "outcomes (?react r) p es4" and es1: "es1 = es3 @ es4" by (rule outcomes_bindE)
  note rec' = outcomes_recover [OF assms(1) rec]
  have "ai_reaction s ctx a b cfg url r (es4 @ es2)"
  proof (cases r)
    case (Inl err)
    with react have "outcomes (ai_failed s a b cfg url err :: ('r, 'n, bool) go) p es4" by simp
    from outcomes_ai_failed [OF assms(1) this] rec' Inl show ?thesis
      by (simp add: ai_reaction_def split: if_splits)
  next
    case (Inr resp)
    with react have "outcomes (ai_succeeded s ctx a b cfg url resp :: ('r, 'n, bool) go) p es4" by simp
    from outcomes_ai_succeeded [OF assms(1) this] obtain now i es5 where
      es4: "es4 = stage_events StageDispatch a b now i @ es5" and
      cases: "(p \<and> es5 = []) \<or> (\<not> p \<and> (\<exists>j. es5 = clear_events a b j)) \<or>
        (\<not> p \<and> (\<exists>n. resp = Some n \<and> es5 = [EvGo (GoDispatch ctx a b (nr_Content n) cfg url)]))" .
    from cases rec' have "(\<exists>j. es5 @ es2 = clear_events a b j) \<or>
        (\<exists>n. resp = Some n \<and> es5 @ es2 = [EvGo (GoDispatch ctx a b (nr_Content n) cfg url)])"
      by (cases p) auto
    then show ?thesis unfolding ai_reaction_def Inr sum.case es4 append_assoc by blast
  qed
  with call es es1 show ?thesis by (metis append_assoc)
qed

text \<open>What the dispatch stage does after the dispatch.\<close>

definition dispatch_reaction :: "int64 \<Rightarrow> int64 \<Rightarrow> go_error option \<Rightarrow> event list \<Rightarrow> bool" where
  "dispatch_reaction a b e es \<longleftrightarrow>
     (case e of
        Some err \<Rightarrow> if error_Is err ErrDispatchInterrupted then es = [] else \<exists>i. es = clear_events a b i
      | None \<Rightarrow> \<exists>now i j. es = stage_events StageDone a b now i @ clear_events a b j)"

lemma dispatch_stage_trace:
  assumes "redis_service s" "outcomes (runDispatchStage s ctx a b content cfg url :: ('r, 'n, unit) go) x es"
  shows "\<exists>e es1 es2. outcomes (dsp_Dispatch (ps_dispatchEng s) ctx a b content cfg url) e es1 \<and>
    es = es1 @ es2 \<and> dispatch_reaction a b e es2"
proof -
  let ?done = "pbind Now (\<lambda>now. pbind cleanupCtx (\<lambda>doneCtx.
      pbind (repo_SetState (ps_repo s) doneCtx a b (stageState StageDone now)) (\<lambda>_.
      pbind (cancel doneCtx) (\<lambda>_.
      pbind (clearStateWithLog s a b) (\<lambda>_.
      pbind (Delete (pairKey a b)) (\<lambda>_. Done False)))))) :: ('r, 'n, bool) go"
  let ?react = "\<lambda>e. case e of
      Some err \<Rightarrow> if error_Is err ErrDispatchInterrupted then Done False
        else pbind (clearStateWithLog s a b) (\<lambda>_. Done False)
    | None \<Rightarrow> ?done"
  from assms(2) obtain p es1 es2 where body: "outcomes (pbind
      (dsp_Dispatch (ps_dispatchEng s) ctx a b content cfg url) ?react) p es1"
    and rec: "outcomes (recoverPipeline s a b p :: ('r, 'n, unit) go) x es2" and es: "es = es1 @ es2"
    unfolding runDispatchStage_def by (rule outcomes_bindE)
  from body obtain e es3 es4 where call: "outcomes (dsp_Dispatch (ps_dispatchEng s) ctx a b content cfg url) e es3"
    and react: "outcomes (?react e) p es4" and es1: "es1 = es3 @ es4" by (rule outcomes_bindE)
  have "\<not> p \<and> dispatch_reaction a b e es4"
  proof (cases e)
    case None
    with react have "outcomes ?done p es4" by simp
    with assms(1) obtain now i es5 where
      es4: "es4 = stage_events StageDone a b now i @ es5" and
      rest: "outcomes (pbind (clearStateWithLog s a b) (\<lambda>_. pbind (Delete (pairKey a b)) (\<lambda>_. Done False)) ::
        ('r, 'n, bool) go) p es5" by (rule outcomes_stage) (rule that)
    from rest obtain y where y: "outcomes (clearStateWithLog s a b :: ('r, 'n, unit) go) y es5" and "\<not> p"
      by (auto simp: outcomes_bind Delete_def)
    moreover obtain j where "es5 = clear_events a b j" using assms(1) y by (rule outcomes_clear)
    ultimately show ?thesis using None es4 by (auto simp: dispatch_reaction_def)
  next
    case (Some err)
    show ?thesis
    proof (cases "error_Is err ErrDispatchInterrupted")
      case True
      with react Some show ?thesis by (simp add: dispatch_reaction_def)
    next
      case False
      with react Some have "outcomes (pbind (clearStateWithLog s a b) (\<lambda>_. Done False) :: ('r, 'n, bool) go) p es4"
        by simp
      then obtain y where y: "outcomes (clearStateWithLog s a b :: ('r, 'n, unit) go) y es4" and "\<not> p"
        by (auto simp: outcomes_bind)
      moreover obtain j where "es4 = clear_events a b j" using assms(1) y by (rule outcomes_clear)
      ultimately show ?thesis using Some False by (auto simp: dispatch_reaction_def)
    qed
  qed
  moreover from this have "es2 = []" using outcomes_recover [OF assms(1) rec] by simp
  ultimately show ?thesis using call es es1 by (intro exI [of _ e] exI [of _ es3] exI [of _ es4]) simp
qed

end
