(* ===== verification/Pipeline_Progress.thy ===== *)
theory Pipeline_Progress
  imports Pipeline_Stages
begin

text \<open>
  Progress: on a Redis that answers, no operation of the store fails on a live context, so a
  message is taken up, an expired window advances, and the reply leaves the pair clean.
\<close>

section \<open>A server that answers\<close>

definition responsive :: "'r redis_client \<Rightarrow> ('r \<Rightarrow> redis_db) \<Rightarrow> bool" where
  "responsive rc view \<longleftrightarrow>
     (\<forall>k v ttl r. fst (rc_Set rc False k v ttl r) = None) \<and>
     (\<forall>k r. is_str (view r) k \<longrightarrow> (\<exists>x. fst (rc_Get rc False k r) = Inr x)) \<and>
     (\<forall>ks r. fst (rc_Del rc False ks r) = None) \<and>
     (\<forall>k vs r. is_list (view r) k \<longrightarrow> fst (rc_RPush rc False k vs r) = None) \<and>
     (\<forall>k r. is_list (view r) k \<longrightarrow> (\<exists>x. fst (rc_LRange rc False k r) = Inr x)) \<and>
     (\<forall>k ttl r. fst (rc_Expire rc False k ttl r) = None) \<and>
     (\<forall>k r. \<exists>x. fst (rc_Exists rc False k r) = Inr x) \<and>
     (\<forall>k r. view r k = None \<longrightarrow> (\<exists>x. fst (rc_Lock rc False k r) = Inr x))"

lemma mem_client_responsive: "responsive mem_client mem_view"
  by (simp add: responsive_def mem_client_def is_str_def is_list_def split: option.splits redis_value.splits)

locale responsive_repository = pipeline_repository +
  assumes SetState_ok: "sound w \<Longrightarrow> \<not> ctx_done w c \<Longrightarrow>
      run (repo_SetState repo c a b st) w = (e, es, w') \<Longrightarrow> e = None"
    and ClearState_ok: "sound w \<Longrightarrow> \<not> ctx_done w c \<Longrightarrow>
      run (repo_ClearState repo c a b) w = (e, es, w') \<Longrightarrow> e = None"
    and GetState_ok: "sound w \<Longrightarrow> \<not> ctx_done w c \<Longrightarrow>
      run (repo_GetState repo c a b) w = (rg, es, w') \<Longrightarrow> \<not> isl rg"
    and AppendToBuffer_ok: "sound w \<Longrightarrow> \<not> ctx_done w c \<Longrightarrow>
      run (repo_AppendToBuffer repo c a b msg) w = (e, es, w') \<Longrightarrow> e = None"
    and GetBuffer_ok: "sound w \<Longrightarrow> \<not> ctx_done w c \<Longrightarrow>
      run (repo_GetBuffer repo c a b) w = (rb, es, w') \<Longrightarrow> \<not> isl rb"
    and AppendAttachments_ok: "sound w \<Longrightarrow> \<not> ctx_done w c \<Longrightarrow>
      run (repo_AppendAttachments repo c a b atts) w = (e, es, w') \<Longrightarrow> e = None"
    and GetAttachments_ok: "sound w \<Longrightarrow> \<not> ctx_done w c \<Longrightarrow>
      run (repo_GetAttachments repo c a b) w = (ra, es, w') \<Longrightarrow> \<not> isl ra"
    and SetTimer_ok: "sound w \<Longrightarrow> \<not> ctx_done w c \<Longrightarrow>
      run (repo_SetTimer repo c a b ttl) w = (e, es, w') \<Longrightarrow> e = None"
    and TimerExists_ok: "sound w \<Longrightarrow> \<not> ctx_done w c \<Longrightarrow>
      run (repo_TimerExists repo c a b) w = (rt, es, w') \<Longrightarrow> \<not> isl rt"
    and AcquireLock_ok: "sound w \<Longrightarrow> \<not> ctx_done w c \<Longrightarrow> \<not> locked w (a, b) \<Longrightarrow>
      run (repo_AcquireLock repo c a b) w = (rm, es, w') \<Longrightarrow> \<not> isl rm"

definition redis_ready :: "'r redis_client \<Rightarrow> ('r \<Rightarrow> redis_db) \<Rightarrow> ('r, 'n) world \<Rightarrow> bool" where
  "redis_ready rc v w \<longleftrightarrow> redis_sound rc v w \<and> responsive rc v"

lemma typed_is_str:
  assumes "typed_db db"
  shows "is_str db (stateKey a b)" "db (stateKey a b) = Some (RStr x) \<Longrightarrow> unmarshal_state x \<noteq> None"
proof -
  have "case db (stateKey a b) of None \<Rightarrow> True | Some (RStr s) \<Rightarrow> unmarshal_state s \<noteq> None | Some (RList _) \<Rightarrow> False"
    using assms by (simp add: typed_db_def)
  then show "is_str db (stateKey a b)" "db (stateKey a b) = Some (RStr x) \<Longrightarrow> unmarshal_state x \<noteq> None"
    by (auto simp: is_str_def split: option.splits redis_value.splits)
qed

lemma redis_ready_typed:
  assumes "redis_ready rc v w"
  shows "typed_db (v (w_redis w))" "redis_laws rc v" "responsive rc v"
  using assms by (simp_all add: redis_ready_def redis_sound_def)

lemma responsive_op:
  assumes "run (redis_op c ctx f) w = (x, es, w')"
  shows "x = fst (f (ctx_done w ctx) (w_redis w))"
  using assms by (auto simp: run_redis_op split: prod.splits)

lemma responsive_bind:
  assumes "run (pbind (redis_op c ctx f) k) w = (x, es, w')"
  obtains y es' w1 where "y = fst (f (ctx_done w ctx) (w_redis w))" "run (k y) w1 = (x, es', w')"
    "w1 = w \<lparr> w_redis := snd (f (ctx_done w ctx) (w_redis w)) \<rparr>"
  using assms by (auto simp: run_bind run_redis_op split: prod.splits)

lemma responsive_cmds:
  assumes "responsive rc v"
  shows "fst (rc_Set rc False k val ttl r) = None" "fst (rc_Del rc False ks r) = None"
    "fst (rc_Expire rc False k ttl r) = None" "is_list (v r) k \<Longrightarrow> fst (rc_RPush rc False k vs r) = None"
    "is_str (v r) k \<Longrightarrow> \<exists>x. fst (rc_Get rc False k r) = Inr x"
    "is_list (v r) k \<Longrightarrow> \<exists>x. fst (rc_LRange rc False k r) = Inr x"
    "\<exists>x. fst (rc_Exists rc False k r) = Inr x"
    "v r k = None \<Longrightarrow> \<exists>x. fst (rc_Lock rc False k r) = Inr x"
  using assms unfolding responsive_def by blast+

lemma ready_contract:
  "redis_sound rc v w' \<and> P \<Longrightarrow> redis_ready rc v w \<Longrightarrow> redis_ready rc v w' \<and> P"
  by (simp add: redis_ready_def)

lemma GetState_responsive:
  assumes "redis_ready rc v w" "\<not> ctx_done w c" "run (GetState rc c a b) w = (r, es, w')"
  shows "\<not> isl r"
proof -
  note ready = redis_ready_typed [OF assms(1)]
  obtain y where y: "fst (rc_Get rc False (stateKey a b) (w_redis w)) = Inr y"
    using responsive_cmds(5) [OF ready(3)] typed_is_str(1) [OF ready(1)] by blast
  then obtain r' where g: "rc_Get rc False (stateKey a b) (w_redis w) = (Inr y, r')"
    by (metis prod.collapse)
  have "map_option RStr y = v (w_redis w) (stateKey a b)"
    using law_Get [OF ready(2) g] typed_is_str(1) [OF ready(1)] by blast
  then have "\<forall>x. y = Some x \<longrightarrow> unmarshal_state x \<noteq> None" using typed_is_str(2) [OF ready(1)] by force
  with assms(2,3) g show ?thesis
    by (cases y) (auto simp: GetState_def Let_def run_bind run_redis_op)
qed

lemma AppendAttachments_responsive:
  assumes "redis_ready rc v w" "\<not> ctx_done w c" "run (AppendAttachments rc c a b atts) w = (e, es, w')"
  shows "e = None"
proof (cases "atts = []")
  case False
  let ?k = "attachBufferKey a b" and ?vs = "map (\<lambda>a. json_text (attachment_json a)) atts"
  note ready = redis_ready_typed [OF assms(1)]
  have "fst (rc_RPush rc False ?k ?vs (w_redis w)) = None"
    using responsive_cmds(4) [OF ready(3)] typed_is_list [OF ready(1)] by blast
  then obtain r1 where p: "rc_RPush rc False ?k ?vs (w_redis w) = (None, r1)" by (metis prod.collapse)
  obtain e2 r2 where x: "rc_Expire rc False ?k attachBufferTTL r1 = (e2, r2)" by fastforce
  then have "e2 = None" using responsive_cmds(3) [OF ready(3), of ?k attachBufferTTL r1] by simp
  moreover have "\<not> ctx_done (w \<lparr> w_redis := r1 \<rparr>) c" using assms(2) by (simp add: ctx_done_iff)
  ultimately show ?thesis using assms(2,3) False p x
    by (auto simp: AppendAttachments_def Let_def run_bind run_redis_op)
qed (use assms(3) in \<open>simp add: AppendAttachments_def\<close>)


text \<open>The other operations are one command each.\<close>

lemma one_command:
  assumes "redis_ready rc v w" "\<not> ctx_done w c"
  shows "run (SetState rc c a b st) w = (e1, es1, w1) \<Longrightarrow> e1 = None"
    "run (ClearState rc c a b) w = (e1, es1, w1) \<Longrightarrow> e1 = None"
    "run (AppendToBuffer rc c a b msg) w = (e1, es1, w1) \<Longrightarrow> e1 = None"
    "run (SetTimer rc c a b ttl) w = (e1, es1, w1) \<Longrightarrow> e1 = None"
    "run (Redis_Repository.GetBuffer rc c a b) w = (r2, es2, w2) \<Longrightarrow> \<not> isl r2"
proof -
  note cmds = responsive_cmds [OF redis_ready_typed(3) [OF assms(1)]]
  note lists = typed_is_list [OF redis_ready_typed(1) [OF assms(1)]]
  show "run (SetState rc c a b st) w = (e1, es1, w1) \<Longrightarrow> e1 = None"
    "run (ClearState rc c a b) w = (e1, es1, w1) \<Longrightarrow> e1 = None"
    "run (AppendToBuffer rc c a b msg) w = (e1, es1, w1) \<Longrightarrow> e1 = None"
    "run (SetTimer rc c a b ttl) w = (e1, es1, w1) \<Longrightarrow> e1 = None"
    using assms(2) cmds lists
    by (auto simp: SetState_def ClearState_def AppendToBuffer_def SetTimer_def Let_def dest!: responsive_op)
  show "\<not> isl r2" if "run (Redis_Repository.GetBuffer rc c a b) w = (r2, es2, w2)"
  proof -
    obtain x where "fst (rc_LRange rc False (bufferKey a b) (w_redis w)) = Inr x"
      using cmds(6) lists by blast
    with that assms(2) show ?thesis
      by (auto simp: Redis_Repository.GetBuffer_def Let_def dest!: responsive_op)
  qed
qed

lemma GetAttachments_responsive:
  assumes "redis_ready rc v w" "\<not> ctx_done w c" "run (Redis_Repository.GetAttachments rc c a b) w = (r, es, w')"
  shows "\<not> isl r"
proof -
  obtain x where "fst (rc_LRange rc False (attachBufferKey a b) (w_redis w)) = Inr x"
    using responsive_cmds(6) [OF redis_ready_typed(3) [OF assms(1)]]
      typed_is_list [OF redis_ready_typed(1) [OF assms(1)]] by blast
  with assms(2,3) show ?thesis
    unfolding Redis_Repository.GetAttachments_def Let_def by (elim responsive_bind) auto
qed

lemma TimerExists_responsive:
  assumes "redis_ready rc v w" "\<not> ctx_done w c" "run (Redis_Repository.TimerExists rc c a b) w = (r, es, w')"
  shows "\<not> isl r"
proof -
  obtain x where "fst (rc_Exists rc False (timerKey a b) (w_redis w)) = Inr x"
    using responsive_cmds(7) [OF redis_ready_typed(3) [OF assms(1)]] by blast
  with assms(2,3) show ?thesis
    unfolding Redis_Repository.TimerExists_def Let_def by (elim responsive_bind) auto
qed

lemma AcquireLock_responsive:
  assumes "redis_ready rc v w" "\<not> ctx_done w c" "\<not> redis_locked v w (a, b)"
    and "run (AcquireLock rc c a b) w = (r, es, w')"
  shows "\<not> isl r"
proof -
  obtain x where x: "fst (rc_Lock rc False (lockKey a b) (w_redis w)) = Inr x"
    using responsive_cmds(8) [OF redis_ready_typed(3) [OF assms(1)]] assms(3) unfolding redis_locked_def
    by fastforce
  with assms(2,4) show ?thesis
    unfolding AcquireLock_def Let_def by (elim responsive_bind) (auto simp: x)
qed

lemma ready_sound: "redis_ready rc v w \<Longrightarrow> redis_sound rc v w"
  by (simp add: redis_ready_def)

lemma ready_frame:
  "w_redis w' = w_redis w \<Longrightarrow> redis_ready rc v w' = redis_ready rc v w \<and>
     redis_view v w' = redis_view v w \<and> redis_locked v w' = redis_locked v w"
  using redis_frame [of w' w rc v] by (simp add: redis_ready_def)

interpretation redis_live: responsive_repository "NewPipelineRepository rc fuel" "redis_view v"
  "redis_ready rc v" "redis_locked v" redis_owns for rc fuel v
  apply unfold_locales
  unfolding repo_sel
  by (rule ready_contract, erule (1) SetState_contract [OF ready_sound], assumption,
      rule ready_contract, erule (1) ClearState_contract [OF ready_sound], assumption,
      rule ready_contract, erule (1) GetState_contract [OF ready_sound], assumption,
      rule ready_contract, erule (1) AppendToBuffer_contract [OF ready_sound], assumption,
      rule ready_contract, erule (1) GetBuffer_contract [OF ready_sound], assumption,
      rule ready_contract, erule (1) AppendAttachments_contract [OF ready_sound], assumption,
      rule ready_contract, erule (1) GetAttachments_contract [OF ready_sound], assumption,
      rule ready_contract, erule (1) SetTimer_contract [OF ready_sound], assumption,
      rule ready_contract, erule (1) DeleteTimer_contract [OF ready_sound], assumption,
      rule ready_contract, erule (1) TimerExists_contract [OF ready_sound], assumption,
      rule ready_contract, erule (1) AcquireLock_contract [OF ready_sound], assumption,
      rule ready_contract, erule (2) Unlock_contract [OF ready_sound], assumption,
      rule ready_contract, erule (1) ScanStates_contract [OF ready_sound], assumption,
      erule ready_frame,
      erule (2) one_command, erule (2) one_command, erule (2) GetState_responsive,
      erule (2) one_command, erule (2) one_command, erule (2) AppendAttachments_responsive,
      erule (2) GetAttachments_responsive, erule (2) one_command, erule (2) TimerExists_responsive,
      erule (3) AcquireLock_responsive)

section \<open>The debounce engine and the service on such a store\<close>

locale responsive_engine = debounce_engine +
  assumes Start_ok: "sound w \<Longrightarrow> \<not> ctx_done w c \<Longrightarrow>
      run (deb_Start deb c a b content atts cfg) w = (e, es, w') \<Longrightarrow> e = None"
    and Reset_ok: "sound w \<Longrightarrow> \<not> ctx_done w c \<Longrightarrow>
      run (deb_Reset deb c a b content atts cfg) w = (e, es, w') \<Longrightarrow> e = None"
    and GetBuffer_ok: "sound w \<Longrightarrow> \<not> ctx_done w c \<Longrightarrow>
      run (deb_GetBuffer deb c a b) w = (rb, es, w') \<Longrightarrow> \<not> isl rb"
    and GetAttachments_ok: "sound w \<Longrightarrow> \<not> ctx_done w c \<Longrightarrow>
      run (deb_GetAttachments deb c a b) w = (ra, es, w') \<Longrightarrow> \<not> isl ra"

lemma redis_only_done: "redis_only w w' \<Longrightarrow> ctx_done w' c = ctx_done w c"
  using redis_only_fields [of w w'] by (simp add: ctx_done_iff)

context responsive_repository
begin

lemma buffer_message_ok:
  assumes "sound w" "\<not> ctx_done w c"
    and "run (buffer_message m1 m2 m3 repo c a b content atts cfg) w = (e, es, w')"
  shows "e = None"
proof -
  obtain e1 es1 w1 where r1: "run (repo_AppendToBuffer repo c a b content) w = (e1, es1, w1)" by (rule prod_cases3)
  have 1: "sound w1" "\<not> ctx_done w1 c" "e1 = None"
    using AppendToBuffer [OF assms(1) r1] AppendToBuffer_ok [OF assms(1,2) r1] assms(2)
    by (auto simp: redis_only_done)
  obtain e2 es2 w2 where r2: "run (repo_AppendAttachments repo c a b atts) w1 = (e2, es2, w2)" by (rule prod_cases3)
  have 2: "sound w2" "\<not> ctx_done w2 c" "e2 = None"
    using AppendAttachments [OF 1(1) r2] AppendAttachments_ok [OF 1(1,2) r2] 1(2) by (auto simp: redis_only_done)
  obtain e3 es3 w3 where r3: "run (repo_SetTimer repo c a b (DebounceTime cfg * Second)) w2 = (e3, es3, w3)"
    by (rule prod_cases3)
  have "e3 = None" by (rule SetTimer_ok [OF 2(1,2) r3])
  with assms(3) r1 r2 r3 1 2 show ?thesis by (auto simp: buffer_message_def run_bind split: if_splits)
qed

end

sublocale responsive_repository \<subseteq> debounce_ok: responsive_engine "NewDebounceEngine repo" view sound
proof (unfold_locales; unfold deb_sel)
  fix w w' :: "('a, 'b) world" and c a b content atts cfg e es
  assume s: "sound w" "\<not> ctx_done w c"
  show "e = None" if "run (Debounce_Engine.Start repo c a b content atts cfg) w = (e, es, w')"
    using buffer_message_ok [OF s] that unfolding Start_buffer_message by blast
  show "e = None" if "run (Reset repo c a b content atts cfg) w = (e, es, w')"
    using buffer_message_ok [OF s] that unfolding Reset_buffer_message by blast
next
  fix w w' :: "('a, 'b) world" and c a b rb es
  assume s: "sound w" "\<not> ctx_done w c" and r: "run (GetBuffer repo c a b) w = (rb, es, w')"
  obtain x es1 w1 where r1: "run (repo_GetBuffer repo c a b) w = (x, es1, w1)" by (rule prod_cases3)
  from GetBuffer_ok [OF s r1] r r1 show "\<not> isl rb"
    by (auto simp: GetBuffer_def run_bind split: sum.splits)
qed (unfold GetAttachments_def, erule (2) GetAttachments_ok)

locale responsive_store = responsive_repository repo view sound locked owns +
    deb: responsive_engine deb view sound
  for repo :: "('r, 'n) PipelineRepository" and view sound locked owns
    and deb :: "('r, 'n) DebounceEngine"

sublocale responsive_store \<subseteq> store: pipeline_store repo view sound locked owns deb
  by unfold_locales

lemma wp_conj: "wp p P s \<Longrightarrow> wp p Q s \<Longrightarrow> wp p (\<lambda>a es s'. P a es s' \<and> Q a es s') s"
  by (simp add: wp_def split: prod.splits)

text \<open>The world has a live context, and only the store moves.\<close>

definition moved :: "(('r, 'n) world \<Rightarrow> bool) \<Rightarrow> ctx \<Rightarrow> ('r, 'n) world \<Rightarrow> bool" where
  "moved sound c w \<longleftrightarrow> sound w \<and> \<not> ctx_done w c"

context responsive_store
begin

lemma wp_writes_ok:
  assumes "moved sound c w" "\<And>es w'. moved sound c w' \<Longrightarrow> redis_only w w' \<Longrightarrow> Q None es w'"
  shows "wp (repo_SetState repo c a b st) Q w" "wp (repo_ClearState repo c a b) Q w"
    "wp (deb_Start deb c a b content atts cfg) Q w" "wp (deb_Reset deb c a b content atts cfg) Q w"
proof -
  have m: "sound w" "\<not> ctx_done w c" using assms(1) by (simp_all add: moved_def)
  have post: "Q e es w'" if "sound w'" "redis_only w w'" "e = None" for e es w'
    using that m assms(2) [of w' es] by (simp add: moved_def redis_only_done)
  show "wp (repo_SetState repo c a b st) Q w"
    by (rule wp_I, frule SetState [OF m(1)], drule SetState_ok [OF m]) (simp add: post)
  show "wp (repo_ClearState repo c a b) Q w"
    by (rule wp_I, frule ClearState [OF m(1)], drule ClearState_ok [OF m]) (simp add: post)
  show "wp (deb_Start deb c a b content atts cfg) Q w"
    by (rule wp_I, frule deb.Start [OF m(1)], drule deb.Start_ok [OF m]) (simp add: post)
  show "wp (deb_Reset deb c a b content atts cfg) Q w"
    by (rule wp_I, frule deb.Reset [OF m(1)], drule deb.Reset_ok [OF m]) (simp add: post)
qed

lemma wp_reads_ok:
  assumes "moved sound c w"
  shows "(\<And>es w'. moved sound c w' \<Longrightarrow> redis_only w w' \<Longrightarrow> view w' = view w \<Longrightarrow>
      Q1 (Inr (pv_state (view w (a, b)))) es w') \<Longrightarrow> wp (repo_GetState repo c a b) Q1 w"
    "(\<And>es w'. moved sound c w' \<Longrightarrow> redis_only w w' \<Longrightarrow> view w' = view w \<Longrightarrow>
      Q2 (Inr (aggregated (view w (a, b)))) es w') \<Longrightarrow> wp (deb_GetBuffer deb c a b) Q2 w"
    "(\<And>es w'. moved sound c w' \<Longrightarrow> redis_only w w' \<Longrightarrow> view w' = view w \<Longrightarrow>
      Q3 (Inr (pv_atts (view w (a, b)))) es w') \<Longrightarrow> wp (deb_GetAttachments deb c a b) Q3 w"
    "(\<And>es w'. moved sound c w' \<Longrightarrow> redis_only w w' \<Longrightarrow> view w' = view w \<Longrightarrow>
      Q4 (Inr (pv_timer (view w (a, b)))) es w') \<Longrightarrow> wp (repo_TimerExists repo c a b) Q4 w"
proof -
  have m: "sound w" "\<not> ctx_done w c" using assms by (simp_all add: moved_def)
  have m': "moved sound c w'" if "sound w'" "redis_only w w'" for w'
    using that m by (simp add: moved_def redis_only_done)
  show "wp (repo_GetState repo c a b) Q1 w" if Q: "\<And>es w'. moved sound c w' \<Longrightarrow> redis_only w w' \<Longrightarrow>
      view w' = view w \<Longrightarrow> Q1 (Inr (pv_state (view w (a, b)))) es w'"
  proof (rule wp_I)
    fix r es w' assume r: "run (repo_GetState repo c a b) w = (r, es, w')"
    from GetState [OF m(1) r] GetState_ok [OF m r] Q [of w' es] m' show "Q1 r es w'" by (cases r) auto
  qed
  show "wp (deb_GetBuffer deb c a b) Q2 w" if Q: "\<And>es w'. moved sound c w' \<Longrightarrow> redis_only w w' \<Longrightarrow>
      view w' = view w \<Longrightarrow> Q2 (Inr (aggregated (view w (a, b)))) es w'"
  proof (rule wp_I)
    fix r es w' assume r: "run (deb_GetBuffer deb c a b) w = (r, es, w')"
    from deb.GetBuffer [OF m(1) r] deb.GetBuffer_ok [OF m r] Q [of w' es] m' show "Q2 r es w'" by (cases r) auto
  qed
  show "wp (deb_GetAttachments deb c a b) Q3 w" if Q: "\<And>es w'. moved sound c w' \<Longrightarrow> redis_only w w' \<Longrightarrow>
      view w' = view w \<Longrightarrow> Q3 (Inr (pv_atts (view w (a, b)))) es w'"
  proof (rule wp_I)
    fix r es w' assume r: "run (deb_GetAttachments deb c a b) w = (r, es, w')"
    from deb.GetAttachments [OF m(1) r] deb.GetAttachments_ok [OF m r] Q [of w' es] m' show "Q3 r es w'"
      by (cases r) auto
  qed
  show "wp (repo_TimerExists repo c a b) Q4 w" if Q: "\<And>es w'. moved sound c w' \<Longrightarrow> redis_only w w' \<Longrightarrow>
      view w' = view w \<Longrightarrow> Q4 (Inr (pv_timer (view w (a, b)))) es w'"
  proof (rule wp_I)
    fix r es w' assume r: "run (repo_TimerExists repo c a b) w = (r, es, w')"
    from TimerExists [OF m(1) r] TimerExists_ok [OF m r] Q [of w' es] m' show "Q4 r es w'" by (cases r) auto
  qed
qed

lemma wp_lock_ok:
  assumes "moved sound c w" "\<not> locked w (a, b)"
    and "\<And>m es w'. moved sound c w' \<Longrightarrow> redis_only w w' \<Longrightarrow> view w' = view w \<Longrightarrow> owns m (a, b) \<Longrightarrow> Q (Inr m) es w'"
  shows "wp (repo_AcquireLock repo c a b) Q w"
proof (rule wp_I)
  have m: "sound w" "\<not> ctx_done w c" using assms(1) by (simp_all add: moved_def)
  fix r es w' assume r: "run (repo_AcquireLock repo c a b) w = (r, es, w')"
  from AcquireLock [OF m(1) r] AcquireLock_ok [OF m assms(2) r] assms(3) [of w' _ es] m(2)
  show "Q r es w'" by (cases r) (auto simp: moved_def redis_only_done)
qed

lemma moved_cong: "w_redis w' = w_redis w \<Longrightarrow> w_ctx_err w' = w_ctx_err w \<Longrightarrow> moved sound c w' = moved sound c w"
  using store.sound_cong [of w' w] by (simp add: moved_def ctx_done_iff)

lemma wp_begin_ok:
  assumes "moved sound c w" "ps_repo s = repo" "ps_debounce s = deb"
  shows "wp (begin_pipeline s c ev) (\<lambda>e _ _. e = None) w"
proof -
  let ?a = "ev_ContactID ev" and ?b = "ev_ConversationID ev"
  have m: "moved sound c (entries_put k x (w \<lparr> w_next_ctx := n \<rparr>))" for k x n
    using assms(1) moved_cong [of "entries_put k x (w \<lparr> w_next_ctx := n \<rparr>)" w] by simp
  show ?thesis
  proof (cases "DebounceTime (ev_BotConfig ev) = 0")
    case True
    have "wp (skipDebounce s c ev) (\<lambda>e _ _. e = None) w"
      unfolding skipDebounce_def Let_def assms(2,3) wp_bind wp_WithCancel wp_entries
      apply (rule wp_writes_ok(3) [OF m])
      apply (simp only: option.case wp_bind)
      apply (rule wp_reads_ok(2), assumption)
      apply (simp only: sum.case wp_bind)
      apply (rule wp_reads_ok(3), assumption)
      apply (simp only: sum.case wp_bind wp_reads)
      apply (rule wp_writes_ok(1), assumption)
      apply (simp only: option.case wp_bind store.wp_launchAIStage wp_Done split: option.split)
      apply simp
      done
    with True show ?thesis by (simp add: begin_pipeline_def)
  next
    case False
    have "wp (startDebounce s c ev) (\<lambda>e _ _. e = None) w"
      unfolding startDebounce_def Let_def assms(2,3) wp_bind wp_WithCancel wp_entries
      apply (rule wp_writes_ok(3) [OF m])
      apply (simp only: option.case wp_bind wp_reads)
      apply (rule wp_writes_ok(1), assumption)
      apply (simp only: option.case wp_Done)
      done
    with False show ?thesis by (simp add: begin_pipeline_def)
  qed
qed

end

text \<open>The context of a call is none of the contexts the call may cancel.\<close>

definition apart :: "ctx \<Rightarrow> int64 \<Rightarrow> int64 \<Rightarrow> ('r, 'n) world \<Rightarrow> bool" where
  "apart c a b w \<longleftrightarrow> (\<forall>x. entries_Load w (pairKey a b) = Some x \<longrightarrow> en_ctx x \<noteq> [] \<and> hd (en_ctx x) \<notin> set c)"

lemma apart_redis_only: "redis_only w w' \<Longrightarrow> apart c a b w' = apart c a b w"
  using redis_only_fields [of w w'] by (simp add: apart_def entries_Load_def)

lemma cancelled_pair_done: "apart c a b w \<Longrightarrow> ctx_done (cancelled_pair a b w) c = ctx_done w c"
  by (auto simp: apart_def cancelled_pair_def ctx_done_iff finish_ctx_def split: option.splits)

lemma wp_cancelPair_any: "(\<And>es. Q () es (cancelled_pair a b w)) \<Longrightarrow> wp (cancelPair s a b) Q w"
  by (auto simp: cancelPair_def cancelled_pair_def wp_steps split: option.splits)

context responsive_store
begin

lemma moved_cancelled: "moved sound c w \<Longrightarrow> apart c a b w \<Longrightarrow> moved sound c (cancelled_pair a b w)"
  using store.sound_cong [of "cancelled_pair a b w" w] by (simp add: moved_def cancelled_pair_done)

lemma wp_process_state_ok:
  assumes "moved sound c w" "ps_repo s = repo" "ps_debounce s = deb" "apart c (ev_ContactID ev) (ev_ConversationID ev) w"
  shows "wp (process_state s c ev st) (\<lambda>e _ _. e = None) w"
proof -
  let ?a = "ev_ContactID ev" and ?b = "ev_ConversationID ev" and ?stage = "map_option st_Stage st"
  have fresh: "wp (pbind (cancelPair s ?a ?b) (\<lambda>_. begin_pipeline s c ev)) (\<lambda>e _ _. e = None) w"
    unfolding wp_bind
    by (rule wp_cancelPair_any, rule wp_begin_ok [OF moved_cancelled [OF assms(1,4)] assms(2,3)])
  have interrupt: "wp (pbind (cancelPair s ?a ?b) (\<lambda>_. pbind (repo_ClearState repo c ?a ?b) (\<lambda>e. case e of
      Some err \<Rightarrow> Done (Some (Wrap ''pipeline.process.clear'' err)) | None \<Rightarrow> begin_pipeline s c ev)))
    (\<lambda>e _ _. e = None) w"
    unfolding wp_bind
    by (rule wp_cancelPair_any, rule wp_writes_ok(2) [OF moved_cancelled [OF assms(1,4)]])
      (simp only: option.case, erule wp_begin_ok [OF _ assms(2,3)])
  have reset: "wp (resetDebounce s c ev) (\<lambda>e _ _. e = None) w"
    unfolding resetDebounce_def assms(3) wp_bind
    by (rule wp_writes_ok(4) [OF assms(1)]) (simp only: option.case wp_Done)
  show ?thesis
    unfolding process_state_def Let_def assms(2)
    by (simp only: fresh interrupt reset wp_Done simp_thms split: if_split)
qed

lemma wp_Process_ok:
  assumes "moved sound c w" "ps_repo s = repo" "ps_debounce s = deb"
    and "apart c (ev_ContactID ev) (ev_ConversationID ev) w"
    and "\<not> locked w (ev_ContactID ev, ev_ConversationID ev)"
  shows "wp (Process s c ev) (\<lambda>e _ _. e = None) w"
  unfolding Process_def assms(2) wp_bind [of "repo_AcquireLock repo c a b" for a b]
proof (rule wp_lock_ok [OF assms(1,5)])
  let ?a = "ev_ContactID ev" and ?b = "ev_ConversationID ev"
  fix m :: mutex and es w1
  assume m1: "moved sound c w1" and r1: "redis_only w w1" and own: "owns m (?a, ?b)"
  have "wp (pbind (repo_GetState repo c ?a ?b) (\<lambda>r. case r of
        Inl err \<Rightarrow> Done (Some (Wrap ''pipeline.process.get_state'' err))
      | Inr st \<Rightarrow> process_state s c ev st)) (\<lambda>e _ _. e = None) w1"
    unfolding wp_bind
    by (rule wp_reads_ok(1) [OF m1])
      (simp only: sum.case, erule wp_process_state_ok [OF _ assms(2,3)], use assms(4) r1 apart_redis_only in blast)
  then have "wp (pbind (pbind (repo_GetState repo c ?a ?b) (\<lambda>r. case r of
        Inl err \<Rightarrow> Done (Some (Wrap ''pipeline.process.get_state'' err))
      | Inr st \<Rightarrow> process_state s c ev st)) (\<lambda>e. pbind (repo_Unlock repo m) (\<lambda>_. Done e))) (\<lambda>e _ _. e = None) w1"
    unfolding wp_bind [of "pbind p f" for p f] wp_bind [of "repo_Unlock repo m"] wp_Done
    by (rule wp_mono) (simp add: wp_def split: prod.splits)
  then show "wp (case Inr m of Inl _ \<Rightarrow> Done (Some ErrLockFailed)
      | Inr mu \<Rightarrow> pbind (pbind (repo_GetState repo c ?a ?b) (\<lambda>r. case r of
            Inl err \<Rightarrow> Done (Some (Wrap ''pipeline.process.get_state'' err))
          | Inr st \<Rightarrow> process_state s c ev st)) (\<lambda>e. pbind (repo_Unlock repo mu) (\<lambda>_. Done e)))
      (\<lambda>e es' w'. e = None) w1" by simp
qed

text \<open>An expired window that is not locked always advances.\<close>

lemma wp_advance_locked_ok:
  assumes "sound w" "ps_repo s = repo" "ps_debounce s = deb"
    and "due (view w (a, b))" "entries_Load w (pairKey a b) = Some x"
  shows "wp (advance_locked s a b) (\<lambda>_ es w'. w_launched w' = w_launched w @
    [ai_goroutine x a b (view w (a, b)) (pv_atts (view w (a, b)))]) w"
proof -
  have m: "moved sound Background w" using assms(1) by (simp add: moved_def)
  obtain st where st: "pv_state (view w (a, b)) = Some st" "st_Stage st = StageDebounce" "\<not> pv_timer (view w (a, b))"
    using assms(4) by (auto simp: due_def)
  then have stage: "\<exists>st. (Inr (pv_state (view w (a, b))) :: go_error + PipelineState option) = Inr (Some st) \<and>
    st_Stage st = StageDebounce" by simp
  show ?thesis
    unfolding advance_locked_def Let_def assms(2,3) wp_bind
    apply (rule wp_reads_ok(1) [OF m])
    apply (simp only: stage not_not simp_thms if_False wp_bind)
    apply (rule wp_reads_ok(4), assumption)
    apply (simp only: st(3) simp_thms if_False wp_bind)
    apply (rule wp_reads_ok(2), assumption)
    apply (simp only: sum.case wp_bind)
    apply (rule wp_reads_ok(3), assumption)
    apply (simp only: sum.case wp_bind wp_reads)
    apply (rule wp_writes_ok(1), assumption)
    subgoal for es1 w1 es2 w2 es3 w3 es4 w4 es5 w5
      using assms(5) redis_only_fields [of w w1] redis_only_fields [of w1 w2] redis_only_fields [of w2 w3]
        redis_only_fields [of w3 w4] redis_only_fields [of w4 w5]
      by (simp add: store.wp_launchAIStage entries_Load_def ai_goroutine_def)
    done
qed

lemma wp_advance_ok:
  assumes "sound w" "ps_repo s = repo" "ps_debounce s = deb" "\<not> locked w (a, b)"
    and "due (view w (a, b))" "entries_Load w (pairKey a b) = Some x"
  shows "wp (advanceToAI s a b) (\<lambda>_ es w'. w_launched w' = w_launched w @
    [ai_goroutine x a b (view w (a, b)) (pv_atts (view w (a, b)))]) w"
  unfolding advanceToAI_def assms(2) wp_bind [of "repo_AcquireLock repo Background a b"]
proof (rule wp_lock_ok [OF _ assms(4)])
  show "moved sound Background w" using assms(1) by (simp add: moved_def)
  fix m :: mutex and es w1
  assume m1: "moved sound Background w1" and r1: "redis_only w w1" and v1: "view w1 = view w" and own: "owns m (a, b)"
  note f = redis_only_fields [OF r1]
  let ?g = "ai_goroutine x a b (view w (a, b)) (pv_atts (view w (a, b)))"
  have "wp (advance_locked s a b) (\<lambda>_ es w'. w_launched w' = w_launched w @ [?g]) w1"
    using wp_advance_locked_ok [OF _ assms(2,3), of w1 a b x] m1 assms(5,6) f
    by (simp add: moved_def v1 entries_Load_def)
  moreover have "wp (advance_locked s a b) (\<lambda>_ es w'. sound w') w1"
    using wp_mono [OF store.wp_advance_locked [OF _ assms(2,3), of w1 a b]] m1 by (simp add: moved_def)
  ultimately have "wp (advance_locked s a b) (\<lambda>_ es w'. w_launched w' = w_launched w @ [?g] \<and> sound w') w1"
    by (rule wp_conj)
  then have "wp (pbind (advance_locked s a b) (\<lambda>_. pbind (repo_Unlock repo m) (\<lambda>_. Done ())))
      (\<lambda>_ es w'. w_launched w' = w_launched w @ [?g]) w1"
    unfolding wp_bind wp_Done
    by (rule wp_mono) (rule store.wp_Unlock [OF _ own], simp_all add: redis_only_fields)
  then show "wp (case Inr m of Inl _ \<Rightarrow> Done ()
      | Inr mu \<Rightarrow> pbind (advance_locked s a b) (\<lambda>_. pbind (repo_Unlock repo mu) (\<lambda>_. Done ())))
      (\<lambda>_ es' w'. w_launched w' = w_launched w @ [?g]) w1" by simp
qed

text \<open>The cleanup of a stage runs on contexts of its own, which are live.\<close>

lemma wp_clear_ok:
  assumes "sound w" "ctx_ok w"
    and "\<And>es w'. sound w' \<Longrightarrow> besides_store w w' \<Longrightarrow> view w' = (view w)((a, b) := blank) \<Longrightarrow> Q () es w'"
    and "ps_repo s = repo"
  shows "wp (clearStateWithLog s a b) Q w"
proof -
  let ?w0 = "w \<lparr> w_next_ctx := Suc (w_next_ctx w) \<rparr>"
  have m0: "moved sound [w_next_ctx w] ?w0"
    using assms(1,2) by (simp add: moved_def ctx_done_iff ctx_ok_def)
  have "wp (pbind (repo_ClearState repo [w_next_ctx w] a b) (\<lambda>_. cancel [w_next_ctx w])) Q ?w0"
    unfolding wp_bind wp_cancel
  proof (rule wp_I)
    fix e es w1
    assume r: "run (repo_ClearState repo [w_next_ctx w] a b) ?w0 = (e, es, w1)"
    have m: "sound ?w0" "\<not> ctx_done ?w0 [w_next_ctx w]" using m0 by (simp_all add: moved_def)
    have "sound w1" "besides_store w (finish_ctx Canceled [w_next_ctx w] w1)"
      "view w1 = (view w)((a, b) := blank)"
      using ClearState [OF m(1) r] ClearState_ok [OF m r] redis_only_besides [of ?w0 w1]
      by (auto intro: besides_store_fresh)
    then show "Q () (es @ (if [w_next_ctx w] = [] then [] else [EvCancel (hd [w_next_ctx w])]))
        (finish_ctx Canceled [w_next_ctx w] w1)"
      by (intro assms(3)) simp_all
  qed
  then show ?thesis
    by (simp add: clearStateWithLog_def cleanupCtx_def wp_bind wp_WithTimeout assms(4))
qed

lemma wp_stage_ok:
  assumes "sound w" "ctx_ok w"
    and "\<And>w'. sound w' \<Longrightarrow> besides_store w w' \<Longrightarrow>
      view w' = (view w)((a, b) := (view w (a, b)) \<lparr> pv_state := Some (norm_state st) \<rparr>) \<Longrightarrow>
      wp (f None) (\<lambda>x _. Q x) w'"
  shows "wp (pbind cleanupCtx (\<lambda>c. pbind (repo_SetState repo c a b st) (\<lambda>e. pbind (cancel c) (\<lambda>_. f e))))
    (\<lambda>x _. Q x) w"
proof -
  let ?w0 = "w \<lparr> w_next_ctx := Suc (w_next_ctx w) \<rparr>" and ?c = "[w_next_ctx w]"
  have m: "sound ?w0" "\<not> ctx_done ?w0 ?c"
    using assms(1,2) by (simp_all add: ctx_done_iff ctx_ok_def)
  have "wp (pbind (repo_SetState repo ?c a b st) (\<lambda>e. pbind (cancel ?c) (\<lambda>_. f e))) (\<lambda>x _. Q x) ?w0"
    unfolding wp_bind wp_cancel
  proof (rule wp_I)
    fix e es w1
    assume r: "run (repo_SetState repo ?c a b st) ?w0 = (e, es, w1)"
    have "e = None" using SetState_ok [OF m r] .
    moreover have "sound (finish_ctx Canceled ?c w1)" "besides_store w (finish_ctx Canceled ?c w1)"
      "view (finish_ctx Canceled ?c w1) = (view w)((a, b) := (view w (a, b)) \<lparr> pv_state := Some (norm_state st) \<rparr>)"
      using SetState [OF m(1) r] \<open>e = None\<close> redis_only_besides [of ?w0 w1]
      by (auto intro: besides_store_fresh)
    ultimately show "wp (f e) (\<lambda>x _. Q x) (finish_ctx Canceled ?c w1)" using assms(3) by simp
  qed
  then show ?thesis by (simp add: cleanupCtx_def wp_bind wp_WithTimeout)
qed

end

text \<open>What a stage leaves as it was: the entries and the contexts that existed.\<close>

definition kept :: "('r, 'n) world \<Rightarrow> ('r, 'n) world \<Rightarrow> bool" where
  "kept w w' \<longleftrightarrow> (\<forall>k. entries_Load w' k = entries_Load w k) \<and>
     (\<forall>c. (\<forall>i \<in> set c. i < w_next_ctx w) \<longrightarrow> ctx_done w' c = ctx_done w c) \<and> w_next_ctx w \<le> w_next_ctx w'"

definition staged :: "Stage \<Rightarrow> string \<Rightarrow> pair_view \<Rightarrow> pair_view" where
  "staged stage now pv = pv \<lparr> pv_state := Some (norm_state (stageState stage now)) \<rparr>"

text \<open>The AI stage ended with a reply: the stage is dispatch, and the dispatch is launched.\<close>

definition replied ::
  "(('r, 'n) world \<Rightarrow> store) \<Rightarrow> ctx \<Rightarrow> int64 \<Rightarrow> int64 \<Rightarrow> string \<Rightarrow> BotConfig \<Rightarrow> string \<Rightarrow>
     ('r, 'n) world \<Rightarrow> ('r, 'n) world \<Rightarrow> bool" where
  "replied view c a b content cfg url w w' \<longleftrightarrow>
     view w' = (view w)((a, b) := staged StageDispatch (w_now w) (view w (a, b))) \<and> kept w w' \<and>
     w_launched w' = w_launched w @ [GoDispatch c a b content cfg url]"

text \<open>The dispatch stage ended well: the pair is blank and has no entry.\<close>

definition wiped :: "(('r, 'n) world \<Rightarrow> store) \<Rightarrow> int64 \<Rightarrow> int64 \<Rightarrow> ('r, 'n) world \<Rightarrow> ('r, 'n) world \<Rightarrow> bool" where
  "wiped view a b w w' \<longleftrightarrow> view w' = (view w)((a, b) := blank) \<and>
     (\<forall>k. entries_Load w' k = (if k = pairKey a b then None else entries_Load w k)) \<and>
     w_launched w' = w_launched w"

lemma besides_store_kept: "besides_store w w' \<Longrightarrow> kept w w'"
  by (auto simp: kept_def besides_store_Load ctx_done_iff besides_store_iff)

lemma kept_trans: "kept w w1 \<Longrightarrow> kept w1 w2 \<Longrightarrow> kept w w2"
  unfolding kept_def by (elim conjE, intro conjI) (simp_all, meson order_less_le_trans)

lemma quiet_kept: "quiet w w' \<Longrightarrow> kept w w'"
  by (rule besides_store_kept [OF quiet_besides])

context responsive_store
begin

lemma wp_ai_succeeded_ok:
  assumes "sound w" "ctx_ok w" "ps_repo s = repo"
  shows "wp (ai_succeeded s c a b cfg url (Some r)) (\<lambda>p _ w'. \<not> p \<and> sound w' \<and> ctx_ok w' \<and>
    replied view c a b (nr_Content r) cfg url w w') w"
  unfolding ai_succeeded_def assms(3) wp_bind [of Now] wp_reads append_Nil
proof (rule wp_stage_ok [OF assms(1,2)])
  fix w1
  assume s1: "sound w1" and k1: "besides_store w w1" and
    v1: "view w1 = (view w)((a, b) := (view w (a, b)) \<lparr> pv_state := Some (norm_state (stageState StageDispatch (w_now w))) \<rparr>)"
  have "kept w (w1 \<lparr> w_launched := l \<rparr>)" for l
    using besides_store_kept [OF k1] by (simp add: kept_def ctx_done_iff)
  with s1 v1 k1 besides_store_ok [OF k1 assms(2)]
  show "wp (if None \<noteq> None then pbind (clearStateWithLog s a b) (\<lambda>_. Done False)
      else launchDispatchStage s c a b (Some r) cfg url) (\<lambda>p _ w'. \<not> p \<and> sound w' \<and> ctx_ok w' \<and>
    replied view c a b (nr_Content r) cfg url w w') w1"
    by (simp add: launchDispatchStage_def wp_steps replied_def staged_def besides_store_iff)
qed

lemma wp_runAIStage_ok:
  assumes "sound w" "ctx_ok w" "ps_repo s = repo"
    and "run (ai_Call (ps_aiAdapter s) c (a2a_request a b buffer atts (entries_Load w (pairKey a b)))) w
      = (Inr (Some r), es, w1)" "quiet w w1"
  shows "wp (runAIStage s c a b buffer atts cfg url) (\<lambda>_ _ w'. sound w' \<and> ctx_ok w' \<and>
    replied view c a b (nr_Content r) cfg url w w') w"
proof -
  have v1: "view w1 = view w" "sound w1" and ok1: "ctx_ok w1"
    using assms(1,2,5) store.view_cong [of w1 w] store.sound_cong [of w1 w] besides_store_ok [OF quiet_besides]
    by (simp_all add: quiet_def)
  have trans: "replied view c a b (nr_Content r) cfg url w w'" if "replied view c a b (nr_Content r) cfg url w1 w'" for w'
    using that kept_trans [OF quiet_kept [OF assms(5)]] assms(5) by (simp add: replied_def v1 quiet_def)
  have "wp (ai_succeeded s c a b cfg url (Some r)) (\<lambda>p _ w'. \<not> p \<and> sound w' \<and> ctx_ok w' \<and>
      replied view c a b (nr_Content r) cfg url w w') w1"
    by (rule wp_mono [OF wp_ai_succeeded_ok [OF v1(2) ok1 assms(3)]]) (simp add: trans)
  then have "wp (pbind (ai_succeeded s c a b cfg url (Some r)) (recoverPipeline s a b))
      (\<lambda>_ _ w'. sound w' \<and> ctx_ok w' \<and> replied view c a b (nr_Content r) cfg url w w') w1"
    unfolding wp_bind by (rule wp_mono) (simp add: recoverPipeline_def wp_Done)
  then show ?thesis
    using assms(4) by (simp add: runAIStage_def wp_def run_bind Load_def run_get split: prod.splits)
qed

lemma wp_runDispatch_ok:
  assumes "sound w" "ctx_ok w" "ps_repo s = repo"
    and "run (dsp_Dispatch (ps_dispatchEng s) c a b content cfg url) w = (None, es, w1)" "quiet w w1"
  shows "wp (runDispatchStage s c a b content cfg url) (\<lambda>_ _ w'. sound w' \<and> ctx_ok w' \<and> wiped view a b w w') w"
proof -
  have v1: "view w1 = view w" "sound w1" and ok1: "ctx_ok w1"
    using assms(1,2,5) store.view_cong [of w1 w] store.sound_cong [of w1 w] besides_store_ok [OF quiet_besides]
    by (simp_all add: quiet_def)
  let ?Q = "\<lambda>p w'. \<not> p \<and> sound w' \<and> ctx_ok w' \<and> wiped view a b w w'"
  let ?finish = "pbind (clearStateWithLog s a b) (\<lambda>_. pbind (Delete (pairKey a b)) (\<lambda>_. Done False))"
  have "wp ?finish (\<lambda>p _. ?Q p) w2"
    if w2: "sound w2" "besides_store w1 w2"
      "view w2 = (view w1)((a, b) := (view w1 (a, b)) \<lparr> pv_state := Some (norm_state (stageState StageDone (w_now w1))) \<rparr>)" for w2
    unfolding wp_bind
  proof (rule wp_clear_ok [OF w2(1) _ _ assms(3)])
    show ok2: "ctx_ok w2" using w2(2) ok1 by (rule besides_store_ok)
    fix es2 w3
    assume w3: "sound w3" "besides_store w2 w3" "view w3 = (view w2)((a, b) := blank)"
    have "besides_store w w3"
      using besides_store_trans [OF besides_store_trans [OF quiet_besides [OF assms(5)] w2(2)] w3(2)] .
    with w2(3) w3 ok2 show "wp (Delete (pairKey a b)) (\<lambda>_ es'. wp (Done False) (\<lambda>p es''. ?Q p)) w3"
      by (auto simp: wp_steps wiped_def v1 besides_store_Load besides_store_iff
          intro: besides_store_ok [OF w3(2)])
  qed
  then have "wp (pbind Now (\<lambda>now. pbind cleanupCtx (\<lambda>doneCtx.
      pbind (repo_SetState repo doneCtx a b (stageState StageDone now)) (\<lambda>_.
      pbind (cancel doneCtx) (\<lambda>_. ?finish))))) (\<lambda>p _. ?Q p) w1"
    unfolding wp_bind [of Now] wp_reads by (intro wp_stage_ok [OF v1(2) ok1])
  then show ?thesis
    using assms(4) by (simp add: runDispatchStage_def wp_def run_bind recoverPipeline_def assms(3) split: prod.splits)
qed

end

interpretation redis_service: responsive_store "NewPipelineRepository rc fuel" "redis_view v"
  "redis_ready rc v" "redis_locked v" redis_owns "NewDebounceEngine (NewPipelineRepository rc fuel)" for rc fuel v
  by unfold_locales

end
