(* ===== verification/Service_Parts.thy ===== *)
theory Service_Parts
  imports Ai_Calls Dispatch_Engine Pipeline_Progress
begin

text \<open>
  The two outgoing services the pipeline calls, as interfaces: what it relies on is a locale
  for each, and both are interpreted on the adapter and the engine of the program.
\<close>

section \<open>The interfaces\<close>

text \<open>A call leaves the store, the entries, the goroutines and the contexts of the service alone.\<close>

locale ai_adapter =
  fixes ad :: "('r, 'n) AIAdapter"
  assumes Call_quiet: "quiet_prog (ai_Call ad c rq)"

locale dispatch_engine =
  fixes de :: "('r, 'n) DispatchEngine"
  assumes Dispatch_quiet: "quiet_prog (dsp_Dispatch de c a b content cfg url)"

lemma pbind_assoc: "pbind (pbind p f) g = pbind p (\<lambda>x. pbind (f x) g)"
  by (induction p) simp_all

section \<open>The network is none of the service's business\<close>

lemma quietly_round_trip [quietly]: "quiet_prog (round_trip env c req)"
  by (simp add: quiet_prog_def round_trip_def wp_atomic quiet_def split: prod.splits)

lemma quietly_do_loop [quietly]:
  "quiet_prog (do_loop env check c fuel via req :: ('r, 'n, go_error + http_response) go)"
proof (induction fuel arbitrary: via req)
  case 0
  then show ?case by (simp add: quietly)
next
  case (Suc fuel)
  show ?case
    unfolding do_loop.simps Let_def
    by (rule quietly_bind [OF quietly_round_trip])
      (simp add: quietly_Done Suc.IH split: sum.split option.split)
qed

lemma quietly_Do [quietly]: "quiet_prog (Do env check c req)"
  unfolding Do_def by (intro quietly)

lemma quietly_cancelled_timeout [quietly]:
  assumes "\<And>t. quiet_prog (p t)"
  shows "quiet_prog (pbind (WithTimeout c d) (\<lambda>t. pbind (p t) (\<lambda>r. pbind (cancel t) (\<lambda>_. Done r))))"
  using quietly_WithTimeout [OF assms, where f = "\<lambda>r. r"] .

section \<open>The dispatch engine\<close>

lemma quietly_sendPart [quietly]: "quiet_prog (sendPart env d c u content atts)"
  unfolding sendPart_def
  by (cases "NewRequest env ''POST'' u (post_body content atts)")
    (auto simp: quietly split: sum.split intro!: quietly_bind)

lemma quietly_part_loop [quietly]:
  "quiet_prog (part_loop env d c cfg u n i parts :: ('r, 'n, go_error option) go)"
proof (induction parts arbitrary: i)
  case Nil
  then show ?case by (simp add: quietly)
next
  case (Cons part parts)
  show ?case
    unfolding part_loop.simps
    by (auto simp: quietly Cons.IH split: option.split intro!: quietly_bind)
qed

lemma quietly_Dispatch: "quiet_prog (Dispatch env d c a b content cfg u)"
  unfolding Dispatch_def Let_def
  by (auto simp: quietly split: option.split prod.split intro!: quietly_bind)

section \<open>The AI adapter\<close>

lemma quietly_download [quietly]: "quiet_prog (downloadAttachment env c client u d limit)"
  unfolding downloadAttachment_def
  by (rule quietly_cancelled_timeout) (auto simp: quietly split: sum.split intro!: quietly_bind)

lemma quietly_parts_loop [quietly]:
  "quiet_prog (parts_loop env c hosts d atts remaining parts :: ('r, 'n, JSONRPCPart list) go)"
proof (induction atts arbitrary: remaining parts)
  case Nil
  then show ?case by (simp add: quietly)
next
  case (Cons att atts)
  show ?case
    unfolding parts_loop.simps Let_def
    by (auto simp: quietly Cons.IH split: option.split sum.split prod.split intro!: quietly_bind)
qed

lemma quietly_buildFileParts [quietly]:
  "quiet_prog (buildFileParts env a c req :: ('r, 'n, JSONRPCPart list) go)"
proof -
  have loop: "quiet_prog (pbind allowedMediaHosts (\<lambda>hosts. parts_loop env t hosts d atts m ps))" for t d atts m ps
    unfolding allowedMediaHosts_def by (auto simp: quietly intro!: quietly_bind)
  have "quiet_prog (pbind (WithTimeout c (attachmentsTotalTimeFactor * attachmentTimeout a)) (\<lambda>t.
      pbind (pbind allowedMediaHosts (\<lambda>hosts. parts_loop env t hosts (attachmentTimeout a) (rq_Attachments req)
        maxAttachmentsTotalBytes [])) (\<lambda>parts. pbind (cancel t) (\<lambda>_. Done parts))) ::
      ('r, 'n, JSONRPCPart list) go)"
    by (rule quietly_cancelled_timeout [OF loop])
  then show ?thesis by (simp add: buildFileParts_def Let_def pbind_assoc quietly)
qed

lemma quietly_backoff [quietly]: "quiet_prog (backoffDelay a n)"
  unfolding backoffDelay_def Let_def by (intro quietly)

lemma quietly_doOnce [quietly]: "quiet_prog (doOnce env a c url body apiKey)"
  unfolding doOnce_def
  by (rule quietly_cancelled_timeout) (auto simp: quietly split: sum.split intro!: quietly_bind)

lemma quietly_retry_loop [quietly]:
  "quiet_prog (retry_loop env a c url body apiKey left n lastErr ::
     ('r, 'n, go_error + NormalizedResponse option) go)"
proof (induction left arbitrary: n lastErr)
  case 0
  then show ?case by (simp add: quietly)
next
  case (Suc left)
  show ?case
    unfolding retry_loop.simps
    by (auto simp: quietly Suc.IH split: sum.split prod.split intro!: quietly_bind)
qed

lemma quietly_Call: "quiet_prog (Call env a c req)"
  unfolding Call_def Let_def
  by (rule quietly_bind [OF quietly_buildFileParts])
    (auto simp: quietly intro!: quietly_cancelled_timeout)

section \<open>Both parts as the service holds them\<close>

definition adapter_of :: "'n http_env \<Rightarrow> aiAdapter \<Rightarrow> ('r, 'n) AIAdapter" where
  "adapter_of env a = \<lparr> ai_Call = Call env a \<rparr>"

definition engine_of :: "'n http_env \<Rightarrow> dispatchEngineImpl \<Rightarrow> ('r, 'n) DispatchEngine" where
  "engine_of env d = \<lparr> dsp_Dispatch = Dispatch env d \<rparr>"

interpretation processor: ai_adapter "adapter_of env a" for env a
  by unfold_locales (simp add: adapter_of_def quietly_Call)

interpretation postback: dispatch_engine "engine_of env d" for env d
  by unfold_locales (simp add: engine_of_def quietly_Dispatch)

end
