(* ===== verification/Http_Handler.thy ===== *)
theory Http_Handler
  imports Service_Parts
begin

text \<open>
  \<open>pkg/pipeline/handler/handler.go\<close> and \<open>middleware.go\<close>: the two routes of the service. Gin
  itself is not modelled: a request is what the handlers read of it, a response the event
  \<open>EvRespond\<close> with the status and the fields of the JSON object.
\<close>

section \<open>The interface of the pipeline\<close>

record ('r, 'n) PipelineService =
  svc_Start :: "('r, 'n, go_error option option) go"
  svc_Process :: "ctx \<Rightarrow> MessageEvent \<Rightarrow> ('r, 'n, go_error option) go"
  svc_Cancel :: "int64 \<Rightarrow> int64 \<Rightarrow> ('r, 'n, go_error option) go"
  svc_Shutdown :: "ctx \<Rightarrow> nat \<Rightarrow> ('r, 'n, bool option) go"

definition service_iface :: "('r, 'n) pipelineService \<Rightarrow> ('r, 'n) PipelineService" where
  "service_iface s = \<lparr> svc_Start = Pipeline_Service.Start s, svc_Process = Process s,
     svc_Cancel = Cancel s, svc_Shutdown = Shutdown \<rparr>"

record ('r, 'n) Handler =
  h_repo :: "('r, 'n) PipelineRepository"
  h_svc :: "('r, 'n) PipelineService"
  h_secret :: string

definition NewHandler ::
  "('r, 'n) PipelineRepository \<Rightarrow> ('r, 'n) PipelineService \<Rightarrow> string \<Rightarrow> ('r, 'n) Handler" where
  "NewHandler repo svc secret = \<lparr> h_repo = repo, h_svc = svc, h_secret = secret \<rparr>"

section \<open>Requests\<close>

text \<open>The header names are in the canonical form the server reads them into.\<close>

record http_in =
  hi_Method :: string
  hi_Path :: string
  hi_Headers :: "(string \<times> string) list"
  hi_Body :: string
  hi_ctx :: ctx

definition respond :: "int \<Rightarrow> (string \<times> string) list \<Rightarrow> ('r, 'n, unit) go" where
  "respond status obj = emit (EvRespond status obj)"

section \<open>The middleware\<close>

definition SecretMiddleware ::
  "string \<Rightarrow> (http_in \<Rightarrow> ('r, 'n, unit) go) \<Rightarrow> http_in \<Rightarrow> ('r, 'n, unit) go" where
  "SecretMiddleware secret next_handler c =
     (if header_get (hi_Headers c) ''X-Bot-Runtime-Secret'' \<noteq> secret
      then respond 401 [(''error'', ''unauthorized''), (''code'', ''ERR_UNAUTHORIZED'')]
      else next_handler c)"

section \<open>The handlers\<close>

definition handleHealth :: "('r, 'n) Handler \<Rightarrow> http_in \<Rightarrow> ('r, 'n, unit) go" where
  "handleHealth h c =
     pbind (repo_Ping (h_repo h) (hi_ctx c)) (\<lambda>e.
     if e \<noteq> None
     then respond 503 [(''status'', ''error''), (''detail'', ''redis unreachable'')]
     else respond 200 [(''status'', ''ok'')])"

text \<open>\<open>ShouldBindJSON\<close>: the first JSON value of the body, into the event; it has no binding tags.\<close>

definition bind_event :: "string \<Rightarrow> MessageEvent option" where
  "bind_event body = Option.bind (json_decode_first body) event_of"

definition handleEvent :: "('r, 'n) Handler \<Rightarrow> http_in \<Rightarrow> ('r, 'n, unit) go" where
  "handleEvent h c =
     (case bind_event (hi_Body c) of
        None \<Rightarrow> respond 400 [(''error'', ''invalid payload''), (''code'', ''ERR_INVALID_EVENT'')]
      | Some event \<Rightarrow>
          (case Validate event of
             Some err \<Rightarrow> respond 400 [(''error'', error_text err), (''code'', ''ERR_INVALID_EVENT'')]
           | None \<Rightarrow>
               pbind Now (\<lambda>now.
               pbind (repo_SetState (h_repo h) (hi_ctx c) (ev_ContactID event) (ev_ConversationID event)
                        (stageState StageIncoming now)) (\<lambda>e.
               if e \<noteq> None
               then respond 500 [(''error'', ''internal error''), (''code'', ''ERR_INTERNAL'')]
               else pbind (go_launch (GoProcess event)) (\<lambda>_.
                    respond 202 [(''status'', ''accepted'')])))))"

definition runProcess :: "('r, 'n) Handler \<Rightarrow> MessageEvent \<Rightarrow> ('r, 'n, unit) go" where
  "runProcess h event = pbind (svc_Process (h_svc h) Background event) (\<lambda>_. Done ())"

text \<open>The routing table; a request for no route is answered by gin.\<close>

definition RegisterRoutes :: "('r, 'n) Handler \<Rightarrow> string \<Rightarrow> string \<Rightarrow> (http_in \<Rightarrow> ('r, 'n, unit) go) option" where
  "RegisterRoutes h method path =
     (if method = ''POST'' \<and> path = ''/events'' then Some (SecretMiddleware (h_secret h) (handleEvent h))
      else if method = ''GET'' \<and> path = ''/health'' then Some (handleHealth h)
      else None)"

section \<open>What a request can do\<close>

lemma outcomes_respond [simp]: "outcomes (respond status obj :: ('r, 'n, unit) go) x es \<longleftrightarrow> es = [EvRespond status obj]"
  by (simp add: respond_def)

text \<open>The events of a request that is accepted: the stage is stored, then the message is taken up.\<close>

definition accepted :: "string \<Rightarrow> MessageEvent \<Rightarrow> event list" where
  "accepted now ev =
     [EvRedis (CmdSet (stateKey (ev_ContactID ev) (ev_ConversationID ev))
        (json_text (state_json (stageState StageIncoming now))) 0),
      EvGo (GoProcess ev), EvRespond 202 [(''status'', ''accepted'')]]"

lemma handleEvent_trace:
  assumes "h_repo h = NewPipelineRepository rc fuel" "outcomes (handleEvent h c :: ('r, 'n, unit) go) x es"
  shows "(\<exists>ev now. bind_event (hi_Body c) = Some ev \<and> Validate ev = None \<and> es = accepted now ev) \<or>
    (\<exists>es' status obj. es = es' @ [EvRespond status obj] \<and> status \<in> {400, 500} \<and>
       (\<forall>g. EvGo g \<notin> set es') \<and> (status = 400 \<longrightarrow> es' = []))"
proof (cases "bind_event (hi_Body c)")
  case None
  with assms(2) show ?thesis by (auto simp: handleEvent_def)
next
  case (Some ev)
  show ?thesis
  proof (cases "Validate ev")
    case (Some err)
    with assms(2) \<open>bind_event _ = _\<close> show ?thesis by (auto simp: handleEvent_def)
  next
    case None
    let ?a = "ev_ContactID ev" and ?b = "ev_ConversationID ev"
    from assms Some None obtain now where "outcomes (pbind (SetState rc (hi_ctx c) ?a ?b (stageState StageIncoming now)) (\<lambda>e.
        if e \<noteq> None then respond 500 [(''error'', ''internal error''), (''code'', ''ERR_INTERNAL'')]
        else pbind (go_launch (GoProcess ev)) (\<lambda>_. respond 202 [(''status'', ''accepted'')])) :: ('r, 'n, unit) go) x es"
      by (auto simp: handleEvent_def Now_def outcomes_bind [of "get_state w_now"])
    then obtain e es1 es2 where set: "outcomes (SetState rc (hi_ctx c) ?a ?b (stageState StageIncoming now) ::
        ('r, 'n, go_error option) go) e es1" and
      rest: "outcomes (if e \<noteq> None then respond 500 [(''error'', ''internal error''), (''code'', ''ERR_INTERNAL'')]
        else pbind (go_launch (GoProcess ev)) (\<lambda>_. respond 202 [(''status'', ''accepted'')]) :: ('r, 'n, unit) go) x es2" and
      es: "es = es1 @ es2" by (rule outcomes_bindE)
    have es1: "es1 = [EvRedis (CmdSet (stateKey ?a ?b) (json_text (state_json (stageState StageIncoming now))) 0)]"
      using set by (auto simp: SetState_def Let_def dest!: outcomes_redis_op)
    show ?thesis
    proof (cases "e = None")
      case True
      with rest have "es2 = [EvGo (GoProcess ev), EvRespond 202 [(''status'', ''accepted'')]]"
        by (auto simp: outcomes_bind go_launch_def outcomes_Step_iff)
      with es es1 Some None show ?thesis by (auto simp: accepted_def)
    next
      case False
      with rest have "es2 = [EvRespond 500 [(''error'', ''internal error''), (''code'', ''ERR_INTERNAL'')]]" by simp
      with es es1 show ?thesis by auto
    qed
  qed
qed

end
