(* ===== verification/Server_Main.thy ===== *)
theory Server_Main
  imports Http_Handler
begin

text \<open>
  \<open>internal/config/config.go\<close> and \<open>cmd/server/main.go\<close>: the configuration from the
  environment, the wiring of the parts, the start and the orderly stop of the process.
\<close>

section \<open>Configuration\<close>

record Config =
  ListenAddr :: string
  RedisURL :: string
  BotRuntimeSecret :: string
  AICallTimeoutSeconds :: int64
  AICallMaxRetries :: int64
  AICallRetryBaseMs :: int64

definition mustGetEnv :: "string \<Rightarrow> ('r, 'n, go_error + string) go" where
  "mustGetEnv key =
     pbind (Getenv key) (\<lambda>v.
     if v = [] then Done (Inl (Errorf (''missing required environment variable: '' @ key)))
     else Done (Inr v))"

text \<open>\<open>strconv.Atoi\<close> is \<open>ParseInt\<close> at base 10 and the width of \<open>int\<close>.\<close>

definition getEnvIntOrDefault :: "string \<Rightarrow> int64 \<Rightarrow> ('r, 'n, go_error + int64) go" where
  "getEnvIntOrDefault key defaultVal =
     pbind (Getenv key) (\<lambda>v.
     if v = [] then Done (Inr defaultVal)
     else (case ParseInt v of
             (n, None) \<Rightarrow> Done (Inr n)
           | (_, Some _) \<Rightarrow>
               Done (Inl (Errorf (''invalid integer for environment variable '' @ key @ '': '' @ quoted v)))))"

text \<open>\<open>if err != nil { return nil, err }\<close>.\<close>

definition or_return :: "('r, 'n, go_error + 'a) go \<Rightarrow> ('a \<Rightarrow> ('r, 'n, go_error + 'b) go) \<Rightarrow> ('r, 'n, go_error + 'b) go" where
  "or_return p f = pbind p (\<lambda>r. case r of Inl err \<Rightarrow> Done (Inl err) | Inr v \<Rightarrow> f v)"

definition Load :: "('r, 'n, go_error + Config) go" where
  "Load =
     or_return (mustGetEnv ''LISTEN_ADDR'') (\<lambda>listenAddr.
     or_return (mustGetEnv ''REDIS_URL'') (\<lambda>redisURL.
     or_return (mustGetEnv ''BOT_RUNTIME_SECRET'') (\<lambda>botRuntimeSecret.
     or_return (getEnvIntOrDefault ''AI_CALL_TIMEOUT_SECONDS'' 90) (\<lambda>aiCallTimeout.
     or_return (getEnvIntOrDefault ''AI_CALL_MAX_RETRIES'' 2) (\<lambda>aiCallMaxRetries.
     or_return (getEnvIntOrDefault ''AI_CALL_RETRY_BASE_MS'' 200) (\<lambda>aiCallRetryBaseMs.
     Done (Inr \<lparr> ListenAddr = listenAddr, RedisURL = redisURL, BotRuntimeSecret = botRuntimeSecret,
       AICallTimeoutSeconds = aiCallTimeout, AICallMaxRetries = aiCallMaxRetries,
       AICallRetryBaseMs = aiCallRetryBaseMs \<rparr>)))))))"

section \<open>Wiring\<close>

text \<open>
  The parts of the process. The network, the Redis client and the number of pages a scan may
  take are parameters.
\<close>

definition wire_service :: "'n http_env \<Rightarrow> 'r redis_client \<Rightarrow> nat \<Rightarrow> Config \<Rightarrow> ('r, 'n) pipelineService" where
  "wire_service env rc pages cfg =
     (let pipelineRepo = NewPipelineRepository rc pages;
          debounce = NewDebounceEngine pipelineRepo;
          adapter = adapter_of env (NewAIAdapter (AICallTimeoutSeconds cfg) (AICallMaxRetries cfg) (AICallRetryBaseMs cfg));
          dispatch = engine_of env (NewDispatchEngine (BotRuntimeSecret cfg))
      in NewPipelineService pipelineRepo debounce adapter dispatch)"

definition wire_handler :: "'n http_env \<Rightarrow> 'r redis_client \<Rightarrow> nat \<Rightarrow> Config \<Rightarrow> ('r, 'n) Handler" where
  "wire_handler env rc pages cfg =
     NewHandler (NewPipelineRepository rc pages) (service_iface (wire_service env rc pages cfg)) (BotRuntimeSecret cfg)"

section \<open>Start and stop\<close>

text \<open>
  The steps up to the listening server, which end the process with a message when they fail.
  \<open>parseURL\<close> is the client's parser of the URL; \<open>None\<close> is a scan that did not end.
\<close>

definition boot ::
  "'n http_env \<Rightarrow> 'r redis_client \<Rightarrow> nat \<Rightarrow> (string \<Rightarrow> go_error option) \<Rightarrow>
     ('r, 'n, (string + ('r, 'n) Handler) option) go" where
  "boot env rc pages parseURL =
     pbind Load (\<lambda>r.
     case r of
       Inl err \<Rightarrow> Done (Some (Inl (''config: '' @ error_text err)))
     | Inr cfg \<Rightarrow>
         (case parseURL (RedisURL cfg) of
            Some err \<Rightarrow> Done (Some (Inl (''invalid REDIS_URL: '' @ error_text err)))
          | None \<Rightarrow>
              pbind (redis_op CmdPing Background (rc_Ping rc)) (\<lambda>e.
              case e of
                Some err \<Rightarrow> Done (Some (Inl (''redis connection failed: '' @ error_text err)))
              | None \<Rightarrow>
                  pbind (Pipeline_Service.Start (wire_service env rc pages cfg)) (\<lambda>e.
                  case e of
                    None \<Rightarrow> Done None
                  | Some (Some err) \<Rightarrow>
                      Done (Some (Inl (''pipeline service failed to start: '' @ error_text err)))
                  | Some None \<Rightarrow> Done (Some (Inr (wire_handler env rc pages cfg)))))))"

text \<open>After the signal: \<open>srv_Shutdown\<close> is the server's own shutdown, on the same deadline.\<close>

definition stop :: "(ctx \<Rightarrow> ('r, 'n, go_error option) go) \<Rightarrow> nat \<Rightarrow> ('r, 'n, bool option) go" where
  "stop srv_Shutdown fuel =
     pbind (WithTimeout Background (10 * Second)) (\<lambda>shutdownCtx.
     pbind (srv_Shutdown shutdownCtx) (\<lambda>_.
     pbind (Shutdown shutdownCtx fuel) (\<lambda>r.
     pbind (cancel shutdownCtx) (\<lambda>_. Done r))))"

section \<open>The goroutines\<close>

text \<open>What a launched goroutine runs; the poller with the ticks it may take.\<close>

fun goroutine_body :: "('r, 'n) Handler \<Rightarrow> ('r, 'n) pipelineService \<Rightarrow> nat \<Rightarrow> goroutine \<Rightarrow> ('r, 'n, unit) go" where
  "goroutine_body h s ticks (GoAI c a b buffer atts cfg url) = runAIStage s c a b buffer atts cfg url"
| "goroutine_body h s ticks (GoDispatch c a b content cfg url) = runDispatchStage s c a b content cfg url"
| "goroutine_body h s ticks (GoProcess ev) = runProcess h ev"
| "goroutine_body h s ticks GoPoll = pbind (pollDebounceExpiry s ticks) (\<lambda>_. Done ())"

section \<open>Lemmas\<close>

lemma wired_sel [simp]:
  "ps_repo (wire_service env rc pages cfg) = NewPipelineRepository rc pages"
  "ps_debounce (wire_service env rc pages cfg) = NewDebounceEngine (NewPipelineRepository rc pages)"
  "ps_dispatchEng (wire_service env rc pages cfg) = engine_of env (NewDispatchEngine (BotRuntimeSecret cfg))"
  "h_repo (wire_handler env rc pages cfg) = NewPipelineRepository rc pages"
  "h_secret (wire_handler env rc pages cfg) = BotRuntimeSecret cfg"
  "h_svc (wire_handler env rc pages cfg) = service_iface (wire_service env rc pages cfg)"
  by (simp_all add: wire_service_def wire_handler_def Let_def NewPipelineService_def NewHandler_def)

lemma outcomes_mustGetEnv:
  "outcomes (mustGetEnv key :: ('r, 'n, go_error + string) go) (Inr v) es \<Longrightarrow> v \<noteq> [] \<and> es = []"
  by (auto simp: mustGetEnv_def Getenv_def outcomes_bind split: if_splits)

lemma outcomes_or_returnE:
  assumes "outcomes (or_return p f) (Inr x) es"
  obtains v es1 es2 where "outcomes p (Inr v) es1" "outcomes (f v) (Inr x) es2" "es = es1 @ es2"
  using assms unfolding or_return_def by (elim outcomes_bindE) (auto split: sum.splits)

lemma loaded_secret:
  assumes "outcomes (Load :: ('r, 'n, go_error + Config) go) (Inr cfg) es"
  shows "BotRuntimeSecret cfg \<noteq> []"
  using assms unfolding Load_def
  by (elim outcomes_or_returnE) (auto dest: outcomes_mustGetEnv)

end
