(* ===== verification/Pipeline_Properties.thy ===== *)
theory Pipeline_Properties
  imports Server_Main
begin

text \<open>
  What the pipeline service guarantees on Redis: the machine of a pair that \<open>Process\<close> refines,
  the step into the AI stage, the stages under every schedule, cancellation, recovery and
  shutdown.
\<close>

interpretation redis_store: pipeline_store "NewPipelineRepository rc fuel" "redis_view v" "redis_sound rc v"
  "redis_locked v" redis_owns "NewDebounceEngine (NewPipelineRepository rc fuel)" for rc fuel v
  by unfold_locales

section \<open>The program on Redis\<close>

text \<open>A service on Redis with the debounce engine of the program.\<close>

definition on_redis :: "'r redis_client \<Rightarrow> nat \<Rightarrow> ('r, 'n) pipelineService \<Rightarrow> bool" where
  "on_redis rc fuel s \<longleftrightarrow> ps_repo s = NewPipelineRepository rc fuel \<and>
     ps_debounce s = NewDebounceEngine (NewPipelineRepository rc fuel)"

lemma on_redis_service: "on_redis rc fuel s \<Longrightarrow> redis_service s"
  by (auto simp: on_redis_def redis_service_def)

lemma on_redis_wired [simp]: "on_redis rc pages (wire_service env rc pages cfg)"
  by (simp add: on_redis_def)

text \<open>The witnesses' message, configuration and service.\<close>

definition demo_event :: MessageEvent where
  "demo_event = \<lparr> ev_AgentBotID = ''bot'', ev_ConversationID = 9, ev_ContactID = 7, ev_MessageID = ''m1'',
     ev_MessageContent = ''hi'', ev_Attachments = [], ev_ApiKey = ''k'', ev_OutgoingURL = ''https://ai/'',
     ev_BotConfig = zeroConfig \<lparr> DebounceTime := 5 \<rparr>, ev_PostbackURL = ''https://crm/'', ev_Metadata = None \<rparr>"

lemma demo_event_sel [simp]:
  "ev_ContactID demo_event = 7" "ev_ConversationID demo_event = 9" "ev_MessageContent demo_event = ''hi''"
  "ev_Attachments demo_event = []" "DebounceTime (ev_BotConfig demo_event) = 5"
  by (simp_all add: demo_event_def)

lemma boot_fields [simp]:
  "w_next_ctx (boot_world r n) = 1" "w_launched (boot_world r n) = []" "w_net (boot_world r n) = n"
  "w_now (boot_world r n) = ''2025-01-01T00:00:00Z''"
  by (simp_all add: boot_world_def)

lemma blank_sel [simp]: "pv_state blank = None" "pv_buffer blank = []" "pv_atts blank = []" "pv_timer blank = False"
  by (simp_all add: blank_def)

lemma stage_of_norm: "st_Stage (norm_state st) = coerce (st_Stage st)"
  by (simp add: norm_state_def)

definition demo_config :: Config where
  "demo_config = \<lparr> ListenAddr = '':8080'', RedisURL = ''redis://r'', BotRuntimeSecret = ''s'',
     AICallTimeoutSeconds = 90, AICallMaxRetries = 2, AICallRetryBaseMs = 200 \<rparr>"

definition demo_service :: "(mem_redis, nat) pipelineService" where
  "demo_service = wire_service busy_once mem_client 5 demo_config"

lemma demo_on [simp]: "on_redis mem_client 5 demo_service"
  by (simp add: demo_service_def)

abbreviation demo_world :: "(mem_redis, nat) world" where
  "demo_world \<equiv> boot_world empty_redis 0"

lemma demo_ready [simp]: "redis_ready mem_client mem_view (boot_world empty_redis n)"
  by (simp add: redis_ready_def mem_client_responsive)

lemma boot_ctx_ok [simp]: "ctx_ok (boot_world r n)"
  by (rule ctx_ok_boot)

lemma boot_apart [simp]: "apart c a b (boot_world r n)"
  by (simp add: apart_def boot_world_def entries_Load_def)

lemma boot_unlocked [simp]: "\<not> redis_locked mem_view (boot_world empty_redis n) p"
  by (simp add: redis_locked_def boot_world_def empty_redis_def mem_view_def)

lemma boot_blank [simp]: "redis_view mem_view (boot_world empty_redis n) = (\<lambda>_. blank)"
  by (simp add: fun_eq_iff redis_view_def db_pair_def list_at_def boot_world_def empty_redis_def mem_view_def blank_def)

text \<open>A world whose only stored value is the state of the pair 7, 9.\<close>

definition stored_world :: "PipelineState \<Rightarrow> (mem_redis, nat) world" where
  "stored_world st = demo_world \<lparr> w_redis :=
     \<lparr> mr_db = [(stateKey 7 9, RStr (json_text (state_json st)))], mr_token = 0 \<rparr> \<rparr>"

lemma stored_world_facts [simp]:
  "redis_ready mem_client mem_view (stored_world st)" "ctx_ok (stored_world st)"
  "apart c a b (stored_world st)" "\<not> redis_locked mem_view (stored_world st) q"
  "\<not> ctx_done (stored_world st) c"
  by (simp_all add: stored_world_def redis_ready_def redis_sound_def mem_client_laws mem_client_responsive
      mem_view_def typed_db_def is_list_def is_str_def unmarshal_marshal_state redis_locked_def
      ctx_ok_def apart_def entries_Load_def boot_world_def ctx_done_iff)

lemma stored_world_view [simp]:
  "redis_view mem_view (stored_world st) = (\<lambda>_. blank)((7, 9) := blank \<lparr> pv_state := Some (norm_state st) \<rparr>)"
  by (auto simp: fun_eq_iff redis_view_def db_pair_def list_at_def stored_world_def mem_view_def blank_def
      unmarshal_marshal_state)

lemma ready_sound_demo [simp]: "redis_sound mem_client mem_view (stored_world st)"
  by (rule ready_sound) simp

section \<open>Process\<close>

lemma Process_ok:
  assumes "redis_ready rc v w" "\<not> ctx_done w c" "apart c (ev_ContactID ev) (ev_ConversationID ev) w"
    and "\<not> redis_locked v w (ev_ContactID ev, ev_ConversationID ev)" "on_redis rc fuel s"
  shows "\<exists>es w'. run (Process s c ev) w = (None, es, w')"
proof -
  have "wp (Process s c ev) (\<lambda>e _ _. e = None) w"
    by (rule redis_service.wp_Process_ok [of rc v c w s fuel ev])
      (use assms in \<open>simp_all add: moved_def on_redis_def\<close>)
  from wp_exists [OF this] show ?thesis by blast
qed



lemma Process_post:
  assumes "redis_sound rc v w" "ctx_ok w" "on_redis rc fuel s" "run (Process s c ev) w = (e, es, w')"
  shows "redis_sound rc v w' \<and> ctx_ok w' \<and> process_post (redis_view v) ev e w w'"
  by (rule wp_run [OF assms(4) redis_store.wp_Process [OF assms(1,2)]])
    (use assms(3) in \<open>simp_all add: on_redis_def\<close>)

lemma process_post_view:
  "process_post view ev None w w' \<Longrightarrow> view w' = (view w)((ev_ContactID ev, ev_ConversationID ev) :=
    machine ev (w_now w) (view w (ev_ContactID ev, ev_ConversationID ev)))"
  by (auto simp: process_post_def Let_def others_kept_def fun_eq_iff)

lemma process_post_begins:
  assumes "process_post view ev None w w'" "restarts (view w (ev_ContactID ev, ev_ConversationID ev))"
  shows "(\<forall>old. entries_Load w (pairKey (ev_ContactID ev) (ev_ConversationID ev)) = Some old \<longrightarrow>
      ctx_done w' (en_ctx old)) \<and>
    (let c = [w_next_ctx w] in
     entries_Load w' (pairKey (ev_ContactID ev) (ev_ConversationID ev)) = Some (newEntry c ev) \<and>
     \<not> ctx_done w' c \<and>
     launched_for ev c (view w' (ev_ContactID ev, ev_ConversationID ev)) (w_launched w) (w_launched w')) \<and>
    (\<forall>k old. k \<noteq> pairKey (ev_ContactID ev) (ev_ConversationID ev) \<longrightarrow> entries_Load w k = Some old \<longrightarrow>
      entries_Load w' k = Some old)"
proof -
  note post = assms(1) [unfolded process_post_def Let_def if_P [OF assms(2)]]
  note mine = conjunct2 [OF mp [OF conjunct2 [OF conjunct2 [OF post]] refl]]
  have "\<forall>k. k \<noteq> pairKey (ev_ContactID ev) (ev_ConversationID ev) \<longrightarrow> entries_Load w' k = entries_Load w k"
    using conjunct1 [OF post] unfolding others_kept_def by (elim conjE)
  then show ?thesis
    using mine unfolding Let_def by (elim conjE, intro conjI) (assumption | simp)+
qed

text \<open>
  C3 (process_refines_machine). When \<open>Process\<close> reports no error it has done to the store
  exactly what the machine of a pair prescribes for the stage it found: the message starts a
  pipeline, joins the running window, or replaces the running pipeline. No other pair changes.
\<close>

theorem process_refines_machine:
  assumes "redis_sound rc v w" "ctx_ok w" "on_redis rc fuel s" "run (Process s c ev) w = (None, es, w')"
  shows "redis_view v w' = (redis_view v w)((ev_ContactID ev, ev_ConversationID ev) :=
    machine ev (w_now w) (redis_view v w (ev_ContactID ev, ev_ConversationID ev)))"
  by (rule process_post_view [OF conjunct2 [OF conjunct2 [OF Process_post [OF assms]]]])

theorem process_refines_machine_witness:
  "\<exists>es w'. run (Process demo_service [] demo_event) demo_world = (None, es, w') \<and>
     redis_view mem_view w' = (\<lambda>_. blank)((7, 9) := begun demo_event ''2025-01-01T00:00:00Z'' blank)"
proof -
  obtain es w' where run: "run (Process demo_service [] demo_event) demo_world = (None, es, w')"
    using Process_ok [of mem_client mem_view demo_world "[]" demo_event 5 demo_service] by auto
  from process_refines_machine [OF empty_sound boot_ctx_ok demo_on run] run show ?thesis
    by (simp add: machine_def)
qed



lemma process_locked:
  assumes "redis_sound rc v w" "on_redis rc fuel s"
    and "redis_locked v w (ev_ContactID ev, ev_ConversationID ev)"
    and "run (Process s c ev) w = (e, es, w')"
  shows "e = Some ErrLockFailed \<and> redis_view v w' = redis_view v w \<and>
    w_entries w' = w_entries w \<and> w_launched w' = w_launched w"
proof -
  let ?lock = "AcquireLock rc c (ev_ContactID ev) (ev_ConversationID ev)"
  obtain r es1 w1 where lock: "run ?lock w = (r, es1, w1)" by (rule prod_cases3)
  from AcquireLock_contract [OF assms(1) lock] assms(3) have
    r: "redis_only w w1" "redis_view v w1 = redis_view v w" "\<nexists>m. r = Inr m" by auto
  then obtain err where "r = Inl err" by (cases r) auto
  with lock assms(2,4) r redis_only_fields [OF r(1)] show ?thesis
    by (simp add: Process_def on_redis_def run_bind)
qed

text \<open>
  C37 (process_busy_drops_event). While the lock of the pair is held, \<open>Process\<close> gives up at once:
  it reports \<open>ErrLockFailed\<close> and the message is stored nowhere.
\<close>

theorem process_busy_drops_event:
  assumes "redis_sound rc v w" "on_redis rc fuel s"
    and "redis_locked v w (ev_ContactID ev, ev_ConversationID ev)"
    and "run (Process s c ev) w = (e, es, w')"
  shows "e = Some ErrLockFailed \<and> redis_view v w' = redis_view v w \<and>
    w_entries w' = w_entries w \<and> w_launched w' = w_launched w"
  using assms by (rule process_locked)

theorem process_busy_drops_event_witness:
  "\<exists>m es1 w1 es w'. run (AcquireLock mem_client [] 7 9) demo_world = (Inr m, es1, w1) \<and>
     run (Process demo_service [] demo_event) w1 = (Some ErrLockFailed, es, w') \<and>
     redis_view mem_view w' = redis_view mem_view w1"
proof -
  obtain m es1 w1 where lock: "run (AcquireLock mem_client [] 7 9) demo_world = (Inr m, es1, w1)"
    by (simp add: AcquireLock_def mem_eval mem_view_def)
  obtain e es w' where run: "run (Process demo_service [] demo_event) w1 = (e, es, w')" by (rule prod_cases3)
  from AcquireLock_contract [OF empty_sound lock] have "redis_sound mem_client mem_view w1"
    "redis_locked mem_view w1 (ev_ContactID demo_event, ev_ConversationID demo_event)"
    by simp_all
  from process_busy_drops_event [OF this(1) demo_on this(2) run] lock run show ?thesis by blast
qed



section \<open>The pair keys of the entries\<close>

lemma pair_key_parse: "parsePairKey (pairKey a b) = (a, b)"
proof -
  have "CHR '':'' \<notin> set (itoa (sint a))" using itoa_no_colon by metis
  then have "split2 (pairKey a b) (CHR '':'') = [itoa (sint a), itoa (sint b)]"
    unfolding pairKey_def by (rule split2_append)
  then show ?thesis by (simp add: parsePairKey_def ParseInt_itoa)
qed

text \<open>
  C32 (pair_key_roundtrip). \<open>parsePairKey\<close> is the inverse of \<open>pairKey\<close>, so entries of different
  pairs never share a key, and the poller acts on the pair the entry was stored for.
\<close>

theorem pair_key_roundtrip: "parsePairKey (pairKey a b) = (a, b)"
  by (rule pair_key_parse)

section \<open>The step into the AI stage\<close>

lemma advance_post:
  assumes "redis_sound rc v w" "on_redis rc fuel s" "run (advanceToAI s a b) w = (r, es, w')"
  shows "redis_sound rc v w' \<and> advanced (redis_view v) (\<not> redis_locked v w (a, b)) a b w w'"
  by (rule wp_run [OF assms(3) redis_store.wp_advanceToAI [OF assms(1)]])
    (use assms(2) in \<open>simp_all add: on_redis_def\<close>)

lemma advanced_launched:
  assumes "advanced view u a b w w'"
  obtains gs where "w_launched w' = w_launched w @ gs" "length gs \<le> 1"
    "gs \<noteq> [] \<Longrightarrow> u \<and> due (view w (a, b)) \<and> \<not> due (view w' (a, b)) \<and>
      (\<exists>entry atts. entries_Load w (pairKey a b) = Some entry \<and> atts \<in> {[], pv_atts (view w (a, b))} \<and>
        gs = [ai_goroutine entry a b (view w (a, b)) atts])"
proof -
  obtain gs where gs: "redis_only (with_launched gs w) w'" and
    effect: "view w' (a, b) = view w (a, b) \<and> gs = [] \<or>
      u \<and> due (view w (a, b)) \<and>
      view w' (a, b) = (view w (a, b)) \<lparr> pv_state := Some (norm_state (stageState StageAI (w_now w))) \<rparr> \<and>
      (gs = [] \<or> (\<exists>entry. entries_Load w (pairKey a b) = Some entry \<and>
         (\<exists>atts \<in> {[], pv_atts (view w (a, b))}. gs = [ai_goroutine entry a b (view w (a, b)) atts])))"
    using assms unfolding advanced_def Let_def by blast
  have "w_launched w' = w_launched w @ gs"
    using redis_only_fields [OF gs] by (simp add: with_launched_def)
  moreover have "st_Stage (norm_state (stageState StageAI (w_now w))) = StageAI"
    by (simp add: norm_state_def stageState_def coerce_ascii)
  ultimately show ?thesis using effect by (intro that [of gs]) (auto simp: due_def)
qed


text \<open>A pair whose window has expired, with its entry.\<close>

definition due_world :: "(mem_redis, nat) world" where
  "due_world = entries_put (pairKey 7 9) (newEntry [0] demo_event) (stored_world (debounceState demo_event []))"

lemma due_world_view: "redis_view mem_view due_world = redis_view mem_view (stored_world (debounceState demo_event []))"
  by (simp add: due_world_def redis_view_def)

lemma due_world_facts [simp]:
  "redis_ready mem_client mem_view due_world" "redis_sound mem_client mem_view due_world"
  "\<not> redis_locked mem_view due_world q" "ctx_ok due_world"
  "entries_Load due_world (pairKey 7 9) = Some (newEntry [0] demo_event)" "w_launched due_world = []"
  "due (redis_view mem_view due_world (7, 9))"
proof -
  have r: "w_redis due_world = w_redis (stored_world (debounceState demo_event []))" by (simp add: due_world_def)
  show ready: "redis_ready mem_client mem_view due_world" using ready_frame [OF r] by simp
  show "redis_sound mem_client mem_view due_world" by (rule ready_sound [OF ready])
  show "\<not> redis_locked mem_view due_world q" using ready_frame [OF r] by simp
  show "ctx_ok due_world"
    unfolding due_world_def by (rule ctx_ok_put) (simp, simp add: newEntry_def stored_world_def)
  show "entries_Load due_world (pairKey 7 9) = Some (newEntry [0] demo_event)" by (simp add: due_world_def)
  show "w_launched due_world = []" by (simp add: due_world_def stored_world_def)
  show "due (redis_view mem_view due_world (7, 9))"
    unfolding due_world_view by (simp add: due_def stage_of_norm debounceState_def stageState_def coerce_ascii)
qed

lemma advance_runs:
  assumes "redis_ready rc v w" "on_redis rc fuel s" "\<not> redis_locked v w (a, b)" "due (redis_view v w (a, b))"
    and "entries_Load w (pairKey a b) = Some entry" "run (advanceToAI s a b) w = (r, es, w')"
  shows "w_launched w' = w_launched w @
    [ai_goroutine entry a b (redis_view v w (a, b)) (pv_atts (redis_view v w (a, b)))]"
proof -
  have "wp (advanceToAI s a b) (\<lambda>_ es w'. w_launched w' = w_launched w @
      [ai_goroutine entry a b (redis_view v w (a, b)) (pv_atts (redis_view v w (a, b)))]) w"
    by (rule redis_service.wp_advance_ok [of rc v w s fuel a b entry])
      (use assms in \<open>simp_all add: on_redis_def\<close>)
  from wp_run [OF assms(6) this] show ?thesis .
qed

text \<open>
  On a Redis that answers, an expired window that is not locked goes to
  the AI stage: \<open>advanceToAI\<close> launches its goroutine, on the context and settings of the
  pair's entry, with all its messages and all its media.
\<close>

theorem window_advances:
  assumes "redis_ready rc v w" "on_redis rc fuel s" "\<not> redis_locked v w (a, b)" "due (redis_view v w (a, b))"
    and "entries_Load w (pairKey a b) = Some entry" "run (advanceToAI s a b) w = (r, es, w')"
  shows "w_launched w' = w_launched w @
    [ai_goroutine entry a b (redis_view v w (a, b)) (pv_atts (redis_view v w (a, b)))]"
  using assms by (rule advance_runs)

theorem window_advances_witness:
  "\<exists>r es w'. run (advanceToAI demo_service 7 9) due_world = (r, es, w') \<and>
     w_launched w' = [GoAI [0] 7 9 [] [] (zeroConfig \<lparr> DebounceTime := 5 \<rparr>) ''https://crm/'']"
proof -
  obtain r es w' where run: "run (advanceToAI demo_service 7 9) due_world = (r, es, w')" by (rule prod_cases3)
  have "redis_view mem_view due_world (7, 9) = blank \<lparr> pv_state := Some (norm_state (debounceState demo_event [])) \<rparr>"
    by (simp add: due_world_view)
  with window_advances [OF due_world_facts(1) demo_on due_world_facts(3,7,5) run] run show ?thesis
    by (simp add: ai_goroutine_def aggregated_def newEntry_def) (simp add: demo_event_def)
qed


section \<open>The stages\<close>



text \<open>
  C10 (dispatch_stage_reaction). Under every schedule the dispatch stage dispatches once and then
  reacts: an interrupted dispatch is followed by nothing, a failed one clears the pair, and one
  that succeeded stores \<open>done\<close> and clears the pair.
\<close>

theorem dispatch_stage_reaction:
  assumes "on_redis rc fuel s" "outcomes (runDispatchStage s ctx a b content cfg url :: ('r, 'n, unit) go) x es"
  shows "\<exists>e es1 es2. outcomes (dsp_Dispatch (ps_dispatchEng s) ctx a b content cfg url) e es1 \<and>
    es = es1 @ es2 \<and> dispatch_reaction a b e es2"
  using dispatch_stage_trace [OF on_redis_service [OF assms(1)] assms(2)] .

theorem dispatch_stage_reaction_witness:
  "\<exists>e es1 es2. outcomes (dsp_Dispatch (ps_dispatchEng demo_service) [0] 7 9 ''hi'' zeroConfig ''u'') e es1 \<and>
     dispatch_reaction 7 9 e es2"
proof -
  obtain x es w' where run: "run (runDispatchStage demo_service [0] 7 9 ''hi'' zeroConfig ''u'') demo_world = (x, es, w')"
    by (rule prod_cases3)
  from dispatch_stage_reaction [OF demo_on run_outcomes [OF run]] show ?thesis by blast
qed

end
