(* ===== verification/Pipeline_Races.thy ===== *)
theory Pipeline_Races
  imports Pipeline_Properties
begin

text \<open>
  Turns that overlap: what a replaced pipeline still does to the pair, and what a second event
  finds after the handler has written \<open>incoming\<close>. The interrupted turn is meant to leave the
  new one alone; these theorems state where it does not.
\<close>

section \<open>A reply that comes too late\<close>

lemma due_only_debounce: "pv_state pv = Some st \<Longrightarrow> st_Stage st \<noteq> StageDebounce \<Longrightarrow> \<not> due pv"
  by (simp add: due_def)

lemma advance_not_due:
  assumes "redis_sound rc v w" "on_redis rc fuel s" "run (advanceToAI s a b) w = (r, es, w')"
    and "\<not> due (redis_view v w (a, b))"
  shows "w_launched w' = w_launched w"
proof -
  obtain gs where "w_launched w' = w_launched w @ gs" "gs \<noteq> [] \<Longrightarrow> due (redis_view v w (a, b))"
    using conjunct2 [OF advance_post [OF assms(1-3)]] by (rule advanced_launched) blast
  with assms(4) show ?thesis by auto
qed

lemma stage_dispatch: "pv_state (staged StageDispatch now pv) = Some (norm_state (stageState StageDispatch now))"
  "st_Stage (norm_state (stageState StageDispatch now)) = StageDispatch"
  "pv_buffer (staged stage now pv) = pv_buffer pv"
  by (simp_all add: staged_def stage_of_norm stageState_def coerce_ascii)

lemma ai_succeeded_runs:
  assumes "redis_ready rc v w" "ctx_ok w" "on_redis rc fuel s"
    and "run (ai_succeeded s c a b cfg url (Some r)) w = (p, es, w')"
  shows "redis_ready rc v w' \<and> ctx_ok w' \<and> replied (redis_view v) c a b (nr_Content r) cfg url w w'"
proof -
  have "wp (ai_succeeded s c a b cfg url (Some r)) (\<lambda>p _ w'. \<not> p \<and> redis_ready rc v w' \<and> ctx_ok w' \<and>
      replied (redis_view v) c a b (nr_Content r) cfg url w w') w"
    by (rule redis_service.wp_ai_succeeded_ok [OF assms(1,2), where fuel = fuel])
      (use assms(3) in \<open>simp add: on_redis_def\<close>)
  from wp_run [OF assms(4) this] show ?thesis by blast
qed

lemma stale_reply:
  assumes "redis_ready rc v w" "ctx_ok w" "on_redis rc fuel s"
    and "ctx_done w c" "\<forall>i \<in> set c. i < w_next_ctx w"
    and "run (ai_succeeded s c a b cfg url (Some r)) w = (p, es, w1)"
    and "redis_sound rc v w2" "pv_state (redis_view v w2 (a, b)) = pv_state (redis_view v w1 (a, b))"
    and "run (advanceToAI s a b) w2 = (x, es', w3)"
  shows "w_launched w1 = w_launched w @ [GoDispatch c a b (nr_Content r) cfg url] \<and> ctx_done w1 c \<and>
    pv_buffer (redis_view v w1 (a, b)) = pv_buffer (redis_view v w (a, b)) \<and>
    w_launched w3 = w_launched w2"
proof -
  have post: "replied (redis_view v) c a b (nr_Content r) cfg url w w1"
    using ai_succeeded_runs [OF assms(1-3,6)] by blast
  then have v1: "redis_view v w1 (a, b) = staged StageDispatch (w_now w) (redis_view v w (a, b))"
    by (simp add: replied_def)
  with assms(8) have "\<not> due (redis_view v w2 (a, b))"
    by (intro due_only_debounce [where st = "norm_state (stageState StageDispatch (w_now w))"])
      (simp_all add: stage_dispatch)
  from advance_not_due [OF assms(7) assms(3) assms(9) this] post v1 assms(4,5) show ?thesis
    by (simp add: replied_def kept_def stage_dispatch)
qed

text \<open>
  C36 (stale_reply_starves_window). The AI stage does not look at its context once it has a
  reply: while the pair is collecting the messages of a new window, the reply of the replaced
  pipeline, whose context is done, still sets the stage to dispatch and launches a dispatch on
  the finished context. As long as that stage stays, the expiry of the new window launches
  nothing, and the messages stay buffered.
\<close>

theorem stale_reply_starves_window:
  assumes "redis_ready rc v w" "ctx_ok w" "on_redis rc fuel s"
    and "ctx_done w c" "\<forall>i \<in> set c. i < w_next_ctx w"
    and "run (ai_succeeded s c a b cfg url (Some r)) w = (p, es, w1)"
    and "redis_sound rc v w2" "pv_state (redis_view v w2 (a, b)) = pv_state (redis_view v w1 (a, b))"
    and "run (advanceToAI s a b) w2 = (x, es', w3)"
  shows "w_launched w1 = w_launched w @ [GoDispatch c a b (nr_Content r) cfg url] \<and> ctx_done w1 c \<and>
    pv_buffer (redis_view v w1 (a, b)) = pv_buffer (redis_view v w (a, b)) \<and>
    w_launched w3 = w_launched w2"
  using assms by (rule stale_reply)

text \<open>An expired window whose pair was replaced: the context of the old pipeline is done.\<close>

definition replaced_world :: "(mem_redis, nat) world" where
  "replaced_world = due_world \<lparr> w_next_ctx := 3, w_ctx_err := (\<lambda>_. None)(2 := Some Canceled) \<rparr>"

lemma replaced_view [simp]: "redis_view mem_view replaced_world = redis_view mem_view due_world"
  by (simp add: replaced_world_def redis_view_def)

lemma replaced_facts [simp]:
  "redis_ready mem_client mem_view replaced_world" "ctx_ok replaced_world" "ctx_done replaced_world [2]"
  "w_next_ctx replaced_world = 3" "w_launched replaced_world = []"
  "due (redis_view mem_view replaced_world (7, 9))"
  "entries_Load replaced_world (pairKey 7 9) = Some (newEntry [0] demo_event)"
proof -
  have r: "w_redis replaced_world = w_redis due_world" by (simp add: replaced_world_def)
  show "redis_ready mem_client mem_view replaced_world" using ready_frame [OF r] by simp
  show "due (redis_view mem_view replaced_world (7, 9))" by simp
  have e: "entries_Load replaced_world k = entries_Load due_world k" for k
    by (rule entries_Load_cong) (simp add: replaced_world_def)
  then show "entries_Load replaced_world (pairKey 7 9) = Some (newEntry [0] demo_event)" by simp
  have "w_next_ctx due_world = 1" by (simp add: due_world_def stored_world_def)
  then have "\<exists>i < 3. en_ctx x = [i]" if "entries_Load due_world k = Some x" for k x
    using ctx_okE [OF due_world_facts(4) that] by fastforce
  then show "ctx_ok replaced_world" by (simp add: ctx_ok_def e) (simp add: replaced_world_def)
qed (simp_all add: replaced_world_def ctx_done_iff)

theorem stale_reply_starves_window_witness:
  "\<exists>p es w1 x es' w2. due (redis_view mem_view replaced_world (7, 9)) \<and>
     run (ai_succeeded demo_service [2] 7 9 zeroConfig ''u'' (Some \<lparr> nr_Content = ''old'' \<rparr>)) replaced_world = (p, es, w1) \<and>
     run (advanceToAI demo_service 7 9) w1 = (x, es', w2) \<and>
     w_launched w2 = [GoDispatch [2] 7 9 ''old'' zeroConfig ''u'']"
proof -
  obtain p es w1 where 1: "run (ai_succeeded demo_service [2] 7 9 zeroConfig ''u'' (Some \<lparr> nr_Content = ''old'' \<rparr>))
      replaced_world = (p, es, w1)" by (rule prod_cases3)
  obtain x es' w2 where 2: "run (advanceToAI demo_service 7 9) w1 = (x, es', w2)" by (rule prod_cases3)
  have "redis_sound mem_client mem_view w1"
    using ai_succeeded_runs [OF replaced_facts(1,2) demo_on 1] ready_sound by blast
  from stale_reply_starves_window [OF replaced_facts(1,2) demo_on replaced_facts(3) _ 1 this refl 2] 1 2
  show ?thesis by (simp add: replaced_facts(6))
qed


section \<open>A dispatch that ends after its pipeline was replaced\<close>

lemma parts_plan_Nil: "parts_plan cfg n i parts = [] \<Longrightarrow>
    (part_loop env d ctx cfg u n i parts :: ('r, 'n, go_error option) go) = Done None"
  by (induction parts arbitrary: i) (auto split: if_splits)

lemma Dispatch_nothing:
  assumes "dispatch_plan content cfg = []"
  shows "(Dispatch env d ctx a b content cfg u :: ('r, 'n, go_error option) go) = Done None"
proof -
  obtain residual atts where ext: "extractMediaURLs content = (residual, atts)" by fastforce
  from assms show ?thesis
    by (simp add: dispatch_plan_def dispatch_parts_def ext Dispatch_def Let_def parts_plan_Nil split: if_splits)
qed

lemma dispatch_plan_empty: "MessageSignature cfg = [] \<Longrightarrow> dispatch_plan [] cfg = []"
proof -
  assume "MessageSignature cfg = []"
  moreover have "extractMediaURLs [] = ([], [])"
    by (simp add: extractMediaURLs_def media_eval trim_space_def runes.simps)
  moreover have "segmentContent [] cfg = [[]]" using segmentContent_blank [of "[]" cfg] by simp
  ultimately show ?thesis by (simp add: dispatch_plan_def dispatch_parts_def signed_def)
qed

lemma dispatch_stage_runs:
  assumes "redis_ready rc v w" "ctx_ok w" "on_redis rc fuel s"
    and "run (dsp_Dispatch (ps_dispatchEng s) c a b content cfg url) w = (None, es, w1)" "quiet w w1"
    and "run (runDispatchStage s c a b content cfg url) w = (x, es', w')"
  shows "redis_ready rc v w' \<and> ctx_ok w' \<and> wiped (redis_view v) a b w w'"
proof -
  have "wp (runDispatchStage s c a b content cfg url) (\<lambda>_ _ w'. redis_ready rc v w' \<and> ctx_ok w' \<and>
      wiped (redis_view v) a b w w') w"
    by (rule redis_service.wp_runDispatch_ok [OF assms(1,2) _ assms(4,5), where fuel = fuel])
      (use assms(3) in \<open>simp add: on_redis_def\<close>)
  from wp_run [OF assms(6) this] show ?thesis .
qed


lemma replaced_live: "\<not> ctx_done replaced_world (en_ctx (newEntry [0] demo_event))"
  by (simp add: newEntry_def replaced_world_def ctx_done_iff)


section \<open>Two events in a row\<close>

lemma incoming_then_process:
  assumes "redis_sound rc v w" "ctx_ok w" "on_redis rc fuel s"
    and "run (SetState rc c (ev_ContactID ev) (ev_ConversationID ev) (stageState StageIncoming now)) w = (None, es1, w1)"
    and "run (Process s c' ev) w1 = (None, es2, w2)"
  shows "pv_buffer (redis_view v w2 (ev_ContactID ev, ev_ConversationID ev)) =
    pv_buffer (redis_view v w (ev_ContactID ev, ev_ConversationID ev)) @ [ev_MessageContent ev]"
proof -
  let ?p = "(ev_ContactID ev, ev_ConversationID ev)"
  let ?in = "(redis_view v w ?p) \<lparr> pv_state := Some (norm_state (stageState StageIncoming now)) \<rparr>"
  note set = SetState_contract [OF assms(1,4)]
  note f = redis_only_fields [OF conjunct1 [OF conjunct2 [OF set]]]
  have ok1: "ctx_ok w1" by (rule iffD2 [OF ctx_ok_cong assms(2)]) (simp_all add: f)
  have "process_post (redis_view v) ev None w1 w2"
    using Process_post [OF conjunct1 [OF set] ok1 assms(3,5)] by blast
  from process_post_view [OF this] have "redis_view v w2 ?p = machine ev (w_now w1) (redis_view v w1 ?p)" by simp
  moreover have "redis_view v w1 ?p = ?in" using conjunct2 [OF conjunct2 [OF set]] by simp
  moreover have "st_Stage (norm_state (stageState StageIncoming now)) = StageIncoming"
    by (simp add: stage_of_norm stageState_def coerce_ascii)
  ultimately show ?thesis by (simp add: machine_def begun_def buffered_def)
qed

lemma interrupt_clears:
  assumes "redis_sound rc v w" "ctx_ok w" "on_redis rc fuel s"
    and "pv_state (redis_view v w (ev_ContactID ev, ev_ConversationID ev)) = Some st"
    and "st_Stage st = StageAI \<or> st_Stage st = StageDispatch"
    and "run (Process s c ev) w = (None, es, w')"
  shows "pv_buffer (redis_view v w' (ev_ContactID ev, ev_ConversationID ev)) = [ev_MessageContent ev]"
proof -
  have "process_post (redis_view v) ev None w w'"
    using Process_post [OF assms(1-3,6)] by blast
  from process_post_view [OF this] assms(4,5) show ?thesis
    by (auto simp: machine_def begun_def buffered_def)
qed

text \<open>
  C39 (incoming_bypasses_interrupt). \<open>Process\<close> clears the messages of a turn it interrupts, but
  every event of the HTTP handler overwrites the stage with \<open>incoming\<close> first, so \<open>Process\<close> no
  longer sees that a turn is running: the messages of the interrupted turn stay buffered and are
  part of the next one.
\<close>

theorem incoming_bypasses_interrupt:
  assumes "redis_sound rc v w" "ctx_ok w" "on_redis rc fuel s"
    and "pv_state (redis_view v w (ev_ContactID ev, ev_ConversationID ev)) = Some st"
    and "st_Stage st = StageAI \<or> st_Stage st = StageDispatch"
    and "run (Process s Background ev) w = (None, es, w')"
    and "run (SetState rc c (ev_ContactID ev) (ev_ConversationID ev) (stageState StageIncoming now)) w = (None, es1, w1)"
    and "run (Process s Background ev) w1 = (None, es2, w2)"
  shows "pv_buffer (redis_view v w' (ev_ContactID ev, ev_ConversationID ev)) = [ev_MessageContent ev] \<and>
    pv_buffer (redis_view v w2 (ev_ContactID ev, ev_ConversationID ev)) =
      pv_buffer (redis_view v w (ev_ContactID ev, ev_ConversationID ev)) @ [ev_MessageContent ev]"
  using interrupt_clears [OF assms(1-6)] incoming_then_process [OF assms(1-3,7,8)] by simp

text \<open>A turn in the AI stage, whose message is still buffered.\<close>

definition turn_world :: "(mem_redis, nat) world" where
  "turn_world = demo_world \<lparr> w_redis := \<lparr> mr_db =
     [(stateKey 7 9, RStr (json_text (state_json (stageState StageAI [])))), (bufferKey 7 9, RList [''old''])],
     mr_token = 0 \<rparr> \<rparr>"

lemma turn_world_facts [simp]:
  "redis_ready mem_client mem_view turn_world" "ctx_ok turn_world" "apart c a b turn_world"
  "\<not> redis_locked mem_view turn_world q"
  by (simp_all add: turn_world_def redis_ready_def redis_sound_def mem_client_laws mem_client_responsive
      mem_view_def typed_db_def is_list_def is_str_def unmarshal_marshal_state redis_locked_def
      ctx_ok_def apart_def entries_Load_def boot_world_def)

lemma turn_world_view [simp]:
  "pv_state (redis_view mem_view turn_world (7, 9)) = Some (norm_state (stageState StageAI []))"
  "pv_buffer (redis_view mem_view turn_world (7, 9)) = [''old'']"
  by (simp_all add: redis_view_def db_pair_def list_at_def turn_world_def mem_view_def unmarshal_marshal_state)

lemma SetState_locked:
  assumes "redis_laws rc v" "run (SetState rc c a b st) w = (e, es, w')"
  shows "redis_locked v w' = redis_locked v w"
proof -
  let ?k = "stateKey a b" and ?x = "json_text (state_json st)"
  obtain e' r' where set: "rc_Set rc (ctx_done w c) ?k ?x 0 (w_redis w) = (e', r')" by fastforce
  with assms(2) have "w' = w \<lparr> w_redis := r' \<rparr>" by (auto simp: SetState_def Let_def run_redis_op)
  with law_Set [OF assms(1) set] show ?thesis
    by (auto simp: wrote_def redis_locked_def fun_eq_iff split: option.splits)
qed

lemma SetState_runs:
  assumes "redis_ready rc v w" "\<not> ctx_done w c"
  shows "\<exists>es w1. run (SetState rc c a b st) w = (None, es, w1) \<and> redis_ready rc v w1 \<and>
    redis_locked v w1 = redis_locked v w \<and> redis_only w w1"
proof -
  obtain e es w1 where r: "run (SetState rc c a b st) w = (e, es, w1)" by (rule prod_cases3)
  have "e = None" by (rule one_command(1) [OF assms r])
  moreover have "redis_ready rc v w1 \<and> redis_only w w1"
    using SetState_contract [OF ready_sound [OF assms(1)] r] assms(1) by (simp add: redis_ready_def)
  moreover have "redis_locked v w1 = redis_locked v w"
    using SetState_locked [OF _ r] assms(1) by (simp add: redis_ready_typed)
  ultimately show ?thesis using r by blast
qed

theorem incoming_bypasses_interrupt_witness:
  "\<exists>es w' es1 w1 es2 w2. run (Process demo_service [] demo_event) turn_world = (None, es, w') \<and>
     pv_buffer (redis_view mem_view w' (7, 9)) = [''hi''] \<and>
     run (SetState mem_client [] 7 9 (stageState StageIncoming ''now'')) turn_world = (None, es1, w1) \<and>
     run (Process demo_service [] demo_event) w1 = (None, es2, w2) \<and>
     pv_buffer (redis_view mem_view w2 (7, 9)) = [''old'', ''hi'']"
proof -
  obtain es w' where 0: "run (Process demo_service [] demo_event) turn_world = (None, es, w')"
    using Process_ok [of mem_client mem_view turn_world "[]" demo_event 5 demo_service] by auto
  obtain es1 w1 where 1: "run (SetState mem_client [] 7 9 (stageState StageIncoming ''now'')) turn_world = (None, es1, w1)"
    "redis_ready mem_client mem_view w1" "redis_locked mem_view w1 = redis_locked mem_view turn_world"
    "redis_only turn_world w1"
    using SetState_runs [OF turn_world_facts(1), of "[]" 7 9 "stageState StageIncoming ''now''"] by auto
  have "apart [] (ev_ContactID demo_event) (ev_ConversationID demo_event) w1"
    using apart_redis_only [OF 1(4)] by simp
  then obtain es2 w2 where 2: "run (Process demo_service [] demo_event) w1 = (None, es2, w2)"
    using Process_ok [of mem_client mem_view w1 "[]" demo_event 5 demo_service] 1(2,3) by auto
  have "st_Stage (norm_state (stageState StageAI [])) = StageAI"
    by (simp add: stage_of_norm stageState_def coerce_ascii)
  then show ?thesis
    using incoming_bypasses_interrupt [where ev = demo_event and c = "[]" and st = "norm_state (stageState StageAI [])",
      OF ready_sound [OF turn_world_facts(1)] turn_world_facts(2) demo_on] 0 1(1) 2 by simp
qed

end
