(* ===== verification/Pipeline_Story.thy ===== *)
theory Pipeline_Story
  imports Pipeline_Races
begin

text \<open>
  A whole turn: a message is taken up, its window expires, the AI stage asks the processor, the
  dispatch stage posts the reply, and the pair is left as it was found. Each goroutine is the
  one the step before launched.
\<close>

section \<open>One step of the turn each\<close>

lemma process_takes_up:
  assumes "redis_ready rc v w" "ctx_ok w" "on_redis rc fuel s"
    and "\<not> redis_locked v w (ev_ContactID ev, ev_ConversationID ev)"
    and "redis_view v w (ev_ContactID ev, ev_ConversationID ev) = blank"
    and "run (Process s Background ev) w = (e, es, w')"
  shows "e = None \<and> redis_ready rc v w' \<and> ctx_ok w' \<and>
    launched_for ev [w_next_ctx w] (begun ev (w_now w) blank) (w_launched w) (w_launched w') \<and>
    redis_view v w' = (redis_view v w)((ev_ContactID ev, ev_ConversationID ev) := begun ev (w_now w) blank) \<and>
    entries_Load w' (pairKey (ev_ContactID ev) (ev_ConversationID ev)) = Some (newEntry [w_next_ctx w] ev) \<and>
    \<not> ctx_done w' [w_next_ctx w]"
proof -
  have "apart Background (ev_ContactID ev) (ev_ConversationID ev) w"
    using ctx_okE [OF assms(2)] by (fastforce simp: apart_def)
  then obtain es1 w1 where "run (Process s Background ev) w = (None, es1, w1)"
    using Process_ok [OF assms(1) not_done_Background _ assms(4,3)] by blast
  with assms(6) have e: "e = None" by simp
  have r: "restarts (redis_view v w (ev_ContactID ev, ev_ConversationID ev))"
    by (simp add: assms(5) restarts_def)
  note post = Process_post [OF ready_sound [OF assms(1)] assms(2,3) assms(6) [unfolded e]]
  note pp = conjunct2 [OF conjunct2 [OF post]]
  have "machine ev (w_now w) blank = begun ev (w_now w) blank" by (simp add: machine_def)
  then show ?thesis
    using e post assms(1) process_post_view [OF pp] process_post_begins [OF pp r]
    unfolding assms(5) by (simp add: redis_ready_def Let_def)
qed

lemma process_starts:
  assumes "redis_ready rc v w" "ctx_ok w" "on_redis rc fuel s"
    and "\<not> redis_locked v w (ev_ContactID ev, ev_ConversationID ev)"
    and "redis_view v w (ev_ContactID ev, ev_ConversationID ev) = blank"
    and "DebounceTime (ev_BotConfig ev) \<noteq> 0" "run (Process s Background ev) w = (e, es, w')"
  shows "e = None \<and> redis_ready rc v w' \<and> ctx_ok w' \<and> w_launched w' = w_launched w \<and>
    redis_view v w' = (redis_view v w)((ev_ContactID ev, ev_ConversationID ev) := begun ev (w_now w) blank) \<and>
    entries_Load w' (pairKey (ev_ContactID ev) (ev_ConversationID ev)) = Some (newEntry [w_next_ctx w] ev) \<and>
    \<not> ctx_done w' [w_next_ctx w]"
  using process_takes_up [OF assms(1-5,7)] assms(6) by (simp add: launched_for_def)

lemma window_step:
  assumes "redis_ready rc v w" "ctx_ok w" "on_redis rc fuel s" "\<not> redis_locked v w (a, b)"
    and "due (redis_view v w (a, b))" "entries_Load w (pairKey a b) = Some entry"
    and "run (advanceToAI s a b) w = (r, es, w')"
  shows "redis_ready rc v w' \<and> ctx_ok w' \<and>
    (\<forall>k. entries_Load w' k = entries_Load w k) \<and> (\<forall>c. ctx_done w' c = ctx_done w c) \<and>
    w_next_ctx w' = w_next_ctx w \<and> w_net w' = w_net w \<and>
    (\<forall>q. q \<noteq> (a, b) \<longrightarrow> redis_view v w' q = redis_view v w q) \<and>
    w_launched w' = w_launched w @ [ai_goroutine entry a b (redis_view v w (a, b)) (pv_atts (redis_view v w (a, b)))]"
proof -
  note post = advance_post [OF ready_sound [OF assms(1)] assms(3,7)]
  obtain gs where gs: "redis_only (with_launched gs w) w'"
    using conjunct2 [OF post] unfolding advanced_def Let_def by blast
  note f = redis_only_fields [OF gs, unfolded with_launched_def, simplified]
  have "ctx_ok w'" by (rule iffD2 [OF ctx_ok_cong assms(2)]) (simp_all add: f)
  moreover have "\<forall>q. q \<noteq> (a, b) \<longrightarrow> redis_view v w' q = redis_view v w q"
    using conjunct2 [OF post] unfolding advanced_def Let_def by blast
  ultimately show ?thesis
    using post assms(1) f advance_runs [OF assms(1,3,4,5,6,7)]
    by (simp add: redis_ready_def entries_Load_def ctx_done_iff)
qed

lemma ai_step:
  assumes "redis_ready rc v w" "ctx_ok w"
    and "run (ai_Call (ps_aiAdapter s) c (a2a_request a b buffer atts (entries_Load w (pairKey a b)))) w
      = (Inr (Some r), es, w1)" "quiet w w1" "on_redis rc fuel s"
    and "run (runAIStage s c a b buffer atts cfg url) w = (x, es', w')"
  shows "redis_ready rc v w' \<and> ctx_ok w' \<and> replied (redis_view v) c a b (nr_Content r) cfg url w w'"
proof -
  have "wp (runAIStage s c a b buffer atts cfg url) (\<lambda>_ _ w'. redis_ready rc v w' \<and> ctx_ok w' \<and>
      replied (redis_view v) c a b (nr_Content r) cfg url w w') w"
    by (rule redis_service.wp_runAIStage_ok [OF assms(1,2) _ assms(3,4), where fuel = fuel])
      (use assms(5) in \<open>simp add: on_redis_def\<close>)
  from wp_run [OF assms(6) this] show ?thesis .
qed

text \<open>The request the AI stage makes, when the processor recovers in time.\<close>

definition timely :: "Config \<Rightarrow> nat \<Rightarrow> nat \<Rightarrow> bool" where
  "timely cfg n k \<longleftrightarrow> n \<le> k \<and> int k \<le> int n + sint (AICallMaxRetries cfg) \<and>
     0 \<le> sint (AICallMaxRetries cfg) \<and> sint (AICallMaxRetries cfg) \<le> 1000 \<and>
     0 < sint (AICallTimeoutSeconds cfg) \<and> sint (AICallTimeoutSeconds cfg) \<le> 86400"

lemma wired_call:
  assumes "recovers env k reply" "\<forall>u. he_Parse env u \<noteq> None" "read_reply (reply_resp reply) = Inr resp"
    and "ctx_ok w" "i < w_next_ctx w" "\<not> ctx_done w [i]" "timely cfg (w_net w) k" "rq_Attachments req = []"
  shows "\<exists>es w'. run (ai_Call (ps_aiAdapter (wire_service env rc pages cfg)) [i] req) w = (Inr (Some resp), es, w') \<and>
    quiet w w'"
proof -
  let ?a = "NewAIAdapter (AICallTimeoutSeconds cfg) (AICallMaxRetries cfg) (AICallRetryBaseMs cfg)"
  have call: "ai_Call (ps_aiAdapter (wire_service env rc pages cfg)) [i] req = Call env ?a [i] req"
    by (simp add: wire_service_def NewPipelineService_def Let_def adapter_of_def)
  have "aa_maxRetries ?a = AICallMaxRetries cfg" "aa_timeoutSecs ?a = AICallTimeoutSeconds cfg"
    using assms(7) by (simp_all add: timely_def NewAIAdapter_def Let_def word_sless_alt)
  moreover have "live w [i]" using assms(4-6) by (simp add: live_def ctx_ok_def)
  ultimately have "\<exists>es w'. run (Call env ?a [i] req) w = (Inr (Some resp), es, w') \<and> k < w_net w'"
    using assms(1,2,3,7,8) by (intro run_Call_recovers) (simp_all add: timely_def)
  then obtain es w' where run: "run (Call env ?a [i] req) w = (Inr (Some resp), es, w')" by blast
  from run quiet_run [OF quietly_Call run] show ?thesis unfolding call by blast
qed

lemma wired_dispatch:
  assumes "recovers env k reply" "\<forall>u. he_Parse env u \<noteq> None" "\<not> ctx_done w c" "k \<le> w_net w"
  shows "\<exists>es w'. run (dsp_Dispatch (ps_dispatchEng (wire_service env rc pages cfg)) c a b content bcfg url) w
      = (None, es, w') \<and> quiet w w' \<and>
    actions es = map (action_event (NewDispatchEngine (BotRuntimeSecret cfg)) url) (dispatch_plan content bcfg)"
proof -
  let ?d = "NewDispatchEngine (BotRuntimeSecret cfg)"
  have "answers_in env (\<lambda>n. k \<le> n)" using assms(1) by (auto simp: answers_in_def recovers_def)
  moreover have "he_Parse env url \<noteq> None" using assms(2) by blast
  ultimately obtain es w' where run: "run (Dispatch env ?d c a b content bcfg url) w = (None, es, w')"
    using run_Dispatch_in [of env "\<lambda>n. k \<le> n" url c w ?d a b content bcfg] assms(3,4)
    unfolding reaches_def by blast
  from Dispatch_follows [OF run_outcomes [OF run]] run quiet_run [OF quietly_Dispatch run] show ?thesis
    by (auto simp: engine_of_def follows_def)
qed

text \<open>The events of a dispatch stage whose dispatch succeeded.\<close>

lemma dispatch_stage_events:
  assumes "on_redis rc fuel s" "run (dsp_Dispatch (ps_dispatchEng s) c a b content cfg url) w = (None, es1, w1)"
    and "run (runDispatchStage s c a b content cfg url) w = (x, es, w')"
  shows "actions es = actions es1"
proof -
  let ?s = "s \<lparr> ps_dispatchEng := \<lparr> dsp_Dispatch = \<lambda>_ _ _ _ _ _. Done None \<rparr> \<rparr>"
  obtain x' es2 w2 where rest: "run (runDispatchStage ?s c a b content cfg url) w1 = (x', es2, w2)"
    by (rule prod_cases3)
  then have es: "es = es1 @ es2"
    using assms(2,3)
    by (simp add: runDispatchStage_def run_bind clearStateWithLog_def recoverPipeline_def split: prod.splits)
  have "redis_service ?s" using on_redis_service [OF assms(1)] by (simp add: redis_service_def)
  from dispatch_stage_trace [OF this run_outcomes [OF rest]]
  obtain now i j where "es2 = stage_events StageDone a b now i @ clear_events a b j"
    by (auto simp: dispatch_reaction_def)
  then show ?thesis by (simp add: es stage_events_def clear_events_def)
qed

section \<open>The whole turn\<close>

lemma begun_due:
  assumes "DebounceTime (ev_BotConfig ev) \<noteq> 0"
  shows "due ((begun ev now blank) \<lparr> pv_timer := False \<rparr>)"
  using assms by (simp add: due_def begun_def stage_of_norm debounceState_def stageState_def coerce_ascii)

text \<open>The message has been taken up and its window has expired: the AI stage is launched.\<close>

definition asked ::
  "(('r, 'n) world \<Rightarrow> store) \<Rightarrow> MessageEvent \<Rightarrow> nat \<Rightarrow> ('r, 'n) world \<Rightarrow> ('r, 'n) world \<Rightarrow> bool" where
  "asked view ev i w w' \<longleftrightarrow> (let a = ev_ContactID ev; b = ev_ConversationID ev in
     i < w_next_ctx w' \<and> \<not> ctx_done w' [i] \<and> (\<forall>q. q \<noteq> (a, b) \<longrightarrow> view w' q = view w q) \<and>
     w_launched w' = w_launched w @
       [GoAI [i] a b (ev_MessageContent ev) [] (ev_BotConfig ev) (ev_PostbackURL ev)])"

lemma turn_asks:
  assumes "redis_ready rc v w0" "ctx_ok w0" "\<not> redis_locked v w0 (a, b)" "redis_view v w0 (a, b) = blank"
    and "ev_ContactID ev = a" "ev_ConversationID ev = b" "DebounceTime (ev_BotConfig ev) \<noteq> 0"
    and "ev_Attachments ev = []" "on_redis rc fuel s"
    and "run (Process s Background ev) w0 = (e, es1, w1)"
    and "w2 = w1 \<lparr> w_redis := r2, w_net := n2 \<rparr>" "redis_ready rc v w2" "\<not> redis_locked v w2 (a, b)"
    and "redis_view v w2 = (redis_view v w1)((a, b) := (redis_view v w1 (a, b)) \<lparr> pv_timer := False \<rparr>)"
    and "run (advanceToAI s a b) w2 = (x3, es3, w3)"
  shows "e = None \<and> redis_ready rc v w3 \<and> ctx_ok w3 \<and> w_net w3 = w_net w2 \<and>
    (\<exists>i. asked (redis_view v) ev i w0 w3)"
proof -
  let ?c = "[w_next_ctx w0]" and ?view = "redis_view v"
  have "\<not> redis_locked v w0 (ev_ContactID ev, ev_ConversationID ev)"
    "?view w0 (ev_ContactID ev, ev_ConversationID ev) = blank" using assms(3-6) by simp_all
  note 1 = process_starts [OF assms(1,2,9) this assms(7,10), unfolded assms(5,6)]
  have s2: "entries_Load w2 = entries_Load w1" "ctx_done w2 ?c = ctx_done w1 ?c" "w_next_ctx w2 = w_next_ctx w1"
    "w_launched w2 = w_launched w1"
    by (simp_all add: assms(11) ctx_done_iff fun_eq_iff entries_Load_def)
  have ok2: "ctx_ok w2" by (rule iffD2 [OF ctx_ok_cong, of _ w1]) (simp_all add: assms(11) 1)
  have v2: "?view w2 = (?view w0)((a, b) := (begun ev (w_now w0) blank) \<lparr> pv_timer := False \<rparr>)"
    using 1 by (simp add: assms(14))
  have due2: "due (?view w2 (a, b))" using begun_due [OF assms(7)] by (simp add: v2)
  have e2: "entries_Load w2 (pairKey a b) = Some (newEntry ?c ev)" using 1 by (simp add: s2)
  note 3 = window_step [OF assms(12) ok2 assms(9,13) due2 e2 assms(15)]
  have g: "ai_goroutine (newEntry ?c ev) a b (?view w2 (a, b)) (pv_atts (?view w2 (a, b)))
      = GoAI ?c a b (ev_MessageContent ev) [] (ev_BotConfig ev) (ev_PostbackURL ev)"
    by (simp add: v2 ai_goroutine_def newEntry_def aggregated_def begun_def buffered_def assms(8))
  have "\<not> ctx_done w3 ?c" using 3 1 by (simp add: s2)
  moreover have "w_next_ctx w0 < w_next_ctx w3"
    using ctx_okE [of w3 "pairKey a b" "newEntry ?c ev"] 3 e2 by (auto simp: newEntry_def)
  moreover have "\<forall>q. q \<noteq> (a, b) \<longrightarrow> ?view w3 q = ?view w2 q" using 3 by blast
  then have "\<forall>q. q \<noteq> (a, b) \<longrightarrow> ?view w3 q = ?view w0 q" by (simp add: v2)
  moreover have "w_launched w3 = w_launched w0 @
      [GoAI ?c a b (ev_MessageContent ev) [] (ev_BotConfig ev) (ev_PostbackURL ev)]"
    using 3 1 unfolding g s2 by simp
  ultimately have "asked ?view ev (w_next_ctx w0) w0 w3" by (simp add: asked_def assms(5,6))
  with 1 3 show ?thesis by blast
qed

text \<open>Without a window \<open>Process\<close> itself launches the AI stage.\<close>

lemma turn_asks_at_once:
  assumes "redis_ready rc v w0" "ctx_ok w0" "\<not> redis_locked v w0 (a, b)" "redis_view v w0 (a, b) = blank"
    and "ev_ContactID ev = a" "ev_ConversationID ev = b" "DebounceTime (ev_BotConfig ev) = 0"
    and "ev_Attachments ev = []" "on_redis rc fuel s" "run (Process s Background ev) w0 = (e, es1, w1)"
  shows "e = None \<and> redis_ready rc v w1 \<and> ctx_ok w1 \<and> (\<exists>i. asked (redis_view v) ev i w0 w1)"
proof -
  let ?c = "[w_next_ctx w0]"
  have "\<not> redis_locked v w0 (ev_ContactID ev, ev_ConversationID ev)"
    "redis_view v w0 (ev_ContactID ev, ev_ConversationID ev) = blank" using assms(3-6) by simp_all
  note 1 = process_takes_up [OF assms(1,2,9) this assms(10)]
  have "w_launched w1 = w_launched w0 @
      [GoAI ?c (ev_ContactID ev) (ev_ConversationID ev) (ev_MessageContent ev) [] (ev_BotConfig ev) (ev_PostbackURL ev)]"
    using 1 assms(7,8) by (auto simp: launched_for_def aggregated_def begun_def buffered_def)
  moreover have "w_next_ctx w0 < w_next_ctx w1"
    using ctx_okE [of w1 "pairKey (ev_ContactID ev) (ev_ConversationID ev)" "newEntry ?c ev"] 1
    by (auto simp: newEntry_def)
  ultimately have "asked (redis_view v) ev (w_next_ctx w0) w0 w1" using 1 by (simp add: asked_def)
  with 1 show ?thesis by blast
qed

text \<open>The processor has replied and the reply has been posted.\<close>

lemma turn_answers:
  assumes "redis_ready rc v w3" "ctx_ok w3" "i < w_next_ctx w3" "\<not> ctx_done w3 [i]" "timely cfg (w_net w3) k"
    and "recovers env k reply" "\<forall>u. he_Parse env u \<noteq> None" "read_reply (reply_resp reply) = Inr resp"
    and "run (runAIStage (wire_service env rc pages cfg) [i] a b content [] bcfg url) w3 = (x4, es4, w4)"
    and "w5 = w4 \<lparr> w_net := n5 \<rparr>" "k \<le> n5"
    and "run (goroutine_body h (wire_service env rc pages cfg) t (last (w_launched w5))) w5 = (x6, es6, w6)"
  shows "redis_view v w6 = (redis_view v w3)((a, b) := blank) \<and> entries_Load w6 (pairKey a b) = None \<and>
    w_launched w6 = w_launched w3 @ [GoDispatch [i] a b (nr_Content resp) bcfg url] \<and>
    actions es6 = map (action_event (NewDispatchEngine (BotRuntimeSecret cfg)) url)
      (dispatch_plan (nr_Content resp) bcfg)"
proof -
  let ?s = "wire_service env rc pages cfg" and ?view = "redis_view v"
  let ?req = "a2a_request a b content [] (entries_Load w3 (pairKey a b))"
  have "rq_Attachments ?req = []" by (simp add: a2a_request_def split: prod.split)
  from wired_call [OF assms(6-8,2,3,4,5) this]
  obtain es w where call: "run (ai_Call (ps_aiAdapter ?s) [i] ?req) w3 = (Inr (Some resp), es, w)" "quiet w3 w"
    by blast
  note 4 = ai_step [OF assms(1,2) call on_redis_wired assms(9)]
  have r4: "replied ?view [i] a b (nr_Content resp) bcfg url w3 w4" using 4 by blast
  have s5: "w_redis w5 = w_redis w4" "ctx_done w5 [i] = ctx_done w4 [i]" "w_launched w5 = w_launched w4" "w_net w5 = n5"
    by (simp_all add: assms(10) ctx_done_iff)
  have ok5: "ctx_ok w5" by (rule iffD2 [OF ctx_ok_cong, of _ w4]) (simp_all add: assms(10) 4)
  have ready5: "redis_ready rc v w5" "?view w5 = ?view w4" using 4 ready_frame [OF s5(1)] by simp_all
  have "\<not> ctx_done w5 [i]" "k \<le> w_net w5"
    using r4 assms(3,4,11) by (simp_all add: s5 replied_def kept_def)
  from wired_dispatch [OF assms(6,7) this]
  obtain es' w' where dsp: "run (dsp_Dispatch (ps_dispatchEng ?s) [i] a b (nr_Content resp) bcfg url) w5
      = (None, es', w')" "quiet w5 w'" "actions es' = map (action_event (NewDispatchEngine (BotRuntimeSecret cfg)) url)
        (dispatch_plan (nr_Content resp) bcfg)"
    by blast
  have run6: "run (runDispatchStage ?s [i] a b (nr_Content resp) bcfg url) w5 = (x6, es6, w6)"
    using assms(12) r4 by (simp add: s5 replied_def)
  note 6 = dispatch_stage_runs [OF ready5(1) ok5 on_redis_wired dsp(1,2) run6]
  then have w6: "wiped ?view a b w5 w6" by blast
  have "?view w6 = (?view w3)((a, b) := blank)" using w6 r4 by (simp add: wiped_def ready5 replied_def)
  with w6 r4 dispatch_stage_events [OF on_redis_wired dsp(1) run6] dsp(3) show ?thesis
    by (simp add: wiped_def s5 replied_def)
qed


text \<open>The timer of the pair and what is left of its lock expire.\<close>

definition expired :: "mem_redis \<Rightarrow> mem_redis" where
  "expired r = mem_del [timerKey 7 9, lockKey 7 9] r"

lemma expired_world:
  assumes "redis_ready mem_client mem_view w"
  shows "redis_ready mem_client mem_view (w \<lparr> w_redis := expired (w_redis w), w_net := n \<rparr>)"
    "\<not> redis_locked mem_view (w \<lparr> w_redis := expired (w_redis w), w_net := n \<rparr>) (7, 9)"
    "redis_view mem_view (w \<lparr> w_redis := expired (w_redis w), w_net := n \<rparr>) =
      (redis_view mem_view w)((7, 9) := (redis_view mem_view w (7, 9)) \<lparr> pv_timer := False \<rparr>)"
proof -
  have db: "mem_view (expired r) = del_keys (mem_view r) [timerKey 7 9, lockKey 7 9]" for r
    by (simp add: expired_def mem_view_del)
  show "redis_ready mem_client mem_view (w \<lparr> w_redis := expired (w_redis w), w_net := n \<rparr>)"
    using redis_ready_typed [OF assms] by (simp add: redis_ready_def redis_sound_def db typed_del)
  show "\<not> redis_locked mem_view (w \<lparr> w_redis := expired (w_redis w), w_net := n \<rparr>) (7, 9)"
    by (simp add: redis_locked_def db del_keys_def)
  have "db_pair (del_keys d [timerKey 7 9, lockKey 7 9]) = db_pair (del_keys d [timerKey 7 9])" for d
    by (rule db_pair_lock [of 7 9]) (simp add: del_keys_def)
  then show "redis_view mem_view (w \<lparr> w_redis := expired (w_redis w), w_net := n \<rparr>) =
      (redis_view mem_view w)((7, 9) := (redis_view mem_view w (7, 9)) \<lparr> pv_timer := False \<rparr>)"
    by (simp add: redis_view_def db db_pair_del_timer)
qed

lemma demo_timely: "timely demo_config 0 1"
  by (simp add: timely_def demo_config_def)



definition quick_event :: MessageEvent where
  "quick_event = demo_event \<lparr> ev_BotConfig := zeroConfig \<rparr>"


end
