(* ===== verification/Service_Lifecycle.thy ===== *)
theory Service_Lifecycle
  imports Pipeline_Story
begin

text \<open>
  The edges of the service: what a request can set off, what happens under the lock of a pair,
  how a restart resumes the open windows, and how the process is stopped.
\<close>

section \<open>Programs that emit certain events only\<close>

definition emits :: "('e \<Rightarrow> bool) \<Rightarrow> ('s, 'e, 'a) prog \<Rightarrow> bool" where
  "emits P p \<longleftrightarrow> (\<forall>x es. outcomes p x es \<longrightarrow> (\<forall>e \<in> set es. P e))"

named_theorems emitting \<open>programs that emit certain events only\<close>

lemma emits_Done [emitting]: "emits P (Done a)"
  by (simp add: emits_def)

lemma emits_bind [emitting]: "emits P p \<Longrightarrow> (\<And>a. emits P (f a)) \<Longrightarrow> emits P (pbind p f)"
  unfolding emits_def outcomes_bind by fastforce

lemma emits_state [emitting]: "emits P (get_state f)" "emits P (upd_state g)"
  by (simp_all add: emits_def)

lemma emits_atomic [emitting]: "emits P (atomic [] f)"
  by (simp add: emits_def)

lemma emits_runtime [emitting]:
  "emits P Now" "emits P (is_done c)" "emits P (WithCancel c)" "emits P (WithTimeout c d)"
  "emits P (Runtime.Load k)" "emits P (Store k x)" "emits P (Delete k)" "emits P (LoadAndDelete k)"
  by (simp_all add: runtime_defs emitting)

lemma emits_cancel [emitting]: "(\<And>i. P (EvCancel i)) \<Longrightarrow> emits P (cancel c)"
  by (simp add: emits_def)

lemma emits_launch [emitting]: "P (EvGo g) \<Longrightarrow> emits P (go_launch g)"
  by (simp add: emits_def go_launch_def outcomes_Step_iff)

lemma emits_redis [emitting]: "P (EvRedis c) \<Longrightarrow> emits P (redis_op c ctx f)"
  by (auto simp: emits_def dest: outcomes_redis_op)

section \<open>Under the lock of a pair\<close>

definition own_keys :: "int64 \<Rightarrow> int64 \<Rightarrow> string set" where
  "own_keys a b = {stateKey a b, bufferKey a b, attachBufferKey a b, timerKey a b}"

fun own_command :: "int64 \<Rightarrow> int64 \<Rightarrow> redis_cmd \<Rightarrow> bool" where
  "own_command a b (CmdSet k v ttl) \<longleftrightarrow> k \<in> own_keys a b"
| "own_command a b (CmdGet k) \<longleftrightarrow> k \<in> own_keys a b"
| "own_command a b (CmdDel ks) \<longleftrightarrow> set ks \<subseteq> own_keys a b"
| "own_command a b (CmdRPush k vs) \<longleftrightarrow> k \<in> own_keys a b"
| "own_command a b (CmdLRange k) \<longleftrightarrow> k \<in> own_keys a b"
| "own_command a b (CmdExpire k ttl) \<longleftrightarrow> k \<in> own_keys a b"
| "own_command a b (CmdExists k) \<longleftrightarrow> k \<in> own_keys a b"
| "own_command a b _ \<longleftrightarrow> False"

text \<open>A command on the keys of the pair, a cancellation, or the launch of the pair's AI stage.\<close>

fun own_event :: "int64 \<Rightarrow> int64 \<Rightarrow> event \<Rightarrow> bool" where
  "own_event a b (EvRedis c) \<longleftrightarrow> own_command a b c"
| "own_event a b (EvCancel i) \<longleftrightarrow> True"
| "own_event a b (EvGo (GoAI c a' b' buffer atts cfg url)) \<longleftrightarrow> a' = a \<and> b' = b"
| "own_event a b _ \<longleftrightarrow> False"

lemma emits_repo [emitting]:
  "emits (own_event a b) (SetState rc c a b st)" "emits (own_event a b) (GetState rc c a b)"
  "emits (own_event a b) (ClearState rc c a b)" "emits (own_event a b) (AppendToBuffer rc c a b msg)"
  "emits (own_event a b) (Redis_Repository.GetBuffer rc c a b)"
  "emits (own_event a b) (AppendAttachments rc c a b atts)"
  "emits (own_event a b) (Redis_Repository.GetAttachments rc c a b)"
  "emits (own_event a b) (SetTimer rc c a b ttl)" "emits (own_event a b) (Redis_Repository.TimerExists rc c a b)"
  unfolding SetState_def GetState_def ClearState_def AppendToBuffer_def Redis_Repository.GetBuffer_def
    AppendAttachments_def Redis_Repository.GetAttachments_def SetTimer_def Redis_Repository.TimerExists_def Let_def
  by (auto intro!: emitting simp: own_keys_def split: sum.split option.split)

lemma emits_debounce [emitting]:
  "emits (own_event a b) (Debounce_Engine.Start (NewPipelineRepository rc fuel) c a b content atts cfg)"
  "emits (own_event a b) (Debounce_Engine.Reset (NewPipelineRepository rc fuel) c a b content atts cfg)"
  "emits (own_event a b) (Debounce_Engine.GetBuffer (NewPipelineRepository rc fuel) c a b)"
  "emits (own_event a b) (Debounce_Engine.GetAttachments (NewPipelineRepository rc fuel) c a b)"
  unfolding Debounce_Engine.Start_def Reset_def Debounce_Engine.GetBuffer_def Debounce_Engine.GetAttachments_def
    Let_def repo_sel
  by (auto intro!: emitting split: sum.split option.split)

lemma emits_launchAIStage [emitting]: "emits (own_event a b) (launchAIStage s a b buffer atts)"
  unfolding launchAIStage_def by (auto intro!: emitting split: option.split)

lemma emits_cancelPair [emitting]: "emits (own_event a b) (cancelPair s a b)"
  unfolding cancelPair_def by (auto intro!: emitting split: option.split)

lemma emits_abandon [emitting]: "emits (own_event a b) (abandon c k r)"
  unfolding abandon_def by (auto intro!: emitting)

lemma emits_begin [emitting]:
  "on_redis rc fuel s \<Longrightarrow> emits (own_event (ev_ContactID ev) (ev_ConversationID ev)) (begin_pipeline s c ev)"
  unfolding begin_pipeline_def skipDebounce_def startDebounce_def Let_def on_redis_def
  by (auto intro!: emitting split: sum.split option.split)

lemma emits_process_state [emitting]:
  "on_redis rc fuel s \<Longrightarrow> emits (own_event (ev_ContactID ev) (ev_ConversationID ev)) (process_state s c ev st)"
  unfolding process_state_def Let_def resetDebounce_def
  by (auto intro!: emitting simp: on_redis_def split: option.split)

lemma emits_advance_locked [emitting]:
  "on_redis rc fuel s \<Longrightarrow> emits (own_event a b) (advance_locked s a b)"
  unfolding advance_locked_def Let_def on_redis_def
  by (auto intro!: emitting split: sum.split)

lemma outcomes_AcquireLock:
  assumes "redis_laws rc v" "outcomes (AcquireLock rc c a b :: ('r, 'n, go_error + mutex) go) r es"
  shows "es = [EvRedis (CmdLock (lockKey a b))] \<and>
    (case r of Inl err \<Rightarrow> err = ErrLockFailed | Inr m \<Rightarrow> mx_name m = lockKey a b)"
proof -
  let ?k = "lockKey a b"
  obtain x es1 es2 where lock: "outcomes (redis_op (CmdLock ?k) c (\<lambda>d. rc_Lock rc d ?k) ::
      ('r, 'n, go_error + mutex) go) x es1" and
    rest: "outcomes ((case x of Inl _ \<Rightarrow> Done (Inl ErrLockFailed) | Inr m \<Rightarrow> Done (Inr m)) ::
      ('r, 'n, go_error + mutex) go) r es2" and es: "es = es1 @ es2"
    using assms(2) unfolding AcquireLock_def Let_def by (rule outcomes_bindE) (rule that)
  have es1: "es1 = [EvRedis (CmdLock ?k)]" using lock by (rule outcomes_redis_op)
  obtain w :: "('r, 'n) world" where "x = fst (rc_Lock rc (ctx_done w c) ?k (w_redis w))"
    using lock by (auto simp: redis_op_def case_prod_unfold)
  then have "mx_name m = ?k" if "x = Inr m" for m
    using that law_Lock [OF assms(1), of "ctx_done w c" ?k "w_redis w"] by (cases "rc_Lock rc (ctx_done w c) ?k (w_redis w)") auto
  with rest es es1 show ?thesis by (cases x) auto
qed

text \<open>A program between the lock of a pair and its release.\<close>

definition locked_trace :: "int64 \<Rightarrow> int64 \<Rightarrow> event list \<Rightarrow> bool" where
  "locked_trace a b es \<longleftrightarrow> es = [EvRedis (CmdLock (lockKey a b))] \<or>
     (\<exists>es'. es = EvRedis (CmdLock (lockKey a b)) # es' @ [EvRedis (CmdUnlock (lockKey a b))] \<and>
       (\<forall>e \<in> set es'. own_event a b e))"

lemma locked_traceI:
  assumes "redis_laws rc v" "emits (own_event a b) p"
    and "outcomes (pbind (AcquireLock rc c a b) (\<lambda>r. case r of Inl _ \<Rightarrow> Done failed
       | Inr mu \<Rightarrow> pbind p (\<lambda>e. pbind (Unlock rc mu) (\<lambda>_. Done (f e)))) :: ('r, 'n, 'x) go) x es"
  shows "locked_trace a b es"
proof -
  obtain r es1 es2 where lock: "outcomes (AcquireLock rc c a b :: ('r, 'n, go_error + mutex) go) r es1" and
    rest: "outcomes (case r of Inl _ \<Rightarrow> Done failed
       | Inr mu \<Rightarrow> pbind p (\<lambda>e. pbind (Unlock rc mu) (\<lambda>_. Done (f e)))) x es2" and es: "es = es1 @ es2"
    using assms(3) by (rule outcomes_bindE)
  note r = outcomes_AcquireLock [OF assms(1) lock]
  show ?thesis
  proof (cases r)
    case (Inl err)
    with rest r es show ?thesis by (simp add: locked_trace_def)
  next
    case (Inr m)
    with rest have "outcomes (pbind p (\<lambda>e. pbind (Unlock rc m) (\<lambda>_. Done (f e)))) x es2" by simp
    then obtain y es3 es4 where "outcomes p y es3"
      "outcomes (pbind (Unlock rc m :: ('r, 'n, bool) go) (\<lambda>_. Done (f y))) x es4" "es2 = es3 @ es4"
      by (rule outcomes_bindE) (rule that)
    moreover from this(2) have "es4 = [EvRedis (CmdUnlock (mx_name m))]"
      by (auto simp: outcomes_bind Unlock_def dest: outcomes_redis_op)
    ultimately show ?thesis
      using assms(2) r es Inr by (auto simp: locked_trace_def emits_def)
  qed
qed

text \<open>
  C6 (lock_scope). Under every schedule \<open>Process\<close> and \<open>advanceToAI\<close> start by asking for the lock of
  their pair. Once they hold it they release it last, whatever happens in between, and in
  between they only send Redis commands on the keys of their pair, cancel a context or launch
  the AI stage of the pair: no HTTP call and no waiting while the lock is held.
\<close>

theorem lock_scope:
  assumes "redis_laws rc v" "on_redis rc fuel s"
  shows "(outcomes (Process s c ev :: ('r, 'n, go_error option) go) e es \<longrightarrow>
      locked_trace (ev_ContactID ev) (ev_ConversationID ev) es) \<and>
    (outcomes (advanceToAI s a b :: ('r, 'n, unit) go) x es' \<longrightarrow> locked_trace a b es')"
proof (intro conjI impI)
  have repo: "ps_repo s = NewPipelineRepository rc fuel" using assms(2) by (simp add: on_redis_def)
  let ?body = "pbind (GetState rc c (ev_ContactID ev) (ev_ConversationID ev)) (\<lambda>r.
      case r of Inl err \<Rightarrow> Done (Some (Wrap ''pipeline.process.get_state'' err))
      | Inr st \<Rightarrow> process_state s c ev st)"
  have "emits (own_event (ev_ContactID ev) (ev_ConversationID ev)) ?body"
    by (auto intro!: emitting assms(2) split: sum.split)
  moreover assume "outcomes (Process s c ev :: ('r, 'n, go_error option) go) e es"
  ultimately show "locked_trace (ev_ContactID ev) (ev_ConversationID ev) es"
    unfolding Process_def repo repo_sel by (rule locked_traceI [OF assms(1)])
next
  assume "outcomes (advanceToAI s a b :: ('r, 'n, unit) go) x es'"
  with assms(2) emits_advance_locked [OF assms(2)] show "locked_trace a b es'"
    unfolding advanceToAI_def on_redis_def
    by (intro locked_traceI [OF assms(1), where f = "\<lambda>_. ()" and failed = "()"]) auto
qed

theorem lock_scope_witness:
  "\<exists>es es' w'. run (Process demo_service [] demo_event) demo_world = (None, es, w') \<and> locked_trace 7 9 es"
proof -
  obtain es w' where run: "run (Process demo_service [] demo_event) demo_world = (None, es, w')"
    using Process_ok [of mem_client mem_view demo_world "[]" demo_event 5 demo_service] by auto
  have "locked_trace (ev_ContactID demo_event) (ev_ConversationID demo_event) es"
    using lock_scope [OF mem_client_laws demo_on] run_outcomes [OF run] by blast
  with run show ?thesis by auto
qed

section \<open>Requests\<close>

lemma events_route_trace:
  assumes "outcomes (Server_Main.Load :: ('r, 'n, go_error + Config) go) (Inr cfg) es0"
    and "RegisterRoutes (wire_handler env rc pages cfg :: ('r, 'n) Handler) ''POST'' ''/events'' = Some route"
    and "outcomes (route c) x es"
  shows "if header_get (hi_Headers c) ''X-Bot-Runtime-Secret'' = BotRuntimeSecret cfg
    then header_get (hi_Headers c) ''X-Bot-Runtime-Secret'' \<noteq> [] \<and>
      ((\<exists>ev now. bind_event (hi_Body c) = Some ev \<and> Validate ev = None \<and> es = accepted now ev) \<or>
       (\<exists>es' status obj. es = es' @ [EvRespond status obj] \<and> status \<in> {400, 500} \<and> (\<forall>g. EvGo g \<notin> set es')))
    else es = [EvRespond 401 [(''error'', ''unauthorized''), (''code'', ''ERR_UNAUTHORIZED'')]]"
proof -
  have route: "route = SecretMiddleware (BotRuntimeSecret cfg) (handleEvent (wire_handler env rc pages cfg))"
    using assms(2) by (simp add: RegisterRoutes_def)
  show ?thesis
  proof (cases "header_get (hi_Headers c) ''X-Bot-Runtime-Secret'' = BotRuntimeSecret cfg")
    case True
    with assms(3) have "outcomes (handleEvent (wire_handler env rc pages cfg :: ('r, 'n) Handler) c) x es"
      by (simp add: route SecretMiddleware_def)
    from handleEvent_trace [OF wired_sel(4) this] True loaded_secret [OF assms(1)] show ?thesis by auto
  next
    case False
    with assms(3) show ?thesis by (simp add: route SecretMiddleware_def)
  qed
qed

text \<open>
  C13 (events_route). On the running server a request to \<open>POST /events\<close> sets off a pipeline only
  when it carries the shared secret, which is not empty, and a valid event, and only after the
  stage of the pair was stored; a request with another secret, or none, is answered 401 and
  does nothing else.
\<close>

theorem events_route:
  assumes "outcomes (Server_Main.Load :: ('r, 'n, go_error + Config) go) (Inr cfg) es0"
    and "RegisterRoutes (wire_handler env rc pages cfg :: ('r, 'n) Handler) ''POST'' ''/events'' = Some route"
    and "outcomes (route c) x es"
  shows "if header_get (hi_Headers c) ''X-Bot-Runtime-Secret'' = BotRuntimeSecret cfg
    then header_get (hi_Headers c) ''X-Bot-Runtime-Secret'' \<noteq> [] \<and>
      ((\<exists>ev now. bind_event (hi_Body c) = Some ev \<and> Validate ev = None \<and> es = accepted now ev) \<or>
       (\<exists>es' status obj. es = es' @ [EvRespond status obj] \<and> status \<in> {400, 500} \<and> (\<forall>g. EvGo g \<notin> set es')))
    else es = [EvRespond 401 [(''error'', ''unauthorized''), (''code'', ''ERR_UNAUTHORIZED'')]]"
  using assms by (rule events_route_trace)

text \<open>The environment and a request of the witness.\<close>

definition demo_env :: "string \<Rightarrow> string option" where
  "demo_env k = (if k = ''LISTEN_ADDR'' then Some '':8080'' else if k = ''REDIS_URL'' then Some ''redis://r''
     else if k = ''BOT_RUNTIME_SECRET'' then Some ''s'' else None)"

lemma demo_loads:
  "outcomes (Server_Main.Load :: (mem_redis, nat, go_error + Config) go) (Inr demo_config) []"
proof -
  have "run (Server_Main.Load :: (mem_redis, nat, go_error + Config) go) (demo_world \<lparr> w_env := demo_env \<rparr>)
      = (Inr demo_config, [], demo_world \<lparr> w_env := demo_env \<rparr>)"
    by (simp add: Server_Main.Load_def or_return_def mustGetEnv_def getEnvIntOrDefault_def Getenv_def run_bind run_get
        demo_env_def demo_config_def)
  then show ?thesis by (rule run_outcomes)
qed

theorem events_route_witness:
  "\<exists>route x es w'. RegisterRoutes (wire_handler busy_once mem_client 5 demo_config) ''POST'' ''/events'' = Some route \<and>
     run (route \<lparr> hi_Method = ''POST'', hi_Path = ''/events'', hi_Headers = [], hi_Body = [], hi_ctx = [] \<rparr>) demo_world
       = (x, es, w') \<and> es = [EvRespond 401 [(''error'', ''unauthorized''), (''code'', ''ERR_UNAUTHORIZED'')]]"
proof -
  let ?req = "\<lparr> hi_Method = ''POST'', hi_Path = ''/events'', hi_Headers = [], hi_Body = [], hi_ctx = [] \<rparr>"
  obtain route :: "http_in \<Rightarrow> (mem_redis, nat, unit) go" where
    route: "RegisterRoutes (wire_handler busy_once mem_client 5 demo_config) ''POST'' ''/events'' = Some route"
    by (simp add: RegisterRoutes_def)
  obtain x es w' where run: "run (route ?req) demo_world = (x, es, w')" by (rule prod_cases3)
  have "header_get (hi_Headers ?req) ''X-Bot-Runtime-Secret'' \<noteq> BotRuntimeSecret demo_config"
    by (simp add: header_get_def demo_config_def)
  with events_route [OF demo_loads route run_outcomes [OF run]] route run show ?thesis by simp
qed

section \<open>Restart\<close>

text \<open>What the recovery of one pair leaves alone, and what it adds.\<close>

definition recovered ::
  "(('r, 'n) world \<Rightarrow> store) \<Rightarrow> int64 \<Rightarrow> int64 \<Rightarrow> ('r, 'n) world \<Rightarrow> ('r, 'n) world \<Rightarrow> bool" where
  "recovered view a b w w' \<longleftrightarrow>
     (\<forall>q. q \<noteq> (a, b) \<longrightarrow> view w' q = view w q) \<and>
     (\<forall>k. k \<noteq> pairKey a b \<or> entries_Load w k \<noteq> None \<longrightarrow> entries_Load w' k = entries_Load w k) \<and>
     w_next_ctx w \<le> w_next_ctx w' \<and> (\<forall>i. w_ctx_err w' i = w_ctx_err w i) \<and>
     (\<forall>st. pv_state (view w (a, b)) = Some st \<longrightarrow> st_Stage st = StageDebounce \<longrightarrow>
        entries_Load w (pairKey a b) = None \<longrightarrow>
        entries_Load w' (pairKey a b) = Some (recoveredEntry [w_next_ctx w] st))"

lemma recovered_idle:
  assumes "redis_only w w'" "view w' = view w"
    and "\<And>st. pv_state (view w (a, b)) = Some st \<Longrightarrow> st_Stage st \<noteq> StageDebounce"
  shows "recovered view a b w w'"
  using assms redis_only_fields [OF assms(1)] by (auto simp: recovered_def entries_Load_def)

lemma advanced_kept:
  assumes "advanced view u a b w w'"
  shows "(\<forall>q. q \<noteq> (a, b) \<longrightarrow> view w' q = view w q) \<and> (\<forall>k. entries_Load w' k = entries_Load w k) \<and>
    w_next_ctx w' = w_next_ctx w \<and> w_ctx_err w' = w_ctx_err w"
proof -
  obtain gs where gs: "redis_only (with_launched gs w) w'"
    using assms unfolding advanced_def Let_def by blast
  note f = redis_only_fields [OF gs, unfolded with_launched_def, simplified]
  show ?thesis using assms f by (simp add: advanced_def Let_def entries_Load_def)
qed

lemma recover_pair_step:
  assumes "redis_ready rc v w" "on_redis rc fuel s"
    and "run (recover_pair s \<lparr> p_ContactID = a, p_ConversationID = b \<rparr>) w = (x, es, w')"
  shows "redis_ready rc v w' \<and> recovered (redis_view v) a b w w'"
proof -
  let ?view = "redis_view v" and ?k = "pairKey a b"
  have repo: "ps_repo s = NewPipelineRepository rc fuel" using assms(2) by (simp add: on_redis_def)
  obtain r es1 w1 where get: "run (GetState rc Background a b) w = (r, es1, w1)" by (rule prod_cases3)
  note g = GetState_contract [OF ready_sound [OF assms(1)] get]
  have "r = Inr (pv_state (?view w (a, b)))"
    using g GetState_responsive [OF assms(1) _ get] by (cases r) auto
  note get' = get [unfolded this]
  have w1: "redis_ready rc v w1" "redis_only w w1" "?view w1 = ?view w"
    using g assms(1) by (simp_all add: redis_ready_def)
  show ?thesis
  proof (cases "\<exists>st. pv_state (?view w (a, b)) = Some st \<and> st_Stage st = StageDebounce")
    case False
    with assms(3) get' have "w' = w1"
      by (auto simp: recover_pair_def repo Let_def run_bind split: option.splits)
    with w1 False recovered_idle show ?thesis by blast
  next
    case True
    then obtain st where st: "pv_state (?view w (a, b)) = Some st" "st_Stage st = StageDebounce" by blast
    define w2 where "w2 = (case entries_Load w1 ?k of
        None \<Rightarrow> entries_put ?k (recoveredEntry [w_next_ctx w1] st) (w1 \<lparr> w_next_ctx := Suc (w_next_ctx w1) \<rparr>)
      | Some _ \<Rightarrow> w1)"
    have r2: "w_redis w2 = w_redis w1" by (simp add: w2_def split: option.split)
    have w2: "redis_ready rc v w2" "?view w2 = ?view w" using ready_frame [OF r2] w1 by simp_all
    obtain t es3 w3 where timer: "run (Redis_Repository.TimerExists rc Background a b) w2 = (t, es3, w3)"
      by (rule prod_cases3)
    note t = TimerExists_contract [OF ready_sound [OF w2(1)] timer]
    have w3: "redis_ready rc v w3" "redis_only w2 w3" "?view w3 = ?view w"
      using t w2 by (simp_all add: redis_ready_def)
    have "run (pbind (case entries_Load w1 ?k of None \<Rightarrow> pbind (WithCancel Background) (\<lambda>c. Store ?k (recoveredEntry c st))
        | Some _ \<Rightarrow> Done ()) (\<lambda>_. Redis_Repository.TimerExists rc Background a b)) w1 = (t, es3, w3)"
      using timer by (simp add: w2_def run_bind runtime_defs run_atomic run_upd split: option.splits)
    then obtain es4 where rest: "run (if t = Inr False then advanceToAI s a b else Done ()) w3 = (x, es4, w')"
      using assms(3) get' st
      by (auto simp: recover_pair_def repo Let_def run_bind Runtime.Load_def run_get split: prod.splits)
    have "redis_ready rc v w' \<and> (\<forall>q. q \<noteq> (a, b) \<longrightarrow> ?view w' q = ?view w3 q) \<and>
      (\<forall>k. entries_Load w' k = entries_Load w3 k) \<and> w_next_ctx w' = w_next_ctx w3 \<and> w_ctx_err w' = w_ctx_err w3"
    proof (cases "t = Inr False")
      case True
      with rest have "run (advanceToAI s a b) w3 = (x, es4, w')" by simp
      note a = advance_post [OF ready_sound [OF w3(1)] assms(2) this]
      from conjunct1 [OF a] w3(1) advanced_kept [OF conjunct2 [OF a]] show ?thesis by (simp add: redis_ready_def)
    next
      case False
      with rest w3(1) show ?thesis by simp
    qed
    with w3 st redis_only_fields [OF w1(2)] redis_only_fields [OF w3(2)] show ?thesis
      unfolding recovered_def by (auto simp: w2_def entries_Load_cong [of w1 w] entries_Load_cong [of w3 w2]
          split: option.splits)
  qed
qed

lemma pairKey_inj: "pairKey a b = pairKey c d \<longleftrightarrow> a = c \<and> b = d"
proof -
  have "pairKey a b = pair_text a b" for a b by (simp add: pairKey_def pair_text_def)
  then show ?thesis by simp
qed

abbreviation pair_of :: "PairID \<Rightarrow> pair" where
  "pair_of p \<equiv> (p_ContactID p, p_ConversationID p)"

abbreviation key_of :: "PairID \<Rightarrow> string" where
  "key_of p \<equiv> pairKey (p_ContactID p) (p_ConversationID p)"

text \<open>The pair has the entry of its stored state, on a context issued after the start.\<close>

definition resumed :: "pair_view \<Rightarrow> nat \<Rightarrow> pipelineEntry option \<Rightarrow> bool" where
  "resumed pv n v \<longleftrightarrow> (\<forall>st. pv_state pv = Some st \<longrightarrow> st_Stage st = StageDebounce \<longrightarrow>
     (\<exists>i \<ge> n. v = Some (recoveredEntry [i] st)))"

lemma recover_pairs_step:
  assumes "redis_ready rc v w" "on_redis rc fuel s" "run (recover_pairs s ps) w = (x, es, w')"
  shows "redis_ready rc v w' \<and> w_next_ctx w \<le> w_next_ctx w' \<and> (\<forall>i. w_ctx_err w' i = w_ctx_err w i) \<and>
    (\<forall>k. entries_Load w k \<noteq> None \<longrightarrow> entries_Load w' k = entries_Load w k) \<and>
    (\<forall>p \<in> set ps. entries_Load w (key_of p) = None \<longrightarrow>
       resumed (redis_view v w (pair_of p)) (w_next_ctx w) (entries_Load w' (key_of p)))"
  using assms(1,3)
proof (induction ps arbitrary: w x es)
  case Nil
  then show ?case by simp
next
  case (Cons p ps)
  obtain y es1 w1 es2 where step: "run (recover_pair s p) w = (y, es1, w1)" and
    rest: "run (recover_pairs s ps) w1 = (x, es2, w')"
    using Cons.prems(2) by (auto simp: run_bind split: prod.splits)
  have p: "p = \<lparr> p_ContactID = p_ContactID p, p_ConversationID = p_ConversationID p \<rparr>" by simp
  have 1: "redis_ready rc v w1" "recovered (redis_view v) (p_ContactID p) (p_ConversationID p) w w1"
    using recover_pair_step [OF Cons.prems(1) assms(2), of "p_ContactID p" "p_ConversationID p"] step p by simp_all
  note r = 1(2) [unfolded recovered_def]
  have v1: "redis_view v w1 q = redis_view v w q" if "q \<noteq> pair_of p" for q
    using conjunct1 [OF r] that by blast
  have e1: "entries_Load w1 k = entries_Load w k" if "k \<noteq> key_of p \<or> entries_Load w k \<noteq> None" for k
    using conjunct1 [OF conjunct2 [OF r]] that by blast
  have n1: "w_next_ctx w \<le> w_next_ctx w1" and c1: "\<forall>i. w_ctx_err w1 i = w_ctx_err w i"
    using conjunct2 [OF conjunct2 [OF r]] by blast+
  have new: "resumed (redis_view v w (pair_of p)) (w_next_ctx w) (entries_Load w1 (key_of p))"
    if "entries_Load w (key_of p) = None"
    using conjunct2 [OF conjunct2 [OF conjunct2 [OF conjunct2 [OF r]]]] that unfolding resumed_def by blast
  note 2 = Cons.IH [OF 1(1) rest]
  have n2: "w_next_ctx w1 \<le> w_next_ctx w'" and c2: "\<forall>i. w_ctx_err w' i = w_ctx_err w1 i" and
    e2: "entries_Load w1 k \<noteq> None \<Longrightarrow> entries_Load w' k = entries_Load w1 k" and
    new2: "q \<in> set ps \<Longrightarrow> entries_Load w1 (key_of q) = None \<Longrightarrow>
      resumed (redis_view v w1 (pair_of q)) (w_next_ctx w1) (entries_Load w' (key_of q))" for k q
    using 2 by blast+
  have later: "resumed pv (w_next_ctx w) x" if "resumed pv (w_next_ctx w1) x" for pv x
    using that n1 unfolding resumed_def by (meson order_trans)
  have "resumed (redis_view v w (pair_of q)) (w_next_ctx w) (entries_Load w' (key_of q))"
    if q: "q \<in> set (p # ps)" "entries_Load w (key_of q) = None" for q
  proof (cases "pair_of q = pair_of p")
    case True
    then have qp: "key_of q = key_of p" by simp
    have "resumed (redis_view v w (pair_of p)) (w_next_ctx w) (entries_Load w1 (key_of p))"
      using new q(2) qp by simp
    then show ?thesis
      unfolding True qp resumed_def using e2 by (metis option.distinct(1))
  next
    case False
    then have "key_of q \<noteq> key_of p" by (simp add: pairKey_inj)
    then have "entries_Load w1 (key_of q) = None" using e1 q(2) by simp
    moreover have "q \<in> set ps" using q(1) False by auto
    ultimately show ?thesis using new2 later v1 [OF False] by metis
  qed
  moreover have "w_next_ctx w \<le> w_next_ctx w'" using n1 n2 by linarith
  moreover have "\<forall>i. w_ctx_err w' i = w_ctx_err w i" using c1 c2 by simp
  moreover have "entries_Load w' k = entries_Load w k" if "entries_Load w k \<noteq> None" for k
  proof -
    have "entries_Load w1 k = entries_Load w k" using e1 [of k] that by blast
    then show ?thesis using e2 [of k] that by simp
  qed
  ultimately show ?case using 2 by blast
qed



section \<open>Shutdown\<close>

lemma run_visit_cancel:
  assumes "run (visit_keys (\<lambda>entry _. cancel (en_ctx entry)) ks) w = (x, es, w')"
    and "\<And>k x. entries_Load w k = Some x \<Longrightarrow> en_ctx x \<noteq> []"
  shows "w_entries w' = w_entries w \<and> (\<forall>c. ctx_done w c \<longrightarrow> ctx_done w' c) \<and>
    (\<forall>k \<in> set ks. \<forall>x. entries_Load w k = Some x \<longrightarrow> ctx_done w' (en_ctx x))"
  using assms
proof (induction ks arbitrary: w es)
  case (Cons k ks)
  define w1 where "w1 = (case entries_Load w k of None \<Rightarrow> w | Some x \<Rightarrow> finish_ctx Canceled (en_ctx x) w)"
  have e1: "w_entries w1 = w_entries w" by (simp add: w1_def split: option.split)
  then have l1: "entries_Load w1 j = entries_Load w j" for j by (rule entries_Load_cong)
  obtain es2 where rest: "run (visit_keys (\<lambda>entry _. cancel (en_ctx entry)) ks) w1 = (x, es2, w')"
    using Cons.prems(1)
    by (cases "entries_Load w k")
      (auto simp: w1_def run_bind Runtime.Load_def run_get cancel_def run_Step split: prod.splits)
  have "en_ctx y \<noteq> []" if "entries_Load w1 j = Some y" for j y using Cons.prems(2) that l1 by simp
  note IH = Cons.IH [OF rest this]
  have "ctx_done w1 (en_ctx y)" if "entries_Load w k = Some y" for y
    using that Cons.prems(2) by (simp add: w1_def finish_ctx_done)
  moreover have "ctx_done w1 c" if "ctx_done w c" for c
    using that by (simp add: w1_def finish_ctx_mono split: option.split)
  ultimately show ?case using IH e1 l1 by simp
qed simp

lemma Shutdown_cancels:
  fixes w :: "('r, 'n) world"
  assumes "ctx_ok w" "run (Shutdown c n) w = (r, es, w')"
  shows "w_stop w' \<and> (\<forall>k x. entries_Load w k = Some x \<longrightarrow> ctx_done w' (en_ctx x))"
proof -
  let ?ks = "remdups (map fst (w_entries w))"
  obtain x es1 w1 where visit: "run (visit_keys (\<lambda>entry _. cancel (en_ctx entry)) ?ks) w = (x, es1, w1)"
    by (rule prod_cases3)
  have wait: "run (await_stopped c n) w2 = (q, es3, w3) \<Longrightarrow> w3 = w2" for q es3 and w2 w3 :: "('r, 'n) world"
    by (induction n arbitrary: es3) (auto simp: run_bind run_get split: prod.splits if_splits)
  have w': "w' = w1 \<lparr> w_stop := True \<rparr>"
    using assms(2) visit by (auto simp: Shutdown_def Range_def run_bind run_get run_upd dest: wait split: prod.splits)
  have ne: "\<And>k y. entries_Load w k = Some y \<Longrightarrow> en_ctx y \<noteq> []"
    using ctx_okE [OF assms(1)] by fastforce
  have v: "\<forall>k \<in> set ?ks. \<forall>x. entries_Load w k = Some x \<longrightarrow> ctx_done w1 (en_ctx x)"
    using run_visit_cancel [OF visit] ne by blast
  have "k \<in> set ?ks" if "entries_Load w k = Some y" for k y
    using that by (simp add: entries_Load_def) (metis domI dom_map_of_conv_image_fst)
  then have "ctx_done w1 (en_ctx y)" if "entries_Load w k = Some y" for k y using v that by blast
  then show ?thesis by (simp add: w' ctx_done_iff)
qed

lemma stop_ends_poller:
  assumes "stable (\<lambda>w. w_stop w) I" "w_stop w"
  shows "\<exists>es w' m. exec I (pollDebounceExpiry s (Suc t)) k w = (True, es, w', m) \<and> w_stopped w'"
  using assms by (simp add: exec_simps stable_def)

lemma stopped_ends_wait:
  assumes "stable (\<lambda>w. w_stopped w) I" "w_stopped w"
  shows "\<exists>w' m. exec I (await_stopped c (Suc n)) k w = (Some True, [], w', m)"
  using assms by (simp add: exec_simps stable_def)

text \<open>
  C17 (shutdown_stops). \<open>Shutdown\<close> cancels the context of every entry and closes the stop channel.
  From then on the poller ends at its next tick, whatever interferes, as long as nobody reopens
  a closed channel, and the wait of \<open>Shutdown\<close> ends the next time it looks.
\<close>

theorem shutdown_stops:
  assumes "ctx_ok w" "run (Shutdown c n) w = (r, es, w1)"
    and "stable (\<lambda>w. w_stop w) I" "stable (\<lambda>w. w_stopped w) I"
  shows "(\<forall>k x. entries_Load w k = Some x \<longrightarrow> ctx_done w1 (en_ctx x)) \<and>
    (\<exists>es2 w2 m es3 w3 m'. exec I (pollDebounceExpiry s (Suc t)) j w1 = (True, es2, w2, m) \<and>
       exec I (await_stopped c (Suc n')) m w2 = (Some True, es3, w3, m'))"
proof -
  note 1 = Shutdown_cancels [OF assms(1,2)]
  obtain es2 w2 m where 2: "exec I (pollDebounceExpiry s (Suc t)) j w1 = (True, es2, w2, m)" "w_stopped w2"
    using stop_ends_poller [OF assms(3)] 1 by blast
  with stopped_ends_wait [OF assms(4) 2(2)] 1 show ?thesis by blast
qed

theorem shutdown_stops_witness:
  "\<exists>r es w1 es2 w2 m. run (Shutdown [] 3) due_world = (r, es, w1) \<and> ctx_done w1 [0] \<and>
     exec calm (pollDebounceExpiry demo_service 1) 0 w1 = (True, es2, w2, m)"
proof -
  obtain r es w1 where run: "run (Shutdown [] 3) due_world = (r, es, w1)" by (rule prod_cases3)
  from shutdown_stops [where s = demo_service and t = 0 and j = 0, OF due_world_facts(4) run stable_calm stable_calm] run
  show ?thesis using due_world_facts(5) by (fastforce simp: newEntry_def)
qed

end
