(* ===== verification/Go_Rely.thy ===== *)
theory Go_Rely
  imports Runtime
begin

text \<open>
  Goroutines that share a state: \<open>rg I R p Q s\<close> tells that \<open>p\<close>, started in \<open>s\<close>, keeps the
  invariant \<open>I\<close> and changes the state by \<open>R\<close> only, as long as everybody else does, and ends with
  \<open>Q\<close>. It looks at every single step, so it holds under every interleaving of programs for which
  it holds.
\<close>

section \<open>The judgement\<close>

primrec rg :: "('s \<Rightarrow> bool) \<Rightarrow> ('s \<Rightarrow> 's \<Rightarrow> bool) \<Rightarrow> ('s, 'e, 'a) prog \<Rightarrow> ('a \<Rightarrow> 's \<Rightarrow> bool) \<Rightarrow> 's \<Rightarrow> bool" where
  "rg I R (Done a) = (\<lambda>Q s. Q a s)"
| "rg I R (Step e u k) = (\<lambda>Q s. \<forall>s'. R s s' \<longrightarrow> I s' \<longrightarrow> I (u s') \<and> R s' (u s') \<and> rg I R (k s') Q (u s'))"

abbreviation any_result :: "'a \<Rightarrow> 's \<Rightarrow> bool" where
  "any_result \<equiv> \<lambda>_ _. True"

lemma rg_mono: "rg I R p Q s \<Longrightarrow> (\<And>a s'. Q a s' \<Longrightarrow> Q' a s') \<Longrightarrow> rg I R p Q' s"
  by (induction p arbitrary: s) auto

lemma rg_any: "rg I R p Q s \<Longrightarrow> rg I R p any_result s"
  by (erule rg_mono) simp

text \<open>What the others do in the meantime does not hurt.\<close>

lemma rg_later:
  assumes "rg I R p any_result s" "R s s'" "transp R"
  shows "rg I R p any_result s'"
  using assms by (cases p) (auto dest: transpD)

lemma rg_bind:
  assumes "reflp R" "transp R" "I s" "rg I R p Q s"
    and "\<And>a s'. R s s' \<Longrightarrow> I s' \<Longrightarrow> Q a s' \<Longrightarrow> rg I R (f a) Q' s'"
  shows "rg I R (pbind p f) Q' s"
  using assms(3-)
proof (induction p arbitrary: s)
  case (Done a)
  with assms(1) show ?case by (simp add: reflpD)
next
  case (Step e u k)
  show ?case
  proof (simp, intro allI impI)
    fix s'
    assume s': "R s s'" "I s'"
    with Step.prems(2) have u: "I (u s')" "R s' (u s')" "rg I R (k s') Q (u s')" by auto
    have "R s s''" if "R (u s') s''" for s''
      using transpD [OF assms(2) s'(1) transpD [OF assms(2) u(2) that]] .
    then have "rg I R (pbind (k s') f) Q' (u s')"
      by (intro Step.IH [OF _ u(1,3)] Step.prems(3)) simp_all
    with u show "I (u s') \<and> R s' (u s') \<and> rg I R (pbind (k s') f) Q' (u s')" by simp
  qed
qed

text \<open>The elementary steps.\<close>

lemma rg_get: "reflp R \<Longrightarrow> rg I R (get_state f) (\<lambda>a s'. \<exists>s1. R s s1 \<and> I s1 \<and> a = f s1 \<and> s' = s1) s"
  by (auto simp: get_state_def reflpD)

lemma rg_atomic:
  "(\<And>s'. R s s' \<Longrightarrow> I s' \<Longrightarrow> I (snd (f s')) \<and> R s' (snd (f s')) \<and> Q (fst (f s')) (snd (f s'))) \<Longrightarrow>
    rg I R (atomic es f) Q s"
  by (simp add: atomic_def)

end
