(* ===== verification/Service_System.thy ===== *)
theory Service_System
  imports Service_Lifecycle Go_Rely
begin

text \<open>
  The running process: requests arrive at any time, every goroutine takes its steps whenever the
  scheduler lets it, Redis and the network change, deadlines pass. What holds in every state such
  a run can reach is shown by rely and guarantee over the single steps.
\<close>

section \<open>The invariant\<close>

text \<open>
  What a run is given: the secret, all requests that arrive in it, and the entries the recovery
  left before the first request.
\<close>

record ground =
  g_secret :: string
  g_requests :: "http_in set"
  g_entries :: "string \<Rightarrow> pipelineEntry option"

text \<open>An event that a request with the secret carried, and that is valid.\<close>

definition legit :: "ground \<Rightarrow> MessageEvent \<Rightarrow> bool" where
  "legit G ev \<longleftrightarrow> (\<exists>c \<in> g_requests G. header_get (hi_Headers c) ''X-Bot-Runtime-Secret'' = g_secret G \<and>
     bind_event (hi_Body c) = Some ev \<and> Validate ev = None)"

text \<open>Settings and postback URL that were given for this very pair.\<close>

definition origin :: "ground \<Rightarrow> int64 \<Rightarrow> int64 \<Rightarrow> BotConfig \<Rightarrow> string \<Rightarrow> bool" where
  "origin G a b cfg url \<longleftrightarrow>
     (\<exists>ev. legit G ev \<and> ev_ContactID ev = a \<and> ev_ConversationID ev = b \<and>
        ev_BotConfig ev = cfg \<and> ev_PostbackURL ev = url) \<or>
     (\<exists>x. g_entries G (pairKey a b) = Some x \<and> en_cfg x = cfg \<and> en_postbackURL x = url)"

definition issued :: "('r, 'n) world \<Rightarrow> ctx \<Rightarrow> bool" where
  "issued w c \<longleftrightarrow> (\<forall>i \<in> set c. i < w_next_ctx w)"

fun launch_ok :: "ground \<Rightarrow> ('r, 'n) world \<Rightarrow> goroutine \<Rightarrow> bool" where
  "launch_ok G w (GoAI c a b buffer atts cfg url) \<longleftrightarrow> issued w c \<and> origin G a b cfg url"
| "launch_ok G w (GoDispatch c a b content cfg url) \<longleftrightarrow> issued w c \<and>
     (\<exists>buffer atts. GoAI c a b buffer atts cfg url \<in> set (w_launched w))"
| "launch_ok G w (GoProcess ev) \<longleftrightarrow> legit G ev"
| "launch_ok G w GoPoll \<longleftrightarrow> True"

definition entry_ok :: "ground \<Rightarrow> string \<Rightarrow> pipelineEntry \<Rightarrow> ('r, 'n) world \<Rightarrow> bool" where
  "entry_ok G k x w \<longleftrightarrow> (\<exists>i < w_next_ctx w. en_ctx x = [i]) \<and>
     (\<exists>a b. k = pairKey a b \<and> origin G a b (en_cfg x) (en_postbackURL x))"

definition sys_ok :: "ground \<Rightarrow> ('r, 'n) world \<Rightarrow> bool" where
  "sys_ok G w \<longleftrightarrow> (\<forall>i \<ge> w_next_ctx w. w_ctx_err w i = None) \<and> (w_stopped w \<longrightarrow> w_stop w) \<and>
     (\<forall>k x. entries_Load w k = Some x \<longrightarrow> entry_ok G k x w) \<and>
     (\<forall>g \<in> set (w_launched w). launch_ok G w g)"

text \<open>What nobody undoes.\<close>

definition later :: "('r, 'n) world \<Rightarrow> ('r, 'n) world \<Rightarrow> bool" where
  "later w w' \<longleftrightarrow> w_next_ctx w \<le> w_next_ctx w' \<and> set (w_launched w) \<subseteq> set (w_launched w') \<and>
     (\<forall>i. w_ctx_err w i \<noteq> None \<longrightarrow> w_ctx_err w' i = w_ctx_err w i) \<and>
     (w_stop w \<longrightarrow> w_stop w') \<and> (w_stopped w \<longrightarrow> w_stopped w')"

lemma later_refl [simp]: "later w w" and reflp_later: "reflp later"
  by (simp_all add: later_def reflp_def)

lemma later_trans: "later w w1 \<Longrightarrow> later w1 w2 \<Longrightarrow> later w w2"
  unfolding later_def by (elim conjE, intro conjI) (auto)

lemma transp_later: "transp later"
  by (rule transpI) (rule later_trans)

lemma issued_later: "issued w c \<Longrightarrow> later w w' \<Longrightarrow> issued w' c"
  by (auto simp: issued_def later_def)

lemma entry_ok_later: "entry_ok G k x w \<Longrightarrow> later w w' \<Longrightarrow> entry_ok G k x w'"
  by (auto simp: entry_ok_def later_def)

lemma launch_ok_later: "launch_ok G w g \<Longrightarrow> later w w' \<Longrightarrow> launch_ok G w' g"
  by (cases g) (auto simp: later_def issued_def)

lemma sys_ok_ctx: "sys_ok G w \<Longrightarrow> ctx_ok w"
  by (auto simp: sys_ok_def ctx_ok_def entry_ok_def)

text \<open>A step that keeps contexts, entries, goroutines and the stop channels.\<close>

definition neutral :: "('r, 'n) world \<Rightarrow> ('r, 'n) world \<Rightarrow> bool" where
  "neutral w w' \<longleftrightarrow> w_ctx_err w' = w_ctx_err w \<and> w_next_ctx w' = w_next_ctx w \<and> w_entries w' = w_entries w \<and>
     w_launched w' = w_launched w \<and> w_stop w' = w_stop w \<and> w_stopped w' = w_stopped w"

lemma neutral_later: "neutral w w' \<Longrightarrow> later w w'"
  by (simp add: neutral_def later_def)

lemma sys_okI:
  assumes "sys_ok G w" "later w w'" "\<forall>i \<ge> w_next_ctx w'. w_ctx_err w' i = None" "w_stopped w' \<longrightarrow> w_stop w'"
    and "\<And>k x. entries_Load w' k = Some x \<Longrightarrow> entries_Load w k = Some x \<or> entry_ok G k x w'"
    and "\<And>g. g \<in> set (w_launched w') \<Longrightarrow> g \<in> set (w_launched w) \<or> launch_ok G w' g"
  shows "sys_ok G w'"
  using assms unfolding sys_ok_def by (meson entry_ok_later launch_ok_later)

lemma sys_ok_err: "sys_ok G w \<Longrightarrow> w_next_ctx w \<le> i \<Longrightarrow> w_ctx_err w i = None"
  by (simp add: sys_ok_def)

lemma sys_ok_stop: "sys_ok G w \<Longrightarrow> w_stopped w \<Longrightarrow> w_stop w"
  by (simp add: sys_ok_def)

lemma sys_ok_frame:
  assumes "sys_ok G w" "later w w'" "w_entries w' = w_entries w" "w_launched w' = w_launched w"
    and "\<And>i. w_next_ctx w' \<le> i \<Longrightarrow> w_ctx_err w' i = None" "w_stopped w' \<Longrightarrow> w_stop w'"
  shows "sys_ok G w'"
  by (rule sys_okI [OF assms(1,2)]) (use assms(3-) in \<open>simp_all add: entries_Load_def\<close>)

lemma sys_ok_neutral:
  assumes "sys_ok G w" "neutral w w'"
  shows "sys_ok G w'"
  by (rule sys_ok_frame [OF assms(1) neutral_later [OF assms(2)]])
    (use assms(2) in \<open>simp_all add: neutral_def sys_ok_err [OF assms(1)] sys_ok_stop [OF assms(1)]\<close>)

text \<open>Cancelling a context touches its own point only.\<close>

definition owned :: "('r, 'n) world \<Rightarrow> ctx \<Rightarrow> bool" where
  "owned w c \<longleftrightarrow> c \<noteq> [] \<longrightarrow> hd c < w_next_ctx w"

lemma owned_later: "owned w c \<Longrightarrow> later w w' \<Longrightarrow> owned w' c"
  by (auto simp: owned_def later_def)

lemma sys_ok_finish:
  assumes "sys_ok G w" "owned w c"
  shows "sys_ok G (finish_ctx e c w) \<and> later w (finish_ctx e c w)"
proof -
  have later: "later w (finish_ctx e c w)" by (auto simp: later_def finish_ctx_def ctx_done_iff)
  have "w_ctx_err (finish_ctx e c w) i = None" if "w_next_ctx w \<le> i" for i
    using assms that by (cases c) (auto simp: finish_ctx_def sys_ok_err owned_def)
  then have "sys_ok G (finish_ctx e c w)"
    by (intro sys_ok_frame [OF assms(1) later]) (simp_all add: sys_ok_stop [OF assms(1)])
  with later show ?thesis by simp
qed

lemma sys_ok_next:
  assumes "sys_ok G w"
  shows "sys_ok G (w \<lparr> w_next_ctx := Suc (w_next_ctx w) \<rparr>) \<and> later w (w \<lparr> w_next_ctx := Suc (w_next_ctx w) \<rparr>)"
proof -
  have later: "later w (w \<lparr> w_next_ctx := Suc (w_next_ctx w) \<rparr>)" by (simp add: later_def)
  have "sys_ok G (w \<lparr> w_next_ctx := Suc (w_next_ctx w) \<rparr>)"
    by (rule sys_ok_frame [OF assms later]) (simp_all add: sys_ok_err [OF assms] sys_ok_stop [OF assms])
  with later show ?thesis by simp
qed

lemma sys_ok_put:
  assumes "sys_ok G w" "entry_ok G k x w"
  shows "sys_ok G (entries_put k x w) \<and> later w (entries_put k x w)"
proof -
  have f: "w_stop (entries_put k x w) = w_stop w" "w_stopped (entries_put k x w) = w_stopped w"
    by (simp_all add: entries_put_def)
  then have later: "later w (entries_put k x w)" by (simp add: later_def)
  have "sys_ok G (entries_put k x w)"
    by (rule sys_okI [OF assms(1) later])
      (auto simp: f sys_ok_err [OF assms(1)] sys_ok_stop [OF assms(1)]
        intro: entry_ok_later [OF assms(2) later] split: if_splits)
  with later show ?thesis by simp
qed

lemma sys_ok_drop:
  assumes "sys_ok G w"
  shows "sys_ok G (entries_drop k w) \<and> later w (entries_drop k w)"
proof -
  have f: "w_stop (entries_drop k w) = w_stop w" "w_stopped (entries_drop k w) = w_stopped w"
    by (simp_all add: entries_drop_def)
  then have later: "later w (entries_drop k w)" by (simp add: later_def)
  have "sys_ok G (entries_drop k w)"
    by (rule sys_okI [OF assms later])
      (auto simp: f sys_ok_err [OF assms] sys_ok_stop [OF assms] split: if_splits)
  with later show ?thesis by simp
qed

lemma sys_ok_launch:
  assumes "sys_ok G w" "launch_ok G w g"
  shows "sys_ok G (w \<lparr> w_launched := w_launched w @ [g] \<rparr>) \<and> later w (w \<lparr> w_launched := w_launched w @ [g] \<rparr>)"
proof -
  let ?w = "w \<lparr> w_launched := w_launched w @ [g] \<rparr>"
  have later: "later w ?w" by (auto simp: later_def)
  have "sys_ok G ?w"
    by (rule sys_okI [OF assms(1) later])
      (use launch_ok_later [OF assms(2) later] in \<open>auto simp: sys_ok_err [OF assms(1)] sys_ok_stop [OF assms(1)]\<close>)
  with later show ?thesis by simp
qed

section \<open>The operations\<close>

abbreviation keeps :: "ground \<Rightarrow> ('r, 'n, 'a) go \<Rightarrow> ('a \<Rightarrow> ('r, 'n) world \<Rightarrow> bool) \<Rightarrow> ('r, 'n) world \<Rightarrow> bool" where
  "keeps G \<equiv> rg (sys_ok G) later"

text \<open>Programs that need to know nothing of the state they start in.\<close>

definition obeys :: "ground \<Rightarrow> ('r, 'n, 'a) go \<Rightarrow> bool" where
  "obeys G p \<longleftrightarrow> (\<forall>w. sys_ok G w \<longrightarrow> keeps G p any_result w)"

named_theorems obeying \<open>programs that obey\<close>

lemma keeps_bind:
  assumes "sys_ok G w" "keeps G p Q w"
    and "\<And>a w'. later w w' \<Longrightarrow> sys_ok G w' \<Longrightarrow> Q a w' \<Longrightarrow> keeps G (f a) Q' w'"
  shows "keeps G (pbind p f) Q' w"
  using rg_bind [OF reflp_later transp_later assms] .

lemma obeysD: "obeys G p \<Longrightarrow> sys_ok G w \<Longrightarrow> keeps G p any_result w"
  by (simp add: obeys_def)

lemma obeysI: "(\<And>w. sys_ok G w \<Longrightarrow> keeps G p Q w) \<Longrightarrow> obeys G p"
  by (auto simp: obeys_def intro: rg_any)

lemma obeys_bind [obeying]: "obeys G p \<Longrightarrow> (\<And>a. obeys G (f a)) \<Longrightarrow> obeys G (pbind p f)"
  by (auto simp: obeys_def intro: keeps_bind)

lemma obeys_Done [obeying]: "obeys G (Done a)"
  by (simp add: obeys_def)

lemma obeys_neutral:
  "(\<And>w. neutral w (snd (f w))) \<Longrightarrow> obeys G (atomic es f)"
  by (auto simp: obeys_def atomic_def sys_ok_neutral neutral_later)

lemma obeys_get [obeying]: "obeys G (get_state f)"
  by (auto simp: obeys_def get_state_def)

lemma obeys_emit [obeying]: "obeys G (emit e)"
  by (auto simp: obeys_def emit_def)

lemma neutral_refl [simp]: "neutral w w"
  by (simp add: neutral_def)

lemma obeys_reads [obeying]:
  "obeys G (is_done c)" "obeys G (get_Err c)" "obeys G (Getenv k)" "obeys G (LookupEnv k)" "obeys G Now"
  "obeys G (Sleep c d)"
  by (simp_all add: runtime_defs Getenv_def obeying)

lemma obeys_Int63n [obeying]: "obeys G (Int63n n)"
  unfolding Int63n_def by (rule obeys_neutral) (simp add: neutral_def split: list.split)

lemma obeys_redis [obeying]: "obeys G (redis_op c ctx f)"
  unfolding redis_op_def by (rule obeys_neutral) (simp add: neutral_def split: prod.split)

lemma obeys_round_trip [obeying]: "obeys G (round_trip env c req)"
  unfolding round_trip_def by (rule obeys_neutral) (simp add: neutral_def split: prod.split)

text \<open>Contexts, entries and goroutines: what is stored or launched has to be well formed.\<close>

lemma keeps_WithCancel: "keeps G (WithCancel Background) (\<lambda>c w'. \<exists>i < w_next_ctx w'. c = [i]) w"
  by (simp add: WithCancel_def atomic_def sys_ok_next)

lemma keeps_WithTimeout: "keeps G (WithTimeout c d) (\<lambda>t w'. owned w' t) w"
  unfolding WithTimeout_def Let_def
proof (rule rg_atomic, unfold fst_conv snd_conv)
  fix w' assume w': "later w w'" "sys_ok G w'"
  let ?w1 = "w' \<lparr> w_next_ctx := Suc (w_next_ctx w') \<rparr>" and ?c = "w_next_ctx w' # c"
  have i: "owned ?w1 ?c" by (simp add: owned_def)
  note 1 = sys_ok_next [OF w'(2)]
  note 2 = sys_ok_finish [OF conjunct1 [OF 1] i, of DeadlineExceeded]
  have "owned (finish_ctx DeadlineExceeded ?c ?w1) ?c" using i 2 owned_later by blast
  moreover have "later w' (finish_ctx DeadlineExceeded ?c ?w1)" using 1 2 later_trans by blast
  ultimately show "sys_ok G (if sint d \<le> 0 then finish_ctx DeadlineExceeded ?c ?w1 else ?w1) \<and>
      later w' (if sint d \<le> 0 then finish_ctx DeadlineExceeded ?c ?w1 else ?w1) \<and>
      owned (if sint d \<le> 0 then finish_ctx DeadlineExceeded ?c ?w1 else ?w1) ?c"
    using 1 2 i by simp
qed

lemma keeps_cancel: "owned w c \<Longrightarrow> keeps G (cancel c) any_result w"
  by (simp add: cancel_def sys_ok_finish owned_later)

text \<open>Programs that rely on something that lasts: that a context was issued, that a goroutine was launched.\<close>

definition lasting :: "(('r, 'n) world \<Rightarrow> bool) \<Rightarrow> bool" where
  "lasting P \<longleftrightarrow> (\<forall>w w'. P w \<longrightarrow> later w w' \<longrightarrow> P w')"

definition under :: "ground \<Rightarrow> (('r, 'n) world \<Rightarrow> bool) \<Rightarrow> ('r, 'n, 'a) go \<Rightarrow> bool" where
  "under G P p \<longleftrightarrow> (\<forall>w. sys_ok G w \<longrightarrow> P w \<longrightarrow> keeps G p any_result w)"

lemma underD: "under G P p \<Longrightarrow> sys_ok G w \<Longrightarrow> P w \<Longrightarrow> keeps G p any_result w"
  by (simp add: under_def)

lemma under_obeys: "obeys G p \<Longrightarrow> under G P p"
  by (simp add: under_def obeys_def)

lemma under_bind: "lasting P \<Longrightarrow> under G P p \<Longrightarrow> (\<And>a. under G P (f a)) \<Longrightarrow> under G P (pbind p f)"
  unfolding under_def lasting_def by (blast intro: keeps_bind)

lemma under_timeout:
  fixes p :: "ctx \<Rightarrow> ('r, 'n, 'x) go" and f :: "'x \<Rightarrow> ('r, 'n, 'y) go"
  assumes "lasting P" "\<And>t. obeys G (p t)" "\<And>r. under G P (f r)"
  shows "under G P (pbind (WithTimeout c d) (\<lambda>t. pbind (p t) (\<lambda>r. pbind (cancel t) (\<lambda>_. f r))))"
  unfolding under_def
proof (intro allI impI)
  fix w :: "('r, 'n) world" assume w: "sys_ok G w" "P w"
  show "keeps G (pbind (WithTimeout c d) (\<lambda>t. pbind (p t) (\<lambda>r. pbind (cancel t) (\<lambda>_. f r)))) any_result w"
  proof (rule keeps_bind [OF w(1) keeps_WithTimeout])
    fix t and w1 :: "('r, 'n) world" assume 1: "later w w1" "sys_ok G w1" "owned w1 t"
    show "keeps G (pbind (p t) (\<lambda>r. pbind (cancel t) (\<lambda>_. f r))) any_result w1"
    proof (rule keeps_bind [OF 1(2) obeysD [OF assms(2) 1(2)]])
      fix r and w2 :: "('r, 'n) world" assume 2: "later w1 w2" "sys_ok G w2"
      have "P w2" using assms(1) w(2) later_trans [OF 1(1) 2(1)] by (auto simp: lasting_def)
      then show "keeps G (pbind (cancel t) (\<lambda>_. f r)) any_result w2"
        by (intro keeps_bind [OF 2(2) keeps_cancel [OF owned_later [OF 1(3) 2(1)]]])
          (use assms(1) in \<open>auto intro!: underD [OF assms(3)] simp: lasting_def\<close>)
    qed
  qed
qed

lemma obeys_timeout [obeying]:
  assumes "\<And>t. obeys G (p t)" "\<And>r. obeys G (f r)"
  shows "obeys G (pbind (WithTimeout c d) (\<lambda>t. pbind (p t) (\<lambda>r. pbind (cancel t) (\<lambda>_. f r))))"
  using under_timeout [of "\<lambda>_. True" G p f c d] assms by (simp add: under_def obeys_def lasting_def)

lemma keeps_entries:
  "keeps G (Runtime.Load k) (\<lambda>v w'. \<forall>x. v = Some x \<longrightarrow> entry_ok G k x w') w"
  "keeps G (LoadAndDelete k) (\<lambda>v w'. \<forall>x. v = Some x \<longrightarrow> entry_ok G k x w') w"
  "entry_ok G k x w \<Longrightarrow> keeps G (Store k x) any_result w"
  "obeys G (Delete k)"
proof -
  have loaded: "entry_ok G k x w'" if "sys_ok G w'" "entries_Load w' k = Some x" for x and w' :: "('a, 'b) world"
    using that by (simp add: sys_ok_def)
  show "keeps G (Runtime.Load k) (\<lambda>v w'. \<forall>x. v = Some x \<longrightarrow> entry_ok G k x w') w"
    by (simp add: Runtime.Load_def get_state_def loaded)
  show "keeps G (LoadAndDelete k) (\<lambda>v w'. \<forall>x. v = Some x \<longrightarrow> entry_ok G k x w') w"
    using entry_ok_later sys_ok_drop loaded by (simp add: LoadAndDelete_def atomic_def) blast
  show "keeps G (Store k x) any_result w" if "entry_ok G k x w"
    using entry_ok_later [OF that] by (simp add: Store_def upd_state_def sys_ok_put)
  show "obeys G (Delete k)"
    by (simp add: obeys_def Delete_def upd_state_def sys_ok_drop)
qed

lemma keeps_launch: "launch_ok G w g \<Longrightarrow> keeps G (go_launch g) any_result w"
  by (simp add: go_launch_def sys_ok_launch launch_ok_later)

section \<open>The network programs\<close>

lemma obeys_do_loop [obeying]:
  "obeys G (do_loop env check c fuel via req :: ('r, 'n, go_error + http_response) go)"
proof (induction fuel arbitrary: via req)
  case 0
  then show ?case by (simp add: obeying)
next
  case (Suc fuel)
  show ?case
    unfolding do_loop.simps Let_def
    by (rule obeys_bind [OF obeys_round_trip])
      (simp add: obeys_Done Suc.IH split: sum.split option.split)
qed

lemma obeys_Do [obeying]: "obeys G (Do env check c req)"
  unfolding Do_def by (intro obeying)

lemma obeys_sendPart [obeying]: "obeys G (sendPart env d c u content atts)"
  unfolding sendPart_def
  by (cases "NewRequest env ''POST'' u (post_body content atts)")
    (auto simp: obeying split: sum.split intro!: obeys_bind)

lemma obeys_part_loop [obeying]:
  "obeys G (part_loop env d c cfg u n i parts :: ('r, 'n, go_error option) go)"
proof (induction parts arbitrary: i)
  case Nil
  then show ?case by (simp add: obeying)
next
  case (Cons part parts)
  show ?case
    unfolding part_loop.simps
    by (auto simp: obeying Cons.IH split: option.split intro!: obeys_bind)
qed

lemma obeys_Dispatch [obeying]: "obeys G (Dispatch env d c a b content cfg u)"
  unfolding Dispatch_def Let_def
  by (auto simp: obeying split: option.split prod.split intro!: obeys_bind)

lemma obeys_download [obeying]: "obeys G (downloadAttachment env c client u d limit)"
  unfolding downloadAttachment_def
  by (rule obeys_timeout) (auto simp: obeying split: sum.split intro!: obeys_bind)

lemma obeys_parts_loop [obeying]:
  "obeys G (parts_loop env c hosts d atts remaining parts :: ('r, 'n, JSONRPCPart list) go)"
proof (induction atts arbitrary: remaining parts)
  case Nil
  then show ?case by (simp add: obeying)
next
  case (Cons att atts)
  show ?case
    unfolding parts_loop.simps Let_def
    by (auto simp: obeying Cons.IH split: option.split sum.split prod.split intro!: obeys_bind)
qed

lemma obeys_buildFileParts [obeying]:
  "obeys G (buildFileParts env a c req :: ('r, 'n, JSONRPCPart list) go)"
proof -
  have loop: "obeys G (pbind allowedMediaHosts (\<lambda>hosts. parts_loop env t hosts d atts m ps))" for t d atts m ps
    unfolding allowedMediaHosts_def by (auto simp: obeying intro!: obeys_bind)
  have "obeys G (pbind (WithTimeout c (attachmentsTotalTimeFactor * attachmentTimeout a)) (\<lambda>t.
      pbind (pbind allowedMediaHosts (\<lambda>hosts. parts_loop env t hosts (attachmentTimeout a) (rq_Attachments req)
        maxAttachmentsTotalBytes [])) (\<lambda>parts. pbind (cancel t) (\<lambda>_. Done parts))) ::
      ('r, 'n, JSONRPCPart list) go)"
    by (rule obeys_timeout [OF loop]) (rule obeys_Done)
  then show ?thesis by (simp add: buildFileParts_def Let_def pbind_assoc obeying)
qed

lemma obeys_backoff [obeying]: "obeys G (backoffDelay a n)"
  unfolding backoffDelay_def Let_def by (intro obeying)

lemma obeys_doOnce [obeying]: "obeys G (doOnce env a c url body apiKey)"
  unfolding doOnce_def
  by (rule obeys_timeout) (auto simp: obeying split: sum.split intro!: obeys_bind)

lemma obeys_retry_loop [obeying]:
  "obeys G (retry_loop env a c url body apiKey left n lastErr ::
     ('r, 'n, go_error + NormalizedResponse option) go)"
proof (induction left arbitrary: n lastErr)
  case 0
  then show ?case by (simp add: obeying)
next
  case (Suc left)
  show ?case
    unfolding retry_loop.simps
    by (auto simp: obeying Suc.IH split: sum.split prod.split intro!: obeys_bind)
qed

lemma obeys_Call [obeying]: "obeys G (Call env a c req)"
  unfolding Call_def Let_def
  by (rule obeys_bind [OF obeys_buildFileParts])
    (auto simp: obeying intro!: obeys_timeout)

section \<open>The operations of the service\<close>

text \<open>The service runs on Redis, and its calls of the other services obey.\<close>

definition plain :: "ground \<Rightarrow> ('r, 'n) pipelineService \<Rightarrow> bool" where
  "plain G s \<longleftrightarrow> (\<exists>rc pages. on_redis rc pages s) \<and> (\<forall>c rq. obeys G (ai_Call (ps_aiAdapter s) c rq)) \<and>
     (\<forall>c a b content cfg url. obeys G (dsp_Dispatch (ps_dispatchEng s) c a b content cfg url))"

lemma plain_wired: "plain G (wire_service env rc pages cfg)"
  unfolding plain_def
proof (intro conjI allI exI)
  show "on_redis rc pages (wire_service env rc pages cfg)" by (rule on_redis_wired)
  show "obeys G (ai_Call (ps_aiAdapter (wire_service env rc pages cfg)) c rq)" for c rq
    by (simp add: wire_service_def NewPipelineService_def Let_def adapter_of_def obeys_Call)
  show "obeys G (dsp_Dispatch (ps_dispatchEng (wire_service env rc pages cfg)) c a b content bcfg url)"
    for c a b content bcfg url by (simp add: engine_of_def obeys_Dispatch)
qed

lemma obeys_redis_repo [obeying]:
  "obeys G (SetState rc c a b st)" "obeys G (GetState rc c a b)" "obeys G (ClearState rc c a b)"
  "obeys G (AppendToBuffer rc c a b msg)" "obeys G (Redis_Repository.GetBuffer rc c a b)"
  "obeys G (AppendAttachments rc c a b atts)" "obeys G (Redis_Repository.GetAttachments rc c a b)"
  "obeys G (SetTimer rc c a b ttl)" "obeys G (Redis_Repository.TimerExists rc c a b)"
  "obeys G (AcquireLock rc c a b)" "obeys G (Unlock rc m)" "obeys G (Ping rc c)"
  unfolding SetState_def GetState_def ClearState_def AppendToBuffer_def Redis_Repository.GetBuffer_def Ping_def
    AppendAttachments_def Redis_Repository.GetAttachments_def SetTimer_def Redis_Repository.TimerExists_def
    AcquireLock_def Unlock_def Let_def
  by (auto intro!: obeying split: sum.split option.split)

lemma obeys_debounce [obeying]:
  "obeys G (Debounce_Engine.Start (NewPipelineRepository rc fuel) c a b content atts cfg)"
  "obeys G (Debounce_Engine.Reset (NewPipelineRepository rc fuel) c a b content atts cfg)"
  "obeys G (Debounce_Engine.GetBuffer (NewPipelineRepository rc fuel) c a b)"
  "obeys G (Debounce_Engine.GetAttachments (NewPipelineRepository rc fuel) c a b)"
  unfolding Debounce_Engine.Start_def Reset_def Debounce_Engine.GetBuffer_def Debounce_Engine.GetAttachments_def
    Let_def repo_sel
  by (auto intro!: obeying split: sum.split option.split)

lemma pbind_Done: "pbind p Done = p"
  by (induction p) simp_all

lemma obeys_timeout_last [obeying]:
  "(\<And>t. obeys G (p t)) \<Longrightarrow> obeys G (pbind (WithTimeout c d) (\<lambda>t. pbind (p t) (\<lambda>_. cancel t)))"
  using obeys_timeout [of G p "\<lambda>_. Done ()" c d] by (simp add: pbind_Done obeys_Done)

lemma obeys_clear [obeying]: "plain G s \<Longrightarrow> obeys G (clearStateWithLog s a b)"
  unfolding clearStateWithLog_def cleanupCtx_def plain_def on_redis_def
  by (auto intro!: obeying)

lemma obeys_recover [obeying]: "plain G s \<Longrightarrow> obeys G (recoverPipeline s a b panicked)"
  unfolding recoverPipeline_def by (auto intro!: obeying keeps_entries(4))

lemma entry_issued: "entry_ok G k x w \<Longrightarrow> issued w (en_ctx x)"
  by (auto simp: entry_ok_def issued_def)

lemma entry_owned: "entry_ok G k x w \<Longrightarrow> owned w (en_ctx x)"
  by (auto simp: entry_ok_def owned_def)

lemma obeys_cancelPair [obeying]:
  fixes s :: "('r, 'n) pipelineService"
  shows "obeys G (cancelPair s a b)"
proof (rule obeysI)
  fix w :: "('r, 'n) world" assume w: "sys_ok G w"
  show "keeps G (cancelPair s a b) any_result w"
    unfolding cancelPair_def
    by (rule keeps_bind [OF w keeps_entries(2)])
      (auto intro: keeps_cancel entry_owned split: option.split)
qed

abbreviation has_ctx :: "ctx \<Rightarrow> ('r, 'n) world \<Rightarrow> bool" where
  "has_ctx c \<equiv> \<lambda>w. owned w c"

lemma lasting_owned: "lasting (has_ctx c)"
  by (auto simp: lasting_def owned_later)

lemma under_abandon: "under G (has_ctx c) (abandon c k r)"
  unfolding abandon_def
  by (intro under_bind lasting_owned) (simp_all add: under_def keeps_cancel obeysD obeys_Done keeps_entries(4))

text \<open>The AI stage is launched on the entry of its pair.\<close>

lemma entry_origin: "entry_ok G (pairKey a b) x w \<Longrightarrow> origin G a b (en_cfg x) (en_postbackURL x)"
  by (auto simp: entry_ok_def pairKey_inj)

lemma obeys_launchAI [obeying]:
  fixes s :: "('r, 'n) pipelineService"
  shows "obeys G (launchAIStage s a b buffer atts)"
proof (rule obeysI)
  fix w :: "('r, 'n) world" assume w: "sys_ok G w"
  show "keeps G (launchAIStage s a b buffer atts) any_result w"
    unfolding launchAIStage_def
  proof (rule keeps_bind [OF w keeps_entries(1)])
    fix v and w1 :: "('r, 'n) world" assume "\<forall>x. v = Some x \<longrightarrow> entry_ok G (pairKey a b) x w1"
    then show "keeps G (case v of None \<Rightarrow> Done () | Some entry \<Rightarrow>
        go_launch (GoAI (en_ctx entry) a b buffer atts (en_cfg entry) (en_postbackURL entry))) any_result w1"
      by (auto intro!: keeps_launch simp: entry_origin entry_issued split: option.split)
  qed
qed

text \<open>A pipeline that begins: the entry is that of the event, the rest obeys or abandons.\<close>

lemma entry_ok_new:
  "legit G ev \<Longrightarrow> i < w_next_ctx w \<Longrightarrow>
    entry_ok G (pairKey (ev_ContactID ev) (ev_ConversationID ev)) (newEntry [i] ev) w"
  by (auto simp: entry_ok_def newEntry_def origin_def)

lemma keeps_entered:
  fixes p :: "ctx \<Rightarrow> ('r, 'n, 'a) go"
  assumes "legit G ev" "\<And>c. under G (has_ctx c) (p c)"
  shows "obeys G (pbind (WithCancel Background) (\<lambda>c.
    pbind (Store (pairKey (ev_ContactID ev) (ev_ConversationID ev)) (newEntry c ev)) (\<lambda>_. p c)))"
proof (rule obeysI)
  fix w :: "('r, 'n) world" assume w: "sys_ok G w"
  show "keeps G (pbind (WithCancel Background) (\<lambda>c.
      pbind (Store (pairKey (ev_ContactID ev) (ev_ConversationID ev)) (newEntry c ev)) (\<lambda>_. p c))) any_result w"
  proof (rule keeps_bind [OF w keeps_WithCancel])
    fix c and w1 :: "('r, 'n) world"
    assume 1: "sys_ok G w1" "\<exists>i < w_next_ctx w1. c = [i]"
    then have e: "entry_ok G (pairKey (ev_ContactID ev) (ev_ConversationID ev)) (newEntry c ev) w1" "owned w1 c"
      using entry_ok_new [OF assms(1)] by (auto simp: owned_def)
    show "keeps G (pbind (Store (pairKey (ev_ContactID ev) (ev_ConversationID ev)) (newEntry c ev)) (\<lambda>_. p c))
        any_result w1"
      by (rule keeps_bind [OF 1(1) keeps_entries(3) [OF e(1)]])
        (auto intro: underD [OF assms(2)] owned_later [OF e(2)])
  qed
qed

lemma obeys_begin [obeying]:
  assumes "legit G ev" "plain G s"
  shows "obeys G (begin_pipeline s c ev)"
proof -
  obtain rc pages where s: "ps_repo s = NewPipelineRepository rc pages"
    "ps_debounce s = NewDebounceEngine (NewPipelineRepository rc pages)"
    using assms(2) by (auto simp: plain_def on_redis_def)
  have "obeys G (startDebounce s c ev)"
    unfolding startDebounce_def Let_def s
    by (intro keeps_entered [OF assms(1)])
      (auto intro!: under_bind [OF lasting_owned] under_abandon split: option.split, auto intro!: under_obeys simp: obeying)
  moreover have "obeys G (skipDebounce s c ev)"
    unfolding skipDebounce_def Let_def s
    by (intro keeps_entered [OF assms(1)])
      (auto intro!: under_bind [OF lasting_owned] under_abandon split: option.split sum.split,
        auto intro!: under_obeys simp: obeying)
  ultimately show ?thesis by (simp add: begin_pipeline_def)
qed

lemma obeys_Process:
  assumes "legit G ev" "plain G s"
  shows "obeys G (Process s c ev)"
proof -
  obtain rc pages where s: "ps_repo s = NewPipelineRepository rc pages"
    "ps_debounce s = NewDebounceEngine (NewPipelineRepository rc pages)"
    using assms(2) by (auto simp: plain_def on_redis_def)
  have "obeys G (process_state s c ev st)" for st
    unfolding process_state_def Let_def resetDebounce_def s
    by (auto intro!: obeys_bind simp: obeying assms split: option.split)
  then show ?thesis
    unfolding Process_def s by (auto intro!: obeys_bind simp: obeying split: sum.split)
qed

lemma obeys_advance [obeying]:
  assumes "plain G s"
  shows "obeys G (advanceToAI s a b)"
proof -
  obtain rc pages where s: "ps_repo s = NewPipelineRepository rc pages"
    "ps_debounce s = NewDebounceEngine (NewPipelineRepository rc pages)"
    using assms by (auto simp: plain_def on_redis_def)
  show ?thesis
    unfolding advanceToAI_def advance_locked_def Let_def s
    by (auto intro!: obeys_bind simp: obeying split: sum.split)
qed

text \<open>The AI stage may launch the dispatch of its own turn.\<close>

definition turn_of :: "ctx \<Rightarrow> int64 \<Rightarrow> int64 \<Rightarrow> BotConfig \<Rightarrow> string \<Rightarrow> ('r, 'n) world \<Rightarrow> bool" where
  "turn_of c a b cfg url w \<longleftrightarrow> issued w c \<and> (\<exists>buffer atts. GoAI c a b buffer atts cfg url \<in> set (w_launched w))"

lemma lasting_turn: "lasting (turn_of c a b cfg url)"
  unfolding lasting_def turn_of_def by (auto simp: issued_later) (auto simp: later_def)

lemma under_launchDispatch: "under G (turn_of c a b cfg url) (launchDispatchStage s c a b resp cfg url)"
  unfolding launchDispatchStage_def
  by (auto intro!: under_bind [OF lasting_turn] split: option.split)
    (auto simp: under_def turn_of_def intro!: keeps_launch, blast)

lemma under_ai_succeeded:
  assumes "plain G s"
  shows "under G (turn_of c a b cfg url) (ai_succeeded s c a b cfg url resp)"
proof -
  obtain rc pages where s: "ps_repo s = NewPipelineRepository rc pages"
    using assms by (auto simp: plain_def on_redis_def)
  have rest: "under G (turn_of c a b cfg url) (if e \<noteq> None then pbind (clearStateWithLog s a b) (\<lambda>_. Done False)
      else launchDispatchStage s c a b resp cfg url)" for e :: "go_error option"
    by (auto intro!: under_obeys obeys_bind simp: under_launchDispatch obeying assms)
  show ?thesis
    unfolding ai_succeeded_def cleanupCtx_def s repo_sel
    by (rule under_bind [OF lasting_turn under_obeys])
      (rule obeying, rule under_timeout [OF lasting_turn _ rest], rule obeying)
qed

lemma obeys_ai_failed [obeying]:
  assumes "plain G s"
  shows "obeys G (ai_failed s a b cfg url err)"
proof -
  have "obeys G (pbind noticeCtx (\<lambda>c. pbind (dsp_Dispatch (ps_dispatchEng s) c a b notice cfg url) (\<lambda>_.
      pbind (recoverPipeline s a b False) (\<lambda>_. cancel c))))" for notice
    unfolding noticeCtx_def
    using obeys_timeout_last [of G "\<lambda>c. pbind (dsp_Dispatch (ps_dispatchEng s) c a b notice cfg url) (\<lambda>_.
      recoverPipeline s a b False)"] assms
    by (simp add: pbind_assoc obeys_bind obeys_recover plain_def)
  then have "obeys G (sendAIFailureNotice s a b cfg url err)"
    unfolding sendAIFailureNotice_def Let_def by (auto intro!: obeys_bind simp: obeying split: option.split)
  then show ?thesis
    unfolding ai_failed_def by (auto intro!: obeys_bind simp: obeying assms)
qed

lemma under_runAIStage:
  assumes "plain G s"
  shows "under G (turn_of c a b cfg url) (runAIStage s c a b buffer atts cfg url)"
proof -
  have "obeys G (ai_Call (ps_aiAdapter s) c rq)" for rq using assms by (simp add: plain_def)
  then show ?thesis
    unfolding runAIStage_def
    by (auto intro!: under_bind [OF lasting_turn] under_ai_succeeded [OF assms] split: sum.split)
      (auto intro!: under_obeys simp: obeying assms obeysI [OF keeps_entries(1)])
qed

lemma obeys_runDispatchStage:
  assumes "plain G s"
  shows "obeys G (runDispatchStage s c a b content cfg url)"
proof -
  obtain rc pages where s: "ps_repo s = NewPipelineRepository rc pages"
    using assms by (auto simp: plain_def on_redis_def)
  have "obeys G (dsp_Dispatch (ps_dispatchEng s) c a b content cfg url)" using assms by (simp add: plain_def)
  moreover have "obeys G (pbind cleanupCtx (\<lambda>doneCtx. pbind (SetState rc doneCtx a b st) (\<lambda>_.
      pbind (cancel doneCtx) (\<lambda>_. pbind (clearStateWithLog s a b) (\<lambda>_. pbind (Delete (pairKey a b)) (\<lambda>_. Done False))))))" for st
    unfolding cleanupCtx_def
    by (rule obeys_timeout) (auto intro!: obeys_bind simp: obeying assms keeps_entries(4))
  ultimately show ?thesis
    unfolding runDispatchStage_def s repo_sel
    by (auto intro!: obeys_bind simp: obeying assms split: option.split)
qed

section \<open>Poller, shutdown, requests\<close>

lemma obeys_visit:
  fixes f :: "pipelineEntry \<Rightarrow> string \<Rightarrow> ('r, 'n, unit) go"
  assumes "\<And>x k. under G (entry_ok G k x) (f x k)"
  shows "obeys G (visit_keys f ks)"
proof (induction ks)
  case Nil
  then show ?case by (simp add: obeys_Done)
next
  case (Cons k ks)
  show ?case
  proof (rule obeysI)
    fix w :: "('r, 'n) world" assume w: "sys_ok G w"
    show "keeps G (visit_keys f (k # ks)) any_result w"
      unfolding visit_keys.simps
    proof (rule keeps_bind [OF w keeps_entries(1)])
      fix v and w1 :: "('r, 'n) world"
      assume 1: "sys_ok G w1" "\<forall>x. v = Some x \<longrightarrow> entry_ok G k x w1"
      then have "keeps G (case v of None \<Rightarrow> Done () | Some entry \<Rightarrow> f entry k) any_result w1"
        by (auto intro: underD [OF assms] split: option.split)
      then show "keeps G (pbind (case v of None \<Rightarrow> Done () | Some entry \<Rightarrow> f entry k) (\<lambda>_. visit_keys f ks))
          any_result w1"
        by (rule keeps_bind [OF 1(1)]) (rule obeysD [OF Cons.IH])
    qed
  qed
qed

lemma obeys_Range [obeying]: "(\<And>x k. under G (entry_ok G k x) (f x k)) \<Longrightarrow> obeys G (Range f)"
  unfolding Range_def by (intro obeys_bind obeys_get obeys_visit)

lemma obeys_poll_entry:
  assumes "plain G s"
  shows "obeys G (poll_entry s x k)"
proof -
  obtain rc pages where s: "ps_repo s = NewPipelineRepository rc pages"
    using assms by (auto simp: plain_def on_redis_def)
  show ?thesis
    unfolding poll_entry_def s repo_sel by (auto intro!: obeys_bind simp: obeying assms split: prod.split)
qed

lemma sys_ok_channel:
  assumes "sys_ok G w"
  shows "sys_ok G (w \<lparr> w_stop := True \<rparr>) \<and> later w (w \<lparr> w_stop := True \<rparr>)"
    "w_stop w \<Longrightarrow> sys_ok G (w \<lparr> w_stopped := True \<rparr>) \<and> later w (w \<lparr> w_stopped := True \<rparr>)"
proof -
  have later: "later w (w \<lparr> w_stop := True \<rparr>)" "later w (w \<lparr> w_stopped := True \<rparr>)" by (simp_all add: later_def)
  show "sys_ok G (w \<lparr> w_stop := True \<rparr>) \<and> later w (w \<lparr> w_stop := True \<rparr>)"
    using later by (auto intro!: sys_ok_frame [OF assms] simp: sys_ok_err [OF assms])
  show "w_stop w \<Longrightarrow> sys_ok G (w \<lparr> w_stopped := True \<rparr>) \<and> later w (w \<lparr> w_stopped := True \<rparr>)"
    using later by (auto intro!: sys_ok_frame [OF assms] simp: sys_ok_err [OF assms])
qed

lemma obeys_poller:
  fixes s :: "('r, 'n) pipelineService"
  assumes "plain G s"
  shows "obeys G (pollDebounceExpiry s n)"
proof (induction n)
  case 0
  then show ?case by (simp add: obeys_Done)
next
  case (Suc n)
  let ?tick = "\<lambda>stop. if stop then pbind (upd_state (\<lambda>w. w \<lparr> w_stopped := True \<rparr>)) (\<lambda>_. Done True)
     else pbind (Range (poll_entry s)) (\<lambda>_. pollDebounceExpiry s n)"
  have "obeys G (pbind (get_state w_stop) ?tick)"
  proof (rule obeysI)
    fix w :: "('r, 'n) world" assume w: "sys_ok G w"
    show "keeps G (pbind (get_state w_stop) ?tick) any_result w"
    proof (rule keeps_bind [OF w rg_get [OF reflp_later]])
      fix stop and w1 :: "('r, 'n) world"
      assume 1: "sys_ok G w1" "\<exists>s1. later w s1 \<and> sys_ok G s1 \<and> stop = w_stop s1 \<and> w1 = s1"
      have "keeps G (pbind (upd_state (\<lambda>w. w \<lparr> w_stopped := True \<rparr>)) (\<lambda>_. Done True)) any_result w1" if "w_stop w1"
        using that by (simp add: upd_state_def later_def [of w1] sys_ok_channel)
      moreover have "obeys G (Range (poll_entry s))"
        by (intro obeys_Range under_obeys obeys_poll_entry assms)
      then have "obeys G (pbind (Range (poll_entry s)) (\<lambda>_. pollDebounceExpiry s n))"
        by (rule obeys_bind) (rule Suc.IH)
      ultimately show "keeps G (?tick stop) any_result w1" using 1 by (auto intro: obeysD)
    qed
  qed
  then show ?case by (simp add: obeys_bind obeys_emit)
qed

lemma obeys_await [obeying]: "obeys G (await_stopped c n)"
  by (induction n) (auto intro!: obeys_bind simp: obeying)

lemma obeys_Shutdown [obeying]: "obeys G (Shutdown c n)"
proof -
  have "under G (entry_ok G k x) (cancel (en_ctx x))" for x k
    by (simp add: under_def keeps_cancel entry_owned)
  moreover have "obeys G (upd_state (\<lambda>w. w \<lparr> w_stop := True \<rparr>))"
    by (simp add: obeys_def upd_state_def sys_ok_channel)
  ultimately show ?thesis
    unfolding Shutdown_def by (intro obeys_bind obeys_Range obeys_await)
qed

lemma obeys_stop: "obeys G (stop (\<lambda>_. Done None) n)"
  unfolding stop_def pbind.simps by (rule obeys_timeout) (auto simp: obeying)

text \<open>A request of the run.\<close>

lemma obeys_request:
  fixes h :: "('r, 'n) Handler"
  assumes "c \<in> g_requests G" "h_repo h = NewPipelineRepository rc pages" "h_secret h = g_secret G"
    and "RegisterRoutes h m p = Some route"
  shows "obeys G (route (c \<lparr> hi_ctx := q \<rparr>))"
proof -
  have launch: "obeys G (go_launch (GoProcess ev) :: ('r, 'n, unit) go)" if "legit G ev" for ev
    using that by (auto intro!: obeysI keeps_launch)
  have post: "obeys G (SecretMiddleware (h_secret h) (handleEvent h) (c \<lparr> hi_ctx := q \<rparr>))"
    unfolding SecretMiddleware_def handleEvent_def respond_def assms(2) repo_sel
    using assms(1,3)
    by (auto intro!: obeys_bind launch simp: obeying legit_def split: option.split, blast)
  have health: "obeys G (handleHealth h (c \<lparr> hi_ctx := q \<rparr>))"
    unfolding handleHealth_def respond_def assms(2) repo_sel by (auto intro!: obeys_bind simp: obeying)
  show ?thesis
    using assms(4) post health unfolding RegisterRoutes_def by (auto split: if_splits)
qed

section \<open>The running process\<close>

text \<open>
  A state of the process: the shared state and what is left of every goroutine. The server is
  up, and the poller runs; then anything of the following happens in any order: a goroutine takes
  a step, and what it launches joins; a request arrives, with a context of its own; a deadline
  passes or a client hangs up; Redis, the network and the clock move; the process is told to stop.
\<close>

type_synonym ('r, 'n) system = "('r, 'n) world \<times> ('r, 'n, unit) go list"

inductive reachable ::
  "('r, 'n) Handler \<Rightarrow> ('r, 'n) pipelineService \<Rightarrow> nat \<Rightarrow> ground \<Rightarrow> ('r, 'n) world \<Rightarrow> ('r, 'n) system \<Rightarrow> bool"
  for h s ticks G w0 where
  up: "reachable h s ticks G w0 (w0, [goroutine_body h s ticks GoPoll])"
| step: "reachable h s ticks G w0 (w, ts) \<Longrightarrow> i < length ts \<Longrightarrow> ts ! i = Step e u k \<Longrightarrow>
    reachable h s ticks G w0 (u w, ts[i := k w] @
      map (goroutine_body h s ticks) (drop (length (w_launched w)) (w_launched (u w))))"
| request: "reachable h s ticks G w0 (w, ts) \<Longrightarrow> c \<in> g_requests G \<Longrightarrow>
    RegisterRoutes h (hi_Method c) (hi_Path c) = Some route \<Longrightarrow>
    reachable h s ticks G w0
      (w \<lparr> w_next_ctx := Suc (w_next_ctx w) \<rparr>, ts @ [route (c \<lparr> hi_ctx := [w_next_ctx w] \<rparr>)])"
| deadline: "reachable h s ticks G w0 (w, ts) \<Longrightarrow> i < w_next_ctx w \<Longrightarrow>
    reachable h s ticks G w0 (finish_ctx DeadlineExceeded [i] w, ts)"
| outside: "reachable h s ticks G w0 (w, ts) \<Longrightarrow>
    reachable h s ticks G w0 (w \<lparr> w_redis := r, w_net := n, w_now := now \<rparr>, ts)"
| signal: "reachable h s ticks G w0 (w, ts) \<Longrightarrow>
    reachable h s ticks G w0 (w, ts @ [pbind (stop (\<lambda>_. Done None) fuel) (\<lambda>_. Done ())])"

inductive_cases reachableE: "reachable h s ticks G w0 (w, ts)"

text \<open>Every goroutine that was launched obeys from then on.\<close>

lemma goroutine_keeps:
  assumes "plain G s" "h_svc h = service_iface s" "sys_ok G w" "g \<in> set (w_launched w)"
  shows "keeps G (goroutine_body h s ticks g) any_result w"
proof -
  have ok: "launch_ok G w g" using assms(3,4) by (simp add: sys_ok_def)
  show ?thesis
  proof (cases g)
    case (GoAI c a b buffer atts cfg url)
    with ok assms(4) have "turn_of c a b cfg url w" by (auto simp: turn_of_def)
    with GoAI show ?thesis using underD [OF under_runAIStage [OF assms(1)] assms(3)] by simp
  next
    case (GoDispatch c a b content cfg url)
    then show ?thesis using obeysD [OF obeys_runDispatchStage [OF assms(1)] assms(3)] by simp
  next
    case (GoProcess ev)
    with ok have "obeys G (Process s Background ev)" by (intro obeys_Process assms(1)) simp
    then have "obeys G (runProcess h ev)"
      by (simp add: runProcess_def assms(2) service_iface_def obeys_bind obeys_Done)
    with GoProcess show ?thesis using obeysD [OF _ assms(3)] by simp
  next
    case GoPoll
    have "obeys G (pbind (pollDebounceExpiry s ticks) (\<lambda>_. Done ()))"
      by (intro obeys_bind obeys_poller assms(1) obeys_Done)
    with GoPoll show ?thesis using obeysD [OF _ assms(3)] by simp
  qed
qed

lemma keeps_later: "keeps G p any_result w \<Longrightarrow> later w w' \<Longrightarrow> keeps G p any_result w'"
  by (rule rg_later [OF _ _ transp_later])

lemma reachable_ok:
  assumes "reachable h s ticks G w0 (w, ts)" "sys_ok G w0" "plain G s" "h_svc h = service_iface s"
    and "h_repo h = NewPipelineRepository rc pages" "h_secret h = g_secret G"
  shows "sys_ok G w \<and> (\<forall>p \<in> set ts. keeps G p any_result w)"
  using assms(1)
proof (induction "(w, ts)" arbitrary: w ts rule: reachable.induct)
  case up
  have "obeys G (goroutine_body h s ticks GoPoll)"
    by (simp add: obeys_bind obeys_poller [OF assms(3)] obeys_Done)
  with assms(2) show ?case by (simp add: obeysD)
next
  case (step w ts i e u k)
  have ok: "sys_ok G w" using step.hyps(2) by blast
  have "ts ! i \<in> set ts" using step.hyps(3) by (rule nth_mem)
  then have "keeps G (Step e u k) any_result w" using step.hyps(2) unfolding step.hyps(4) by blast
  with ok have u: "sys_ok G (u w)" "later w (u w)" "keeps G (k w) any_result (u w)" by auto
  have old: "keeps G p any_result (u w)" if "p \<in> set ts" for p
    using step.hyps(2) that by (auto intro: keeps_later [OF _ u(2)])
  have new: "keeps G (goroutine_body h s ticks g) any_result (u w)"
    if "g \<in> set (drop (length (w_launched w)) (w_launched (u w)))" for g
    using goroutine_keeps [OF assms(3,4) u(1) in_set_dropD [OF that]] .
  have "set (ts[i := k w]) \<subseteq> insert (k w) (set ts)" by (rule set_update_subset_insert)
  with u old new show ?case by auto
next
  case (request w ts c route)
  note next_ctx = sys_ok_next [OF conjunct1 [OF request.hyps(2)]]
  have "obeys G (route (c \<lparr> hi_ctx := [w_next_ctx w] \<rparr>))"
    by (rule obeys_request [OF request.hyps(3) assms(5,6) request.hyps(4)])
  with next_ctx request.hyps(2) show ?case by (auto intro: keeps_later obeysD)
next
  case (deadline w ts i)
  then have "sys_ok G w" "owned w [i]" by (simp_all add: owned_def)
  from sys_ok_finish [OF this] deadline.hyps(2) show ?case by (auto intro: keeps_later)
next
  case (outside w ts now n r)
  have "neutral w (w \<lparr> w_redis := r, w_net := n, w_now := now \<rparr>)" by (simp add: neutral_def)
  with sys_ok_neutral [OF _ this] neutral_later [OF this] outside.hyps(2) show ?case
    by (auto intro: keeps_later)
next
  case (signal w ts fuel)
  have "obeys G (pbind (stop (\<lambda>_. Done None) fuel) (\<lambda>_. Done ()))"
    by (intro obeys_bind obeys_stop obeys_Done)
  with signal.hyps(2) show ?case by (auto intro: obeysD)
qed


text \<open>The states a run may begin with: the recovery is over, nothing else was launched.\<close>

definition fresh_start :: "ground \<Rightarrow> ('r, 'n) world \<Rightarrow> bool" where
  "fresh_start G w \<longleftrightarrow> ctx_ok w \<and> set (w_launched w) \<subseteq> {GoPoll} \<and> \<not> w_stopped w \<and>
     (\<forall>k x. entries_Load w k = Some x \<longrightarrow> g_entries G k = Some x \<and> (\<exists>a b. k = pairKey a b))"

lemma fresh_start_ok:
  assumes "fresh_start G w"
  shows "sys_ok G w"
proof -
  have "entry_ok G k x w" if x: "entries_Load w k = Some x" for k x
  proof -
    obtain a b where "k = pairKey a b" "g_entries G k = Some x"
      using assms x unfolding fresh_start_def by blast
    moreover obtain i where "i < w_next_ctx w" "en_ctx x = [i]"
      using assms x ctx_okE unfolding fresh_start_def by blast
    ultimately show ?thesis by (auto simp: entry_ok_def origin_def)
  qed
  moreover have "launch_ok G w g" if "g \<in> set (w_launched w)" for g
    using assms that by (auto simp: fresh_start_def)
  ultimately show ?thesis using assms by (simp add: sys_ok_def fresh_start_def ctx_ok_def)
qed

text \<open>
  C4 (replies_stay_in_conversation). In every state the running process can reach, whatever the
  order in which requests come, goroutines take their steps, deadlines pass, Redis and the network
  change: an event is processed only if a request with the secret carried it and it is valid; a
  turn of a pair asks the bot with settings, and answers at a postback URL, that such an event of
  this very pair gave (or that the recovery found for it); and a reply is sent only for a turn that
  was started for the same contact, conversation, settings and postback URL. The contexts of the
  entries stay well formed, and the poller has ended only after it was told to.
\<close>

theorem replies_stay_in_conversation:
  assumes "reachable (wire_handler env rc pages cfg) (wire_service env rc pages cfg) ticks G w0 (w, ts)"
    and "fresh_start G w0" "g_secret G = BotRuntimeSecret cfg"
  shows "(\<forall>ev. GoProcess ev \<in> set (w_launched w) \<longrightarrow> legit G ev) \<and>
    (\<forall>c a b buffer atts bcfg url. GoAI c a b buffer atts bcfg url \<in> set (w_launched w) \<longrightarrow>
       origin G a b bcfg url) \<and>
    (\<forall>c a b content bcfg url. GoDispatch c a b content bcfg url \<in> set (w_launched w) \<longrightarrow>
       origin G a b bcfg url \<and> (\<exists>buffer atts. GoAI c a b buffer atts bcfg url \<in> set (w_launched w))) \<and>
    ctx_ok w \<and> (w_stopped w \<longrightarrow> w_stop w)"
proof -
  have sys: "sys_ok G w"
    using reachable_ok [OF assms(1) fresh_start_ok [OF assms(2)] plain_wired] assms(3) by simp
  have ok: "launch_ok G w g" if "g \<in> set (w_launched w)" for g
    using sys that by (simp add: sys_ok_def)
  have event: "legit G ev" if "GoProcess ev \<in> set (w_launched w)" for ev
    using ok [OF that] by simp
  have turn: "origin G a b bcfg url" if "GoAI c a b buffer atts bcfg url \<in> set (w_launched w)"
    for c a b buffer atts bcfg url
    using ok [OF that] by simp
  have reply: "origin G a b bcfg url \<and> (\<exists>buffer atts. GoAI c a b buffer atts bcfg url \<in> set (w_launched w))"
    if "GoDispatch c a b content bcfg url \<in> set (w_launched w)" for c a b content bcfg url
    using ok [OF that] turn by auto
  show ?thesis
    using event turn reply sys_ok_ctx [OF sys] sys_ok_stop [OF sys] by (intro conjI allI impI) simp_all
qed

text \<open>A goroutine may also run to its end.\<close>

lemma reachable_run:
  fixes w w' :: "('r, 'n) world"
  assumes "reachable h s ticks G w0 (w, ts)" "i < length ts" "run (ts ! i) w = ((), es, w')"
  shows "\<exists>ts'. reachable h s ticks G w0 (w', ts')"
  using assms
proof (induction "ts ! i" arbitrary: ts w es)
  case (Done a)
  then have "w' = w" by (metis run_Done prod.inject)
  with Done.prems(1) show ?case by blast
next
  case (Step e u k)
  let ?ts = "ts[i := k w] @ map (goroutine_body h s ticks) (drop (length (w_launched w)) (w_launched (u w)))"
  have at_i: "?ts ! i = k w" using Step.prems(2) by (simp add: nth_append)
  obtain es1 where "run (k w) (u w) = ((), es1, w')"
    using Step.prems(3) unfolding Step.hyps(2) [symmetric] by (auto simp: run_Step split: prod.splits)
  then have "run (?ts ! i) (u w) = ((), es1, w')" by (simp add: at_i)
  moreover have "reachable h s ticks G w0 (u w, ?ts)"
    by (rule reachable.step [OF Step.prems(1,2) Step.hyps(2) [symmetric]])
  moreover have "i < length ?ts" using Step.prems(2) by simp
  moreover have "?ts ! i \<in> range k" by (simp add: at_i)
  ultimately show ?case using Step.hyps(1) by blast
qed

text \<open>A request with the secret \<open>''s''\<close>, and the run in which it arrives.\<close>

definition demo_request :: http_in where
  "demo_request = \<lparr> hi_Method = ''POST'', hi_Path = ''/events'', hi_Headers = [(''X-Bot-Runtime-Secret'', ''s'')],
     hi_Body = json_text (JObj [(''contact_id'', JNum 7 0), (''conversation_id'', JNum 9 0),
       (''postback_url'', JStr ''https://crm/'')]), hi_ctx = [] \<rparr>"

definition sent_event :: MessageEvent where
  "sent_event = \<lparr> ev_AgentBotID = [], ev_ConversationID = 9, ev_ContactID = 7, ev_MessageID = [],
     ev_MessageContent = [], ev_Attachments = [], ev_ApiKey = [], ev_OutgoingURL = [],
     ev_BotConfig = zeroConfig, ev_PostbackURL = ''https://crm/'', ev_Metadata = None \<rparr>"

lemma demo_request_event: "bind_event (hi_Body demo_request) = Some sent_event" "Validate sent_event = None"
proof -
  have "json_decode_first (hi_Body demo_request @ []) = Some (jnorm (JObj [(''contact_id'', JNum 7 0),
      (''conversation_id'', JNum 9 0), (''postback_url'', JStr ''https://crm/'')]))"
    unfolding demo_request_def http_in.select_convs by (rule json_decode_first_text) (simp add: delim_def)
  then show "bind_event (hi_Body demo_request) = Some sent_event"
    by (simp add: bind_event_def sent_event_def codec_simps coerce_ascii norm_num_int)
  show "Validate sent_event = None"
    by (simp add: Validate_def sent_event_def zeroConfig_def float_val_def)
qed

text \<open>What becomes of a good request.\<close>

lemma request_runs:
  assumes "redis_ready rc v w" "\<not> ctx_done w (hi_ctx c)" "h_repo h = NewPipelineRepository rc pages"
    and "header_get (hi_Headers c) ''X-Bot-Runtime-Secret'' = secret"
    and "bind_event (hi_Body c) = Some ev" "Validate ev = None"
  shows "\<exists>es w'. run (SecretMiddleware secret (handleEvent h) c) w
      = ((), es @ [EvGo (GoProcess ev), EvRespond 202 [(''status'', ''accepted'')]], w') \<and>
    w_launched w' = w_launched w @ [GoProcess ev]"
proof -
  obtain es w1 where 1: "run (SetState rc (hi_ctx c) (ev_ContactID ev) (ev_ConversationID ev)
      (stageState StageIncoming (w_now w))) w = (None, es, w1)" "redis_only w w1"
    using SetState_runs [OF assms(1,2)] by blast
  have "w_launched w1 = w_launched w" using redis_only_fields [OF 1(2)] by simp
  then show ?thesis
    using 1(1) assms(3-) by (simp add: SecretMiddleware_def handleEvent_def go_exec runtime_defs respond_def)
qed

theorem replies_stay_in_conversation_witness:
  "\<exists>w ts. reachable (wire_handler busy_once mem_client 5 demo_config) demo_service 3
      \<lparr> g_secret = ''s'', g_requests = {demo_request}, g_entries = Map.empty \<rparr> demo_world (w, ts) \<and>
     GoProcess sent_event \<in> set (w_launched w) \<and> legit \<lparr> g_secret = ''s'', g_requests = {demo_request},
       g_entries = Map.empty \<rparr> sent_event \<and> ctx_ok w"
proof -
  let ?h = "wire_handler busy_once mem_client 5 demo_config"
  let ?G = "\<lparr> g_secret = ''s'', g_requests = {demo_request}, g_entries = Map.empty \<rparr>"
  let ?route = "SecretMiddleware ''s'' (handleEvent ?h)"
  let ?w1 = "demo_world \<lparr> w_next_ctx := Suc (w_next_ctx demo_world) \<rparr>"
  let ?c = "demo_request \<lparr> hi_ctx := [w_next_ctx demo_world] \<rparr>"
  have start: "fresh_start ?G demo_world"
    by (simp add: fresh_start_def ctx_ok_def boot_world_def entries_Load_def)
  have "RegisterRoutes ?h (hi_Method demo_request) (hi_Path demo_request) = Some ?route"
    by (simp add: RegisterRoutes_def demo_request_def demo_config_def)
  then have 1: "reachable ?h demo_service 3 ?G demo_world (?w1, [goroutine_body ?h demo_service 3 GoPoll] @ [?route ?c])"
    by (intro reachable.request [OF reachable.up]) simp_all
  have "redis_ready mem_client mem_view ?w1" using ready_frame [of ?w1 demo_world] by simp
  moreover have "\<not> ctx_done ?w1 (hi_ctx ?c)" by (simp add: ctx_done_iff boot_world_def)
  moreover have "header_get (hi_Headers ?c) ''X-Bot-Runtime-Secret'' = ''s''"
    by (simp add: demo_request_def header_get_def)
  moreover have "bind_event (hi_Body ?c) = Some sent_event" using demo_request_event by simp
  ultimately obtain es w2 where 2: "run (?route ?c) ?w1 = ((), es, w2)" "w_launched w2 = [GoProcess sent_event]"
    using request_runs [of mem_client mem_view ?w1 ?c ?h 5 "''s''" sent_event] demo_request_event(2) by auto
  then obtain ts where 3: "reachable ?h demo_service 3 ?G demo_world (w2, ts)"
    using reachable_run [OF 1, of 1] by auto
  with replies_stay_in_conversation [of busy_once mem_client 5 demo_config 3 ?G demo_world w2 ts] start 2(2)
  have "legit ?G sent_event \<and> ctx_ok w2" by (simp add: demo_service_def demo_config_def)
  with 2(2) 3 show ?thesis by (intro exI [of _ w2] exI [of _ ts]) simp
qed


section \<open>What the entries hold\<close>

lemma Validate_None:
  "Validate ev = None \<longleftrightarrow> 0 < sint (ev_ContactID ev) \<and> 0 < sint (ev_ConversationID ev) \<and>
     ev_PostbackURL ev \<noteq> [] \<and> 0 \<le> sint (DebounceTime (ev_BotConfig ev)) \<and>
     (TextSegmentationEnabled (ev_BotConfig ev) \<longrightarrow> 0 < sint (TextSegmentationLimit (ev_BotConfig ev))) \<and>
     0 \<le> float_val (DelayPerCharacter (ev_BotConfig ev))"
  by (auto simp: Validate_def)

text \<open>
  C15 (entries_well_typed). In every reachable state the entries of the service are well typed: the
  key is that of one pair, which the poller reads back from it; the context is one that was
  issued, with no parent; and the settings are those of a valid request for the pair, so the
  contact and the conversation are positive (the poller does not skip the key), there is a
  postback URL, the times are not negative and a segment is not empty, unless the recovery had
  found them in Redis before the first request, where nothing is checked.
\<close>

theorem entries_well_typed:
  assumes "reachable (wire_handler env rc pages cfg) (wire_service env rc pages cfg) ticks G w0 (w, ts)"
    and "fresh_start G w0" "g_secret G = BotRuntimeSecret cfg" "entries_Load w k = Some x"
  shows "\<exists>a b. parsePairKey k = (a, b) \<and> k = pairKey a b \<and> (\<exists>i < w_next_ctx w. en_ctx x = [i]) \<and>
    ((\<exists>y. g_entries G k = Some y \<and> en_cfg y = en_cfg x \<and> en_postbackURL y = en_postbackURL x) \<or>
     (0 < sint a \<and> 0 < sint b \<and> en_postbackURL x \<noteq> [] \<and> 0 \<le> sint (DebounceTime (en_cfg x)) \<and>
      (TextSegmentationEnabled (en_cfg x) \<longrightarrow> 0 < sint (TextSegmentationLimit (en_cfg x))) \<and>
      0 \<le> float_val (DelayPerCharacter (en_cfg x))))"
proof -
  have "sys_ok G w"
    using reachable_ok [OF assms(1) fresh_start_ok [OF assms(2)] plain_wired] assms(3) by simp
  then have ok: "entry_ok G k x w" using assms(4) by (simp add: sys_ok_def)
  then obtain a b where ab: "k = pairKey a b" "origin G a b (en_cfg x) (en_postbackURL x)"
    by (auto simp: entry_ok_def)
  then have "(\<exists>y. g_entries G k = Some y \<and> en_cfg y = en_cfg x \<and> en_postbackURL y = en_postbackURL x) \<or>
      (\<exists>ev. Validate ev = None \<and> ev_ContactID ev = a \<and> ev_ConversationID ev = b \<and>
        ev_BotConfig ev = en_cfg x \<and> ev_PostbackURL ev = en_postbackURL x)"
    by (auto simp: origin_def legit_def)
  moreover have "parsePairKey k = (a, b)" using ab(1) by (simp add: pair_key_parse)
  ultimately show ?thesis using ab(1) ok by (auto simp: entry_ok_def Validate_None)
qed

theorem entries_well_typed_witness:
  "\<exists>w ts x. reachable (wire_handler busy_once mem_client 5 demo_config) demo_service 3
      \<lparr> g_secret = ''s'', g_requests = {demo_request}, g_entries = [pairKey 7 9 \<mapsto> newEntry [0] sent_event] \<rparr>
      (entries_put (pairKey 7 9) (newEntry [0] sent_event) demo_world) (w, ts) \<and>
     entries_Load w (pairKey 7 9) = Some x \<and> parsePairKey (pairKey 7 9) = (7, 9)"
proof -
  let ?w = "entries_put (pairKey 7 9) (newEntry [0] sent_event) demo_world"
  let ?h = "wire_handler busy_once mem_client 5 demo_config"
  let ?G = "\<lparr> g_secret = ''s'', g_requests = {demo_request}, g_entries = [pairKey 7 9 \<mapsto> newEntry [0] sent_event] \<rparr>"
  have "entries_Load demo_world k = None" for k by (simp add: boot_world_def entries_Load_def)
  moreover have "w_ctx_err ?w = (\<lambda>_. None)" "w_next_ctx ?w = 1" "w_launched ?w = []" "\<not> w_stopped ?w"
    by (simp_all add: boot_world_def entries_put_def)
  ultimately have start: "fresh_start ?G ?w"
    by (auto simp: fresh_start_def ctx_ok_def newEntry_def split: if_splits)
  have up: "reachable ?h demo_service 3 ?G ?w (?w, [goroutine_body ?h demo_service 3 GoPoll])"
    by (rule reachable.up)
  have load: "entries_Load ?w (pairKey 7 9) = Some (newEntry [0] sent_event)" by simp
  obtain a b where "parsePairKey (pairKey 7 9) = (a, b)" "pairKey 7 9 = pairKey a b"
    using entries_well_typed [OF up [unfolded demo_service_def] start _ load] by (auto simp: demo_config_def)
  then have "parsePairKey (pairKey 7 9) = (7, 9)" by (simp add: pairKey_inj)
  with up load show ?thesis by blast
qed

end
