(* ===== verification/Poll_Tick.thy ===== *)
theory Poll_Tick
  imports Pipeline_Story
begin

text \<open>
  One tick of the poller over all entries: which windows it advances, in which order, and that a
  tick of one pair leaves the lock and the store of the others alone.
\<close>

section \<open>Programs that spare the lock of a pair\<close>

definition spares :: "('r \<Rightarrow> redis_db) \<Rightarrow> pair \<Rightarrow> ('r, 'n, 'a) go \<Rightarrow> bool" where
  "spares v q p \<longleftrightarrow> (\<forall>w r es w'. run p w = (r, es, w') \<longrightarrow> redis_locked v w' q = redis_locked v w q)"

named_theorems sparing \<open>programs that spare\<close>

lemma sparesD: "spares v q p \<Longrightarrow> run p w = (r, es, w') \<Longrightarrow> redis_locked v w' q = redis_locked v w q"
  unfolding spares_def by blast

lemma spares_Done [sparing]: "spares v q (Done a)"
  by (simp add: spares_def)

lemma spares_bind [sparing]: "spares v q p \<Longrightarrow> (\<And>a. spares v q (f a)) \<Longrightarrow> spares v q (pbind p f)"
  unfolding spares_def by (force simp: run_bind split: prod.splits)

lemma spares_runtime [sparing]:
  "spares v q (get_state g)" "spares v q (Runtime.Load k)" "spares v q (go_launch g')" "spares v q Now"
  by (auto simp: spares_def runtime_defs run_get run_upd run_atomic go_exec redis_locked_def)

lemma spares_redis:
  assumes "\<And>d r x r'. f d r = (x, r') \<Longrightarrow> v r' (lockKey (fst q) (snd q)) = None \<longleftrightarrow> v r (lockKey (fst q) (snd q)) = None"
  shows "spares v q (redis_op c ctx f)"
  using assms by (fastforce simp: spares_def run_redis_op redis_locked_def split: prod.splits)

lemma spares_repo [sparing]:
  fixes a b :: int64
  assumes "redis_laws rc v"
  shows "spares v q (GetState rc c a b)" "spares v q (SetState rc c a b st)"
    "spares v q (Redis_Repository.GetBuffer rc c a b)" "spares v q (Redis_Repository.GetAttachments rc c a b)"
    "spares v q (Redis_Repository.TimerExists rc c a b)"
proof -
  note laws = assms
  have "spares v q (redis_op cmd c (\<lambda>d. rc_Get rc d k))" for cmd k
    by (rule spares_redis) (use law_Get [OF laws] in force)
  then show "spares v q (GetState rc c a b)"
    unfolding GetState_def Let_def by (auto intro!: sparing split: sum.split option.split)
  have "spares v q (redis_op cmd c (\<lambda>d. rc_Set rc d (stateKey a b) x 0))" for cmd x
    by (rule spares_redis, drule law_Set [OF laws]) (auto simp: wrote_def split: option.splits)
  then show "spares v q (SetState rc c a b st)"
    unfolding SetState_def Let_def by (auto intro!: sparing split: sum.split option.split)
  have range: "spares v q (redis_op cmd c (\<lambda>d. rc_LRange rc d k))" for cmd k
    by (rule spares_redis) (use law_LRange [OF laws] in force)
  then show "spares v q (Redis_Repository.GetBuffer rc c a b)"
    "spares v q (Redis_Repository.GetAttachments rc c a b)"
    unfolding Redis_Repository.GetBuffer_def Redis_Repository.GetAttachments_def Let_def
    by (auto intro!: sparing split: sum.split)
  have "spares v q (redis_op cmd c (\<lambda>d. rc_Exists rc d k))" for cmd k
    by (rule spares_redis) (use law_Exists [OF laws] in force)
  then show "spares v q (Redis_Repository.TimerExists rc c a b)"
    unfolding Redis_Repository.TimerExists_def Let_def by (auto intro!: sparing split: sum.split)
qed

lemma spares_advance_locked:
  assumes "redis_laws rc v" "on_redis rc fuel s"
  shows "spares v q (advance_locked s a b)"
proof -
  have s: "ps_repo s = NewPipelineRepository rc fuel" "ps_debounce s = NewDebounceEngine (NewPipelineRepository rc fuel)"
    using assms(2) by (auto simp: on_redis_def)
  note repo = spares_repo [OF assms(1)]
  have "spares v q (Debounce_Engine.GetBuffer (NewPipelineRepository rc fuel) c a b)"
    "spares v q (Debounce_Engine.GetAttachments (NewPipelineRepository rc fuel) c a b)" for c
    unfolding Debounce_Engine.GetBuffer_def Debounce_Engine.GetAttachments_def repo_sel
    by (auto intro!: sparing repo split: sum.split)
  then show ?thesis
    unfolding advance_locked_def launchAIStage_def Let_def s repo_sel
    by (auto intro!: sparing repo split: sum.split option.split)
qed

text \<open>The lock of another pair is not touched by the step into the AI stage.\<close>

lemma advance_spares:
  assumes "redis_laws rc v" "on_redis rc fuel s" "run (advanceToAI s a b) w = (r, es, w')" "q \<noteq> (a, b)"
  shows "redis_locked v w' q = redis_locked v w q"
proof -
  have s: "ps_repo s = NewPipelineRepository rc fuel" using assms(2) by (simp add: on_redis_def)
  obtain x r1 where lock: "rc_Lock rc (ctx_done w Background) (lockKey a b) (w_redis w) = (x, r1)" by fastforce
  let ?w1 = "w \<lparr> w_redis := r1 \<rparr>" and ?k = "lockKey (fst q) (snd q)"
  have k: "?k \<noteq> lockKey a b" using assms(4) by (auto simp: prod_eq_iff)
  with law_Lock [OF assms(1) lock] have 1: "redis_locked v ?w1 q = redis_locked v w q"
    by (simp add: redis_locked_def)
  show ?thesis
  proof (cases x)
    case (Inl err)
    with assms(3) lock 1 show ?thesis
      by (simp add: advanceToAI_def s AcquireLock_def Let_def run_bind run_redis_op)
  next
    case (Inr m)
    obtain y es2 w2 where 2: "run (advance_locked s a b) ?w1 = (y, es2, w2)" by (rule prod_cases3)
    obtain ok r3 where 3: "rc_Unlock rc m (w_redis w2) = (ok, r3)" by fastforce
    have w': "w' = w2 \<lparr> w_redis := r3 \<rparr>"
      using assms(3) lock Inr 2 3
      by (simp add: advanceToAI_def s AcquireLock_def Unlock_def Let_def run_bind run_redis_op)
    have "mx_name m = lockKey a b" using law_Lock [OF assms(1) lock] Inr by simp
    then have "redis_locked v w' q = redis_locked v w2 q"
      using law_Unlock [OF assms(1) 3] k by (simp add: w' redis_locked_def)
    with sparesD [OF spares_advance_locked [OF assms(1,2)] 2] 1 show ?thesis by simp
  qed
qed

section \<open>One entry\<close>

text \<open>What a tick launches for a pair with an entry.\<close>

definition advancing :: "('r \<Rightarrow> redis_db) \<Rightarrow> ('r, 'n) world \<Rightarrow> pipelineEntry \<Rightarrow> pair \<Rightarrow> bool" where
  "advancing v w x p \<longleftrightarrow> \<not> ctx_done w (en_ctx x) \<and> due (redis_view v w p)"

definition launched_by_tick :: "('r \<Rightarrow> redis_db) \<Rightarrow> ('r, 'n) world \<Rightarrow> pipelineEntry \<Rightarrow> pair \<Rightarrow> goroutine list" where
  "launched_by_tick v w x p =
     (if advancing v w x p
      then [ai_goroutine x (fst p) (snd p) (redis_view v w p) (pv_atts (redis_view v w p))] else [])"

text \<open>The effect on the rest of the system.\<close>

definition beside :: "('r \<Rightarrow> redis_db) \<Rightarrow> pair set \<Rightarrow> ('r, 'n) world \<Rightarrow> ('r, 'n) world \<Rightarrow> bool" where
  "beside v P w w' \<longleftrightarrow> (\<forall>k. entries_Load w' k = entries_Load w k) \<and> (\<forall>c. ctx_done w' c = ctx_done w c) \<and>
     (\<forall>q. q \<notin> P \<longrightarrow> redis_view v w' q = redis_view v w q \<and> redis_locked v w' q = redis_locked v w q)"

lemma beside_trans: "beside v P w w1 \<Longrightarrow> beside v Q w1 w2 \<Longrightarrow> beside v (P \<union> Q) w w2"
  by (simp add: beside_def)

lemma beside_refl: "beside v P w w"
  by (simp add: beside_def)

lemma poll_entry_step:
  assumes "redis_ready rc v w" "ctx_ok w" "on_redis rc fuel s" "\<not> redis_locked v w (a, b)" "a \<noteq> 0"
    and "entries_Load w (pairKey a b) = Some x" "run (poll_entry s x (pairKey a b)) w = (r, es, w')"
  shows "redis_ready rc v w' \<and> ctx_ok w' \<and> beside v {(a, b)} w w' \<and>
    w_launched w' = w_launched w @ launched_by_tick v w x (a, b) \<and> \<not> advancing v w' x (a, b)"
proof -
  have s: "ps_repo s = NewPipelineRepository rc fuel" using assms(3) by (simp add: on_redis_def)
  show ?thesis
  proof (cases "ctx_done w (en_ctx x)")
    case True
    with assms(7) have "w' = w" by (simp add: poll_entry_def run_bind runtime_defs run_get)
    with True assms(1,2) show ?thesis by (simp add: beside_refl launched_by_tick_def advancing_def)
  next
    case False
    obtain r1 es1 w1 where 1: "run (GetState rc (en_ctx x) a b) w = (r1, es1, w1)" by (rule prod_cases3)
    note c1 = GetState_contract [OF ready_sound [OF assms(1)] 1]
    note f1 = redis_only_fields [OF conjunct1 [OF conjunct2 [OF c1]]]
    have r1: "r1 = Inr (pv_state (redis_view v w (a, b)))"
      using c1 GetState_responsive [OF assms(1) False 1] by (cases r1) auto
    have ready1: "redis_ready rc v w1" using c1 assms(1) by (simp add: redis_ready_def)
    have live1: "\<not> ctx_done w1 (en_ctx x)" using False f1 by (simp add: ctx_done_iff)
    have lock1: "redis_locked v w1 q = redis_locked v w q" for q
      using sparesD [OF spares_repo(1) 1] redis_ready_typed(2) [OF assms(1)] by blast
    obtain r2 es2 w2 where 2: "run (Redis_Repository.TimerExists rc (en_ctx x) a b) w1 = (r2, es2, w2)"
      by (rule prod_cases3)
    note c2 = TimerExists_contract [OF ready_sound [OF ready1] 2]
    note f2 = redis_only_fields [OF conjunct1 [OF conjunct2 [OF c2]]]
    have r2: "r2 = Inr (pv_timer (redis_view v w (a, b)))"
      using c1 c2 TimerExists_responsive [OF ready1 live1 2] by (cases r2) auto
    have ready2: "redis_ready rc v w2" using c2 ready1 by (simp add: redis_ready_def)
    have lock2: "redis_locked v w2 q = redis_locked v w1 q" for q
      using sparesD [OF spares_repo(5) 2] redis_ready_typed(2) [OF assms(1)] by blast
    have e2: "entries_Load w2 = entries_Load w" "w_launched w2 = w_launched w" "redis_view v w2 = redis_view v w"
      using f1 f2 c1 c2 by (simp_all add: entries_Load_def fun_eq_iff)
    have d2: "ctx_done w2 c = ctx_done w c" for c using f1 f2 by (simp add: ctx_done_iff)
    have ok1: "ctx_ok w1" by (rule iffD2 [OF ctx_ok_cong assms(2)]) (simp_all add: f1)
    have ok2: "ctx_ok w2" by (rule iffD2 [OF ctx_ok_cong assms(2)]) (simp_all add: f1 f2)
    have w1: "beside v P w w1" "beside v P w w2" for P
      using f1 c1 e2 d2 lock1 lock2 by (simp_all add: beside_def entries_Load_def ctx_done_iff)
    have key: "parsePairKey (pairKey a b) = (a, b)" by (rule pair_key_parse)
    show ?thesis
    proof (cases "due (redis_view v w (a, b))")
      case True
      then obtain st where "pv_state (redis_view v w (a, b)) = Some st" "st_Stage st = StageDebounce"
        "\<not> pv_timer (redis_view v w (a, b))" by (auto simp: due_def)
      with assms(5,7) False 1 2 r1 r2 obtain es3 where 3: "run (advanceToAI s a b) w2 = (r, es3, w')"
        by (auto simp: poll_entry_def s key run_bind runtime_defs run_get split: prod.splits)
      have due2: "due (redis_view v w2 (a, b))" "\<not> redis_locked v w2 (a, b)" "entries_Load w2 (pairKey a b) = Some x"
        using True assms(4,6) by (simp_all add: e2 lock1 lock2)
      note step = window_step [OF ready2 ok2 assms(3) due2(2,1,3) 3]
      have "\<not> due (redis_view v w' (a, b))"
      proof -
        obtain gs where "w_launched w' = w_launched w2 @ gs" "gs \<noteq> [] \<Longrightarrow> \<not> due (redis_view v w' (a, b))"
          using conjunct2 [OF advance_post [OF ready_sound [OF ready2] assms(3) 3]]
          by (rule advanced_launched) blast
        with step show ?thesis by simp
      qed
      moreover have "redis_locked v w' q = redis_locked v w q" if "q \<noteq> (a, b)" for q
        using advance_spares [OF redis_ready_typed(2) [OF assms(1)] assms(3) 3 that] by (simp add: lock1 lock2)
      ultimately show ?thesis using step True False
        by (simp add: beside_def e2 d2 launched_by_tick_def advancing_def)
    next
      case not_due: False
      have "w' = w1 \<or> w' = w2"
        using assms(5,7) False 1 2 r1 r2 not_due
        by (auto simp: poll_entry_def s key run_bind runtime_defs run_get due_def split: prod.splits if_splits)
      with not_due c1 e2 f1 show ?thesis using ready1 ready2 ok1 ok2 w1
        by (auto simp: launched_by_tick_def advancing_def)
    qed
  qed
qed

section \<open>A whole tick\<close>

definition tick_of :: "('r \<Rightarrow> redis_db) \<Rightarrow> ('r, 'n) world \<Rightarrow> string \<Rightarrow> goroutine list" where
  "tick_of v w k = (case entries_Load w k of None \<Rightarrow> [] | Some x \<Rightarrow> launched_by_tick v w x (parsePairKey k))"

lemma beside_frame:
  assumes "beside v {p} w w1" "q \<noteq> p"
  shows "launched_by_tick v w1 x q = launched_by_tick v w x q" "advancing v w1 x q = advancing v w x q"
proof -
  have "redis_view v w1 q = redis_view v w q" "ctx_done w1 (en_ctx x) = ctx_done w (en_ctx x)"
    using assms unfolding beside_def by blast+
  then show "launched_by_tick v w1 x q = launched_by_tick v w x q" "advancing v w1 x q = advancing v w x q"
    by (simp_all add: launched_by_tick_def advancing_def)
qed

lemma tick_of_frame:
  assumes "beside v {(a, b)} w w1" "k = pairKey c d" "k \<noteq> pairKey a b"
  shows "tick_of v w1 k = tick_of v w k"
proof -
  have "(c, d) \<noteq> (a, b)" using assms(2,3) by auto
  then show ?thesis
    using beside_frame(1) [OF assms(1)] assms(1)
    by (auto simp: tick_of_def assms(2) pair_key_parse beside_def split: option.split)
qed

text \<open>The keys of the entries, as the poller meets them.\<close>

definition pollable :: "('r \<Rightarrow> redis_db) \<Rightarrow> ('r, 'n) world \<Rightarrow> string \<Rightarrow> bool" where
  "pollable v w k \<longleftrightarrow> (\<exists>a b. k = pairKey a b \<and> a \<noteq> 0 \<and> \<not> redis_locked v w (a, b))"

lemma visit_step:
  assumes "redis_ready rc v w" "ctx_ok w" "on_redis rc fuel s" "distinct ks" "\<forall>k \<in> set ks. pollable v w k"
    and "run (visit_keys (poll_entry s) ks) w = (r, es, w')"
  shows "redis_ready rc v w' \<and> ctx_ok w' \<and> beside v (parsePairKey ` set ks) w w' \<and>
    w_launched w' = w_launched w @ concat (map (tick_of v w) ks) \<and>
    (\<forall>k \<in> set ks. \<forall>x. entries_Load w k = Some x \<longrightarrow> \<not> advancing v w' x (parsePairKey k))"
  using assms(1,2,4-)
proof (induction ks arbitrary: w es)
  case Nil
  then show ?case by (simp add: beside_refl)
next
  case (Cons k ks)
  obtain a b where k: "k = pairKey a b" "a \<noteq> 0" "\<not> redis_locked v w (a, b)"
    using Cons.prems(4) by (auto simp: pollable_def)
  have p: "parsePairKey k = (a, b)" by (simp add: k(1) pair_key_parse)
  obtain es1 w1 es2 where
    1: "run (case entries_Load w k of None \<Rightarrow> Done () | Some x \<Rightarrow> poll_entry s x k) w = ((), es1, w1)"
    and 2: "run (visit_keys (poll_entry s) ks) w1 = (r, es2, w')"
    using Cons.prems(5) by (auto simp: run_bind runtime_defs run_get split: prod.splits)
  have step: "redis_ready rc v w1 \<and> ctx_ok w1 \<and> beside v {(a, b)} w w1 \<and>
      w_launched w1 = w_launched w @ tick_of v w k \<and>
      (\<forall>x. entries_Load w k = Some x \<longrightarrow> \<not> advancing v w1 x (a, b))"
  proof (cases "entries_Load w k")
    case None
    with 1 Cons.prems(1,2) show ?thesis by (simp add: tick_of_def beside_refl)
  next
    case (Some x)
    with 1 have run: "run (poll_entry s x (pairKey a b)) w = ((), es1, w1)" by (simp add: k(1))
    from poll_entry_step [OF Cons.prems(1,2) assms(3) k(3,2) Some [unfolded k(1)] run] Some
    show ?thesis by (simp add: tick_of_def p)
  qed
  have others: "\<exists>c d. k' = pairKey c d \<and> (c, d) \<noteq> (a, b) \<and> k' \<noteq> pairKey a b \<and> c \<noteq> 0 \<and> \<not> redis_locked v w (c, d)"
    if k': "k' \<in> set ks" for k'
  proof -
    obtain c d where c: "k' = pairKey c d" "c \<noteq> 0" "\<not> redis_locked v w (c, d)"
      using k' Cons.prems(4) by (auto simp: pollable_def)
    moreover have "k' \<noteq> k" using k' Cons.prems(3) by auto
    ultimately show ?thesis using k(1) by blast
  qed
  have "distinct ks" using Cons.prems(3) by simp
  moreover have "\<forall>k' \<in> set ks. pollable v w1 k'"
  proof
    fix k' assume "k' \<in> set ks"
    from others [OF this] obtain c d where c: "k' = pairKey c d" "(c, d) \<noteq> (a, b)" "c \<noteq> 0"
      "\<not> redis_locked v w (c, d)" by blast
    then have "\<not> redis_locked v w1 (c, d)" using step by (simp add: beside_def)
    with c show "pollable v w1 k'" by (auto simp: pollable_def)
  qed
  ultimately have IH: "redis_ready rc v w' \<and> ctx_ok w' \<and> beside v (parsePairKey ` set ks) w1 w' \<and>
      w_launched w' = w_launched w1 @ concat (map (tick_of v w1) ks) \<and>
      (\<forall>k \<in> set ks. \<forall>x. entries_Load w1 k = Some x \<longrightarrow> \<not> advancing v w' x (parsePairKey k))"
    using Cons.IH [of w1 es2] step 2 by blast
  have ticks: "map (tick_of v w1) ks = map (tick_of v w) ks"
    using step others tick_of_frame by (intro map_cong refl) blast
  have "parsePairKey k' \<noteq> (a, b)" if "k' \<in> set ks" for k'
    using others [OF that] by (auto simp: pair_key_parse)
  then have "(a, b) \<notin> parsePairKey ` set ks" by (metis imageE)
  then have "advancing v w' x (a, b) = advancing v w1 x (a, b)" for x
    using IH by (simp add: beside_def advancing_def)
  then have "\<forall>k' \<in> set (k # ks). \<forall>x. entries_Load w k' = Some x \<longrightarrow> \<not> advancing v w' x (parsePairKey k')"
    using step IH by (simp add: p beside_def)
  moreover have "beside v (parsePairKey ` set (k # ks)) w w'"
    using beside_trans [of v "{(a, b)}" w w1 "parsePairKey ` set ks" w'] step IH by (simp add: p)
  ultimately show ?case using IH step by (simp add: ticks)
qed

text \<open>
  C8 (tick_advances_due). A tick of the poller that nobody interferes with visits every entry
  once and hands over exactly the windows that have expired: for each entry whose pipeline is not
  cancelled and whose pair is due it launches the AI stage with all messages and media of the
  window, and for no other. Afterwards no such pair is due any more, the entries are as they
  were, and the store of the pairs without an entry is untouched.
\<close>

theorem tick_advances_due:
  assumes "redis_ready rc v w" "ctx_ok w" "on_redis rc fuel s" "\<not> w_stop w"
    and "\<forall>k x. entries_Load w k = Some x \<longrightarrow> pollable v w k"
    and "run (pollDebounceExpiry s (Suc 0)) w = (r, es, w')"
  shows "\<not> r \<and>
    (\<exists>ks. distinct ks \<and> set ks = {k. entries_Load w k \<noteq> None} \<and>
       w_launched w' = w_launched w @ concat (map (tick_of v w) ks)) \<and>
    (\<forall>k. entries_Load w' k = entries_Load w k) \<and>
    (\<forall>a b x. entries_Load w (pairKey a b) = Some x \<and> \<not> ctx_done w (en_ctx x) \<longrightarrow>
       \<not> due (redis_view v w' (a, b))) \<and>
    (\<forall>a b. entries_Load w (pairKey a b) = None \<longrightarrow> redis_view v w' (a, b) = redis_view v w (a, b))"
proof -
  let ?ks = "remdups (map fst (w_entries w))"
  have keys: "set ?ks = {k. entries_Load w k \<noteq> None}"
    by (simp add: entries_Load_def map_of_eq_None_iff)
  obtain es1 where r: "\<not> r" "run (visit_keys (poll_entry s) ?ks) w = ((), es1, w')"
    using assms(4,6) by (auto simp: run_bind run_emit run_get Range_def split: prod.splits)
  have "\<forall>k \<in> set ?ks. pollable v w k" using assms(5) unfolding keys by auto
  from visit_step [OF assms(1-3) distinct_remdups this r(2)]
  have tick: "w_launched w' = w_launched w @ concat (map (tick_of v w) ?ks)"
    "beside v (parsePairKey ` set ?ks) w w'"
    "\<forall>k \<in> set ?ks. \<forall>x. entries_Load w k = Some x \<longrightarrow> \<not> advancing v w' x (parsePairKey k)"
    by blast+
  have "\<not> due (redis_view v w' (a, b))" if "entries_Load w (pairKey a b) = Some x" "\<not> ctx_done w (en_ctx x)" for a b x
  proof -
    have "pairKey a b \<in> set ?ks" unfolding keys using that(1) by simp
    then have "\<not> advancing v w' x (a, b)" using tick(3) that(1) by (metis pair_key_parse)
    then show ?thesis using tick(2) that(2) by (simp add: advancing_def beside_def)
  qed
  moreover have "redis_view v w' (a, b) = redis_view v w (a, b)" if none: "entries_Load w (pairKey a b) = None" for a b
  proof -
    have "parsePairKey k \<noteq> (a, b)" if "k \<in> set ?ks" for k
    proof -
      have "pollable v w k" using that assms(5) unfolding keys by auto
      then obtain c d where "k = pairKey c d" by (auto simp: pollable_def)
      with that none show ?thesis unfolding keys by (auto simp: pair_key_parse)
    qed
    then have "(a, b) \<notin> parsePairKey ` set ?ks" by (metis imageE)
    with tick(2) show ?thesis unfolding beside_def by blast
  qed
  moreover have "\<forall>k. entries_Load w' k = entries_Load w k" using tick(2) by (simp add: beside_def)
  ultimately show ?thesis using r(1) tick(1) keys by (metis (no_types, lifting) distinct_remdups)
qed

theorem tick_advances_due_witness:
  "\<exists>r es w'. run (pollDebounceExpiry demo_service (Suc 0)) due_world = (r, es, w') \<and>
     (\<exists>b. w_launched w' = [GoAI [0] 7 9 b (pv_atts (redis_view mem_view due_world (7, 9)))
        (ev_BotConfig demo_event) ''https://crm/'']) \<and>
     \<not> due (redis_view mem_view w' (7, 9))"
proof -
  obtain r es w' where run: "run (pollDebounceExpiry demo_service (Suc 0)) due_world = (r, es, w')"
    by (rule prod_cases3)
  have "entries_Load (stored_world st) k = None" for st k
    by (simp add: stored_world_def boot_world_def entries_Load_def)
  then have only: "entries_Load due_world k = (if k = pairKey 7 9 then Some (newEntry [0] demo_event) else None)" for k
    by (simp add: due_world_def)
  have "\<forall>k x. entries_Load due_world k = Some x \<longrightarrow> pollable mem_view due_world k"
    unfolding only by (auto simp: pollable_def)
  moreover have live: "\<not> ctx_done due_world [0]" "\<not> w_stop due_world"
    by (simp_all add: due_world_def stored_world_def boot_world_def ctx_done_iff entries_put_def)
  ultimately have post: "(\<exists>ks. distinct ks \<and> set ks = {k. entries_Load due_world k \<noteq> None} \<and>
       w_launched w' = w_launched due_world @ concat (map (tick_of mem_view due_world) ks))"
    "\<not> due (redis_view mem_view w' (7, 9))"
    using tick_advances_due [OF due_world_facts(1,4) demo_on _ _ run] only by (auto simp: newEntry_def)
  have "{k. entries_Load due_world k \<noteq> None} = {pairKey 7 9}" by (auto simp: only)
  with post(1) obtain ks where "distinct ks" "set ks = {pairKey 7 9}"
    "w_launched w' = concat (map (tick_of mem_view due_world) ks)" by auto
  moreover from this(1,2) have "ks = [pairKey 7 9]" 
    by (cases ks) (auto simp: subset_singleton_iff)
  ultimately have "w_launched w' = tick_of mem_view due_world (pairKey 7 9)" by simp
  then show ?thesis
    using run post(2) live by (auto simp: tick_of_def only pair_key_parse launched_by_tick_def advancing_def
        newEntry_def ai_goroutine_def demo_event_def)
qed

end
