(* ===== verification/Spec2Isabelle.thy ===== *)
theory Spec2Isabelle
  imports Segmentation Bot_Codec Redis_Repository Dispatch_Engine Ai_Calls Service_System Poll_Tick
begin

text \<open>
  A verification library for the bot runtime, the Go service that takes the messages of CRM
  conversations, collects them over a debounce window, asks an AI processor for a reply and
  posts the reply back in parts.

  How the program works. \<open>cmd/server/main.go\<close> loads \<open>internal/config\<close>, connects to Redis, builds
  the parts and starts the server. \<open>POST /events\<close> (\<open>pkg/pipeline/handler\<close>) validates an event, writes
  the stage \<open>incoming\<close> of its pair (contact and conversation) and launches \<open>Process\<close> of
  \<open>pkg/pipeline/service\<close>. \<open>Process\<close> holds the Redis lock of the pair and, by the stage it reads,
  starts a pipeline, extends the debounce window or replaces the running pipeline. A poller sees
  that a window has expired and launches the AI stage, which calls the processor
  (\<open>pkg/ai/service\<close>) and launches the dispatch stage, which posts the reply
  (\<open>pkg/dispatch/service\<close>). Stage, buffers and timer of a pair live in Redis
  (\<open>pkg/pipeline/repository\<close>, \<open>pkg/debounce/service\<close>); the context, settings and URLs of its pipeline
  live in a \<open>sync.Map\<close> of the service.

  The language and its library. \<^theory_text>\<open>Prelude\<close> has the integers and errors. \<^theory_text>\<open>Unicode_Tables\<close>,
  \<^theory_text>\<open>Go_Strings\<close>, \<^theory_text>\<open>Utf8\<close> and \<^theory_text>\<open>Go_Text\<close> model Go strings as bytes, runes, and the functions of
  \<open>strings\<close> and \<open>strconv\<close> in use; \<^theory_text>\<open>Base64\<close>, \<^theory_text>\<open>Go_Json\<close> and \<^theory_text>\<open>Go_Json_Roundtrip\<close> the encodings,
  with their round trips. \<^theory_text>\<open>Go_Prog\<close> models goroutines as resumptions: a program is a tree of
  atomic steps that emit events and change the shared state. \<open>run\<close> executes a program alone;
  \<open>outcomes\<close> collects the results and event traces it can have when anything may interfere before
  each step, so a theorem about \<open>outcomes\<close> holds under every schedule; \<open>wp\<close> is the weakest
  precondition of \<open>run\<close>. \<^theory_text>\<open>Runtime\<close> is the shared state (\<open>world\<close>): Redis, network, contexts,
  entries, launched goroutines, stop channels, environment, clock and random draws, with the
  operations of \<open>context\<close>, \<open>sync\<close>, \<open>time\<close> and \<open>os\<close>.

  The program.
  \<^item> \<^theory_text>\<open>Bot_Model\<close> and \<^theory_text>\<open>Bot_Codec\<close>: \<open>pkg/pipeline/model/pipeline.go\<close>, \<open>pkg/ai/model/a2a.go\<close> and
    \<open>internal/errors\<close>, each struct as a record, with its JSON tags in both directions.
  \<^item> \<^theory_text>\<open>Redis_Client\<close>: go-redis and redsync as a record of functions with their documented laws;
    \<open>mem_client\<close> is a server in memory that obeys them, used by the witnesses.
  \<^item> \<^theory_text>\<open>Pipeline_Repository\<close>: the repository interface and its contract, a locale over an abstract
    store (\<open>pair_view\<close>: state, buffer, attachments, timer). \<^theory_text>\<open>Redis_Repository\<close>: its implementation
    with keys, TTLs, the lock and \<open>ScanStates\<close>, and the proof that it keeps the contract.
  \<^item> \<^theory_text>\<open>Debounce_Engine\<close>: \<open>Start\<close>, \<open>Reset\<close>, \<open>GetBuffer\<close>, \<open>GetAttachments\<close>, \<open>TimerExists\<close> over any
    repository that keeps the contract.
  \<^item> \<^theory_text>\<open>Segmentation\<close>, \<^theory_text>\<open>Media_Urls\<close>, \<^theory_text>\<open>Http_Client\<close> and \<^theory_text>\<open>Dispatch_Engine\<close>: \<open>dispatch_engine.go\<close>,
    the segmentation of a reply, the media URLs in it, the HTTP client with redirects, and
    \<open>Dispatch\<close> with its cancellation checks and delays.
  \<^item> \<^theory_text>\<open>Ai_Attachments\<close>, \<^theory_text>\<open>Ai_Response\<close>, \<^theory_text>\<open>Ai_Adapter\<close> and \<^theory_text>\<open>Ai_Calls\<close>: \<open>ai_adapter.go\<close>, the
    download of incoming media, the reply in an A2A response, one attempt, the backoff and the
    retries.
  \<^item> \<^theory_text>\<open>Pipeline_Service\<close>: \<open>pipeline_service.go\<close>, every operation and goroutine body. \<^theory_text>\<open>Service_Parts\<close>:
    the interfaces of the two outgoing services as locales, interpreted on the adapter and the
    dispatch engine. \<^theory_text>\<open>Http_Handler\<close> and \<^theory_text>\<open>Server_Main\<close>: routes, middleware, configuration, wiring,
    start and stop.

  What the lemmas show. \<^theory_text>\<open>Pipeline_Transitions\<close> and
  \<^theory_text>\<open>Pipeline_Stages\<close> derive, over every store that keeps the contract,
  what \<open>Process\<close>, the step into the AI stage, the stages and their cleanup do to the
  store, the entries, the contexts and the goroutines; the specification of \<open>Process\<close>
  is the function \<open>machine\<close> on one \<open>pair_view\<close>.
  \<^theory_text>\<open>Pipeline_Progress\<close> shows that on a server that answers nothing fails
  on a live context. \<^theory_text>\<open>Pipeline_Properties\<close> states the properties of the
  service on Redis, \<^theory_text>\<open>Pipeline_Races\<close> what a turn that was replaced can
  still do to the next one, and \<^theory_text>\<open>Pipeline_Story\<close> whole turns, from the
  message to the posted reply. \<^theory_text>\<open>Poll_Tick\<close> shows what a tick of the
  poller does over all entries. \<^theory_text>\<open>Service_Lifecycle\<close> has the scope of the
  lock, the route of the events, the restart and the shutdown. \<^theory_text>\<open>Go_Rely\<close>
  is a rely-guarantee judgement over the single steps of a program;
  \<^theory_text>\<open>Service_System\<close> defines the states the running process can reach
  (requests, steps of every goroutine in any order, deadlines, changes of Redis and the network, the
  signal to stop) and shows by that judgement that every program of the service keeps the invariant
  \<open>sys_ok\<close>. The properties of the codec, the segmentation, the media URLs,
  \<open>Dispatch\<close>, the AI call and the repository stand at the end of the theories of these
  parts.

  Parameters and bounds. The Redis server, the HTTP transport with \<open>net/url\<close> and
  \<open>mime\<close>, and the parser of \<open>REDIS_URL\<close> are parameters, with laws stated
  as hypotheses where a property needs them and an instance in its witness. Redirect chains carry
  the fuel 10, at which both policies have stopped (\<open>do_loop_fuel\<close>). The retry loop
  counts down \<open>maxRetries + 1\<close> attempts. Three loops of the program may run forever:
  the scan of the keys (its fuel is the number of pages; \<open>None\<close> when they are used up),
  the poller (its fuel is the number of ticks) and the wait of \<open>Shutdown\<close> (its fuel is
  the number of times it looks). All other loops are structural.

  Not modelled: gin beyond what the handlers read of a request, log lines, the escapes \<open>%q\<close> writes
  in one error text, the listening server and the signal (a parameter of \<open>stop\<close>), the nesting limit
  of \<open>encoding/json\<close>, and panics. \<open>recoverPipeline\<close> is modelled, called with whether the body
  panicked; the bodies as modelled do so only for a nil reply. \<open>internal/testhelpers\<close> is a
  container for the Go tests.
\<close>

end
